(* ===== verification/Transition_System.thy ===== *)
theory Transition_System
  imports Main
begin

text \<open>
  Reachability for components whose operations interleave, and the interface through which an
  invariant of their steps becomes an invariant of every reachable state.  A component provides
  its initial states, its step relation and an invariant; the locale \<open>inductive_invariant\<close>
  turns the two preservation laws into a statement on all executions.
\<close>

inductive reach :: "('s \<Rightarrow> bool) \<Rightarrow> ('s \<Rightarrow> 's \<Rightarrow> bool) \<Rightarrow> 's \<Rightarrow> bool"
  for init :: "'s \<Rightarrow> bool" and trans :: "'s \<Rightarrow> 's \<Rightarrow> bool"
where
  reach_init: "init s \<Longrightarrow> reach init trans s"
| reach_step: "reach init trans s \<Longrightarrow> trans s s' \<Longrightarrow> reach init trans s'"

locale inductive_invariant =
  fixes init :: "'s \<Rightarrow> bool" and trans :: "'s \<Rightarrow> 's \<Rightarrow> bool" and inv :: "'s \<Rightarrow> bool"
  assumes inv_init: "init s \<Longrightarrow> inv s"
    and inv_trans: "inv s \<Longrightarrow> trans s s' \<Longrightarrow> inv s'"
begin

lemma reach_inv: "reach init trans s \<Longrightarrow> inv s"
  by (induction rule: reach.induct) (auto intro: inv_init inv_trans)

lemma steps_inv: "trans\<^sup>*\<^sup>* s s' \<Longrightarrow> inv s \<Longrightarrow> inv s'"
  by (induction rule: rtranclp_induct) (auto intro: inv_trans)

end

text \<open>Deterministic components run a list of commands; the states so reached are reachable.\<close>

lemma reach_fold:
  assumes "reach init (\<lambda>s s'. \<exists>c. ok s c \<and> s' = exec c s) s"
    and "\<And>n. n < length cs \<Longrightarrow> ok (fold exec (take n cs) s) (cs ! n)"
  shows "reach init (\<lambda>s s'. \<exists>c. ok s c \<and> s' = exec c s) (fold exec cs s)"
  using assms
proof (induction cs arbitrary: s)
  case (Cons c cs)
  have "ok s c" using Cons.prems(2) [of 0] by simp
  then have "reach init (\<lambda>s s'. \<exists>c. ok s c \<and> s' = exec c s) (exec c s)"
    using Cons.prems(1) by (blast intro: reach_step)
  moreover have "ok (fold exec (take n cs) (exec c s)) (cs ! n)" if "n < length cs" for n
    using Cons.prems(2) [of "Suc n"] that by simp
  ultimately show ?case using Cons.IH by simp
qed simp

end
