(* ===== verification/Thread_Pool.thy ===== *)
theory Thread_Pool
  imports Transition_System "HOL-Library.Multiset"
begin

text \<open>
  The thread pool of \<^verbatim>\<open>src/common/include/dfg/thread_pool.hpp\<close> as a step relation.  A worker
  is waiting at the condition variable, running a job, or has left its loop; a wake-up whose
  predicate holds is one atomic step because the mutex is held.  The ghost fields \<open>accepted\<close>,
  \<open>started\<close> and \<open>finished\<close> record the jobs in the order in which \<^verbatim>\<open>submit\<close> enqueued them, workers
  took them and their calls returned; \<open>rejected\<close> the submissions that threw.
\<close>

datatype 'j worker = Waiting | Running 'j | Exited

record 'j pool =
  workers :: "'j worker list"
  jobs :: "'j list"
  stop :: bool
  accepted :: "'j list"
  started :: "'j list"
  finished :: "'j list"
  rejected :: "'j list"

definition pool_new :: "nat \<Rightarrow> 'j pool" where
  "pool_new num_threads = \<lparr>workers = replicate num_threads Waiting, jobs = [], stop = False,
     accepted = [], started = [], finished = [], rejected = []\<rparr>"

definition submit :: "'j \<Rightarrow> 'j pool \<Rightarrow> 'j pool" where
  "submit j p = (if stop p then p\<lparr>rejected := rejected p @ [j]\<rparr>
                 else p\<lparr>jobs := jobs p @ [j], accepted := accepted p @ [j]\<rparr>)"

text \<open>The first half of the destructor.\<close>

definition pool_stop :: "'j pool \<Rightarrow> 'j pool" where
  "pool_stop p = p\<lparr>stop := True\<rparr>"

text \<open>One iteration of \<^verbatim>\<open>worker_loop\<close> up to the release of the lock: wait until there is a job or
  the pool stops, leave when it stops with nothing left, otherwise take the oldest job.  \<open>None\<close> is
  a worker that keeps waiting.\<close>

definition worker_wake :: "nat \<Rightarrow> 'j pool \<Rightarrow> 'j pool option" where
  "worker_wake i p =
     (if i < length (workers p) \<and> workers p ! i = Waiting then
        (case jobs p of
           [] \<Rightarrow> if stop p then Some (p\<lparr>workers := (workers p)[i := Exited]\<rparr>) else None
         | j # js \<Rightarrow> Some (p\<lparr>workers := (workers p)[i := Running j], jobs := js, started := started p @ [j]\<rparr>))
      else None)"

text \<open>\<^verbatim>\<open>job();\<close> returns and the loop starts again.\<close>

definition worker_done :: "nat \<Rightarrow> 'j pool \<Rightarrow> 'j pool option" where
  "worker_done i p =
     (if i < length (workers p) then
        (case workers p ! i of
           Running j \<Rightarrow> Some (p\<lparr>workers := (workers p)[i := Waiting], finished := finished p @ [j]\<rparr>)
         | _ \<Rightarrow> None)
      else None)"

inductive pool_step :: "'j pool \<Rightarrow> 'j pool \<Rightarrow> bool" where
  "pool_step p (submit j p)"
| "pool_step p (pool_stop p)"
| "worker_wake i p = Some p' \<Longrightarrow> pool_step p p'"
| "worker_done i p = Some p' \<Longrightarrow> pool_step p p'"

inductive_cases pool_stepE: "pool_step p p'"

text \<open>The destructor returns when every worker has been joined.\<close>

definition joined :: "'j pool \<Rightarrow> bool" where
  "joined p \<longleftrightarrow> stop p \<and> (\<forall>w \<in> set (workers p). w = Exited)"

section \<open>The invariant\<close>

definition running :: "'j worker list \<Rightarrow> 'j multiset" where
  "running ws = mset (concat (map (\<lambda>w. case w of Running j \<Rightarrow> [j] | _ \<Rightarrow> []) ws))"

definition pool_inv :: "nat \<Rightarrow> 'j pool \<Rightarrow> bool" where
  "pool_inv n p \<longleftrightarrow>
     length (workers p) = n \<and>
     accepted p = started p @ jobs p \<and>
     mset (started p) = mset (finished p) + running (workers p) \<and>
     (Exited \<in> set (workers p) \<longrightarrow> stop p \<and> jobs p = [])"

lemma running_simps [simp]:
  "running [] = {#}" "running (Waiting # ws) = running ws" "running (Exited # ws) = running ws"
  "running (Running j # ws) = add_mset j (running ws)"
  by (simp_all add: running_def)

lemma running_upd:
  "i < length ws \<Longrightarrow> running (ws[i := w]) + running [ws ! i] = running ws + running [w]"
proof (induction ws arbitrary: i)
  case (Cons x ws)
  then show ?case by (cases i; cases x; cases w; force)
qed simp

lemma pool_inv_new: "pool_inv n (pool_new n)"
  by (auto simp: pool_inv_def pool_new_def running_def)

lemma pool_inv_submit: "pool_inv n p \<Longrightarrow> pool_inv n (submit j p)"
  by (auto simp: pool_inv_def submit_def)

lemma pool_inv_stop: "pool_inv n p \<Longrightarrow> pool_inv n (pool_stop p)"
  by (auto simp: pool_inv_def pool_stop_def)

lemma pool_inv_wake: "pool_inv n p \<Longrightarrow> worker_wake i p = Some p' \<Longrightarrow> pool_inv n p'"
  using running_upd [of i "workers p" Exited] running_upd [of i "workers p" "Running (hd (jobs p))"]
  by (auto simp: pool_inv_def worker_wake_def dest!: subsetD [OF set_update_subset_insert]
      split: if_splits list.splits)

lemma pool_inv_done: "pool_inv n p \<Longrightarrow> worker_done i p = Some p' \<Longrightarrow> pool_inv n p'"
  using running_upd [of i "workers p" Waiting]
  by (auto simp: pool_inv_def worker_done_def dest!: subsetD [OF set_update_subset_insert]
      split: if_splits worker.splits)

interpretation pool: inductive_invariant "\<lambda>p. p = pool_new n" pool_step "pool_inv n"
  by unfold_locales
    (auto elim!: pool_stepE simp: pool_inv_new pool_inv_submit pool_inv_stop
      intro: pool_inv_wake pool_inv_done)

text \<open>As long as some worker has not left, a job in the queue or a stopped pool with work or
  workers left always has a next step of a worker: the pool does not get stuck.\<close>

lemma pool_progress:
  assumes "i < length (workers p)" "workers p ! i \<noteq> Exited" "jobs p \<noteq> [] \<or> stop p"
  shows "(\<exists>p'. worker_wake i p = Some p') \<or> (\<exists>p'. worker_done i p = Some p')"
  using assms by (cases "workers p ! i"; cases "jobs p") (auto simp: worker_wake_def worker_done_def)

section \<open>Properties\<close>

text \<open>Jobs are started in the order in which they were submitted, every accepted job is
  waiting, running or finished exactly once, and none is ever lost or run twice, in every
  interleaving of submissions, workers and shutdown.\<close>

theorem pool_no_loss:
  assumes "reach (\<lambda>p. p = pool_new n) pool_step p"
  shows "accepted p = started p @ jobs p \<and>
    mset (accepted p) = mset (finished p) + running (workers p) + mset (jobs p)"
  using pool.reach_inv [OF assms] by (auto simp: pool_inv_def)

theorem pool_no_loss_witness:
  "accepted (submit (7::nat) (pool_new 2)) = started (submit 7 (pool_new 2)) @ jobs (submit 7 (pool_new 2))"
proof -
  have "reach (\<lambda>p. p = pool_new 2) pool_step (submit (7::nat) (pool_new 2))"
    by (blast intro: reach_init reach_step pool_step.intros)
  then show ?thesis using pool_no_loss by blast
qed

text \<open>C12. Shutdown drains the queue: when the destructor of a pool with at least one worker
  returns, every job that was ever accepted has finished.\<close>

theorem pool_drain:
  assumes "reach (\<lambda>p. p = pool_new n) pool_step p" "0 < n" "joined p"
  shows "jobs p = [] \<and> mset (finished p) = mset (accepted p)"
proof -
  have inv: "pool_inv n p" by (rule pool.reach_inv [OF assms(1)])
  have all: "\<forall>w \<in> set (workers p). w = Exited" using assms(3) by (simp add: joined_def)
  then have "running (workers p) = {#}" by (auto simp: running_def)
  moreover have "Exited \<in> set (workers p)"
    using inv assms(2) all by (cases "workers p") (auto simp: pool_inv_def)
  ultimately show ?thesis using inv by (simp add: pool_inv_def)
qed

theorem pool_drain_witness:
  "\<exists>p. reach (\<lambda>p. p = pool_new 1) pool_step p \<and> joined p \<and> finished p = [7::nat]"
proof -
  define p1 where "p1 = pool_stop (submit (7::nat) (pool_new 1))"
  define p2 where "p2 = the (worker_wake 0 p1)"
  define p3 where "p3 = the (worker_done 0 p2)"
  define p4 where "p4 = the (worker_wake 0 p3)"
  note defs = p4_def p3_def p2_def p1_def worker_wake_def worker_done_def pool_stop_def submit_def
    pool_new_def
  have "worker_wake 0 p1 = Some p2" "worker_done 0 p2 = Some p3" "worker_wake 0 p3 = Some p4"
    by (simp_all add: defs)
  moreover have "reach (\<lambda>p. p = pool_new 1) pool_step p1"
    unfolding p1_def by (blast intro: reach_init reach_step pool_step.intros)
  ultimately have r: "reach (\<lambda>p. p = pool_new 1) pool_step p4"
    by (meson reach_step pool_step.intros)
  have j: "joined p4" by (simp add: joined_def defs)
  have "mset (finished p4) = mset (accepted p4)" using pool_drain [OF r _ j] by simp
  then have "finished p4 = [7]" by (simp add: defs)
  then show ?thesis using r j by blast
qed

end
