(* ===== verification/Cxx_Prelude.thy ===== *)
theory Cxx_Prelude
  imports Main "HOL-Library.Word" "HOL-Library.AList" "HOL-Library.Char_ord"
    "HOL-Library.List_Lexorder" "HOL-Library.Multiset"
begin

text \<open>
  Shared material: the parts of the C++ standard library that the components call
  (\<^verbatim>\<open>std::string\<close> searching, \<^verbatim>\<open>std::getline\<close>, stream extraction, \<^verbatim>\<open>std::to_string\<close>,
  \<^verbatim>\<open>std::stoi\<close> and its kin, \<^verbatim>\<open>std::map\<close> and \<^verbatim>\<open>std::unordered_map\<close>), and the lemmas on them
  that the component proofs share.  A \<^verbatim>\<open>std::string\<close> is a HOL \<open>string\<close> (a list of 8-bit
  characters, compared as unsigned bytes), a byte buffer is a list of \<open>8 word\<close>, a
  \<^verbatim>\<open>std::map\<close> is an association list sorted by key, which is its iteration order, and a
  \<^verbatim>\<open>std::unordered_map\<close> is an association list with distinct keys in some iteration order:
  what is proved for every such list is proved for every iteration order.
\<close>

named_theorems cxx_string \<open>evaluation and round-trip rules for the string library\<close>
named_theorems cxx_map \<open>lookup rules for the two container models\<close>

type_synonym byte = "8 word"

section \<open>Integer ranges\<close>

definition int_min :: int where "int_min = - (2 ^ 31)"
definition int_max :: int where "int_max = 2 ^ 31 - 1"
definition llong_min :: int where "llong_min = - (2 ^ 63)"
definition llong_max :: int where "llong_max = 2 ^ 63 - 1"

definition in_int :: "int \<Rightarrow> bool" where
  "in_int i \<longleftrightarrow> int_min \<le> i \<and> i \<le> int_max"

definition in_llong :: "int \<Rightarrow> bool" where
  "in_llong i \<longleftrightarrow> llong_min \<le> i \<and> i \<le> llong_max"

text \<open>Two's complement reduction to 32 bits: a narrowing \<^verbatim>\<open>static_cast<int>\<close>, or the
  arithmetic of a \<^verbatim>\<open>std::atomic<int>\<close>.\<close>

definition wrap_int :: "int \<Rightarrow> int" where
  "wrap_int i = (i + 2 ^ 31) mod 2 ^ 32 - 2 ^ 31"

lemma wrap_int_id [simp]: "in_int i \<Longrightarrow> wrap_int i = i"
  by (simp add: wrap_int_def in_int_def int_min_def int_max_def)

lemma in_int_wrap [simp]: "in_int (wrap_int i)"
proof -
  have "0 \<le> (i + 2 ^ 31) mod (2 ^ 32)" "(i + 2 ^ 31) mod (2 ^ 32) < (2 ^ 32 :: int)"
    by simp_all
  then show ?thesis
    by (simp add: wrap_int_def in_int_def int_min_def int_max_def)
qed

lemma in_int_in_llong: "in_int i \<Longrightarrow> in_llong i"
  by (simp add: in_int_def in_llong_def int_min_def int_max_def llong_min_def llong_max_def)

section \<open>Character classes and searching\<close>

definition nl :: char where "nl = CHR 0x0A"
definition cr :: char where "cr = CHR 0x0D"
definition tab :: char where "tab = CHR 0x09"
definition dquote :: char where "dquote = CHR 0x22"
definition crlf2 :: string where "crlf2 = [cr, nl, cr, nl]"

text \<open>\<^verbatim>\<open>std::isspace\<close> in the C locale.\<close>

definition is_space :: "char \<Rightarrow> bool" where
  "is_space c \<longleftrightarrow> c = CHR '' '' \<or> c = CHR 0x09 \<or> c = CHR 0x0A \<or> c = CHR 0x0B
     \<or> c = CHR 0x0C \<or> c = CHR 0x0D"

definition is_digit :: "char \<Rightarrow> bool" where
  "is_digit c \<longleftrightarrow> 48 \<le> (of_char c :: nat) \<and> (of_char c :: nat) \<le> 57"

text \<open>\<^verbatim>\<open>s.find(c)\<close> and \<^verbatim>\<open>s.find(t)\<close>: the position of the first occurrence, \<open>None\<close> for
  \<^verbatim>\<open>npos\<close>.  \<^verbatim>\<open>s.rfind(t, 0) == 0\<close> is \<open>starts_with\<close>.\<close>

fun find_char :: "char \<Rightarrow> string \<Rightarrow> nat option" where
  "find_char c [] = None"
| "find_char c (x # xs) = (if x = c then Some 0 else map_option Suc (find_char c xs))"

definition starts_with :: "string \<Rightarrow> string \<Rightarrow> bool" where
  "starts_with p s \<longleftrightarrow> take (length p) s = p"

fun find_str :: "string \<Rightarrow> string \<Rightarrow> nat option" where
  "find_str p [] = (if p = [] then Some 0 else None)"
| "find_str p (x # xs) =
     (if starts_with p (x # xs) then Some 0 else map_option Suc (find_str p xs))"

definition contains :: "string \<Rightarrow> string \<Rightarrow> bool" where
  "contains p s \<longleftrightarrow> find_str p s \<noteq> None"

text \<open>\<^verbatim>\<open>s.find(c, from)\<close> and \<^verbatim>\<open>s.find(t, from)\<close>.\<close>

definition find_char_from :: "char \<Rightarrow> nat \<Rightarrow> string \<Rightarrow> nat option" where
  "find_char_from c from s =
     (if from \<le> length s then map_option (\<lambda>i. i + from) (find_char c (drop from s)) else None)"

definition find_str_from :: "string \<Rightarrow> nat \<Rightarrow> string \<Rightarrow> nat option" where
  "find_str_from p from s =
     (if from \<le> length s then map_option (\<lambda>i. i + from) (find_str p (drop from s)) else None)"

text \<open>\<^verbatim>\<open>s.find_last_of(c)\<close>.\<close>

fun find_last_char :: "char \<Rightarrow> string \<Rightarrow> nat option" where
  "find_last_char c [] = None"
| "find_last_char c (x # xs) =
     (case find_last_char c xs of
        Some i \<Rightarrow> Some (Suc i)
      | None \<Rightarrow> (if x = c then Some 0 else None))"

lemma find_char_None [simp]: "find_char c s = None \<longleftrightarrow> c \<notin> set s"
  by (induction s) auto

lemma find_char_append [cxx_string]:
  "c \<notin> set s \<Longrightarrow> find_char c (s @ c # t) = Some (length s)"
  by (induction s) auto

lemma find_char_SomeD:
  "find_char c s = Some i \<Longrightarrow> i < length s \<and> s ! i = c \<and> c \<notin> set (take i s)"
  by (induction s arbitrary: i) (auto split: if_splits)

lemma find_last_char_None [simp]: "find_last_char c s = None \<longleftrightarrow> c \<notin> set s"
  by (induction s) (auto split: option.splits)

lemma find_last_char_absent [simp]: "c \<notin> set s \<Longrightarrow> find_last_char c s = None"
  by simp

lemma find_last_char_append [cxx_string]:
  "c \<notin> set t \<Longrightarrow> find_last_char c (s @ c # t) = Some (length s)"
  by (induction s) simp_all

lemma starts_with_append [simp]: "starts_with p (p @ s)"
  by (simp add: starts_with_def)

lemma starts_withE: "starts_with p s \<Longrightarrow> \<exists>t. s = p @ t"
  unfolding starts_with_def by (metis append_take_drop_id)

lemma find_str_skip:
  assumes "p \<noteq> []" "hd p \<notin> set a"
  shows "find_str p (a @ b) = map_option ((+) (length a)) (find_str p b)"
  using assms(2)
proof (induction a)
  case Nil
  then show ?case
    by (simp add: option.map_ident_strong)
next
  case (Cons x a)
  have "\<not> starts_with p (x # a @ b)"
    using Cons.prems assms(1) by (cases p) (auto simp: starts_with_def)
  then show ?case
    using Cons by (simp add: option.map_comp comp_def)
qed

lemma find_str_fresh:
  assumes "p \<noteq> []" "hd p \<notin> set a"
  shows "find_str p (a @ p @ b) = Some (length a)"
proof -
  have "find_str p (p @ b) = Some 0"
    using assms(1) starts_with_append [of p b] by (cases p) simp_all
  then show ?thesis
    using find_str_skip [OF assms, of "p @ b"] by simp
qed

lemma find_last_char_less: "find_last_char c s = Some i \<Longrightarrow> i < length s"
  by (induction s arbitrary: i) (auto split: option.splits if_splits)

lemma drop_middle: "n = length p \<Longrightarrow> drop (length a + n) (a @ p @ b) = b"
  by simp

lemma contains_prefix [simp]: "contains p (p @ s)"
proof (cases "p @ s")
  case (Cons a list)
  then have "starts_with p (a # list)" by (metis starts_with_append)
  then show ?thesis by (simp add: Cons contains_def)
qed (simp add: contains_def)

lemma contains_append: "contains p s \<Longrightarrow> contains p (q @ s)"
  by (induction q) (auto simp: contains_def)

lemma contains_middle: "contains p (q @ p @ s)"
  by (rule contains_append) simp

lemma contains_iff: "contains p s \<longleftrightarrow> (\<exists>q r. s = q @ p @ r)"
proof
  show "contains p s \<Longrightarrow> \<exists>q r. s = q @ p @ r"
  proof (induction s)
    case Nil
    then show ?case by (auto simp: contains_def split: if_splits)
  next
    case (Cons x xs)
    show ?case
    proof (cases "starts_with p (x # xs)")
      case True
      then obtain t where "x # xs = [] @ p @ t" using starts_withE by fastforce
      then show ?thesis by blast
    next
      case False
      with Cons.prems have "contains p xs" by (simp add: contains_def)
      then obtain q r where "xs = q @ p @ r" using Cons.IH by blast
      then have "x # xs = (x # q) @ p @ r" by simp
      then show ?thesis by blast
    qed
  qed
qed (auto simp: contains_middle)

section \<open>Lines, words and stream extraction\<close>

text \<open>The sequence of lines that repeated \<^verbatim>\<open>std::getline\<close> calls return.\<close>

fun getlines_aux :: "string \<Rightarrow> string \<Rightarrow> string list" where
  "getlines_aux acc [] = (if acc = [] then [] else [rev acc])"
| "getlines_aux acc (c # cs) =
     (if c = CHR 0x0A then rev acc # getlines_aux [] cs else getlines_aux (c # acc) cs)"

definition getlines :: "string \<Rightarrow> string list" where
  "getlines s = getlines_aux [] s"

lemma getlines_aux_line [simp]:
  "CHR 0x0A \<notin> set l \<Longrightarrow> getlines_aux acc (l @ CHR 0x0A # s) = (rev acc @ l) # getlines_aux [] s"
  by (induction l arbitrary: acc) auto

lemma getlines_Nil [simp]: "getlines [] = []"
  by (simp add: getlines_def)

lemma getlines_line [cxx_string]:
  "CHR 0x0A \<notin> set l \<Longrightarrow> getlines (l @ CHR 0x0A # s) = l # getlines s"
  by (simp add: getlines_def)

lemma getlines_unlines [cxx_string]:
  "\<forall>l \<in> set ls. CHR 0x0A \<notin> set l \<Longrightarrow> getlines (concat (map (\<lambda>l. l @ [CHR 0x0A]) ls)) = ls"
  by (induction ls) (auto simp: getlines_line)

definition skip_space :: "string \<Rightarrow> string" where
  "skip_space s = dropWhile is_space s"

text \<open>\<^verbatim>\<open>in >> word\<close>: skip white space, take the longest run of other characters; \<open>None\<close> is the
  fail state of the stream.\<close>

definition read_word :: "string \<Rightarrow> (string \<times> string) option" where
  "read_word s =
     (let t = skip_space s in
      if t = [] then None
      else Some (takeWhile (\<lambda>c. \<not> is_space c) t, dropWhile (\<lambda>c. \<not> is_space c) t))"

definition word_ok :: "string \<Rightarrow> bool" where
  "word_ok w \<longleftrightarrow> w \<noteq> [] \<and> (\<forall>c \<in> set w. \<not> is_space c)"

lemma takeWhile_break [simp]:
  "\<forall>c \<in> set w. P c \<Longrightarrow> (s = [] \<or> \<not> P (hd s)) \<Longrightarrow> takeWhile P (w @ s) = w"
  by (induction w) (cases s; auto)+

lemma dropWhile_break [simp]:
  "\<forall>c \<in> set w. P c \<Longrightarrow> (s = [] \<or> \<not> P (hd s)) \<Longrightarrow> dropWhile P (w @ s) = s"
  by (induction w) (cases s; auto)+

lemma skip_space_word [simp]: "word_ok w \<Longrightarrow> skip_space (w @ s) = w @ s"
  by (cases w) (auto simp: skip_space_def word_ok_def)

lemma read_word_word [cxx_string]:
  "word_ok w \<Longrightarrow> s = [] \<or> is_space (hd s) \<Longrightarrow> read_word (w @ s) = Some (w, s)"
proof -
  assume w: "word_ok w" and s: "s = [] \<or> is_space (hd s)"
  from w have n: "w \<noteq> []" and a: "\<forall>c \<in> set w. \<not> is_space c" by (auto simp: word_ok_def)
  from s have s': "s = [] \<or> \<not> \<not> is_space (hd s)" by simp
  show ?thesis
    using n skip_space_word [OF w, of s] takeWhile_break [OF a s'] dropWhile_break [OF a s']
    by (simp add: read_word_def Let_def del: takeWhile_append dropWhile_append)
qed

lemma skip_space_blank [simp]: "skip_space (CHR '' '' # s) = skip_space s"
  by (simp add: skip_space_def is_space_def)

lemma read_word_blank [cxx_string]: "read_word (CHR '' '' # s) = read_word s"
  by (simp add: read_word_def)

lemma read_word_Nil [cxx_string]: "read_word [] = None"
  by (simp add: read_word_def skip_space_def)

text \<open>\<^verbatim>\<open>while (in >> t) tokens.push_back(t);\<close>\<close>

function words_of :: "string \<Rightarrow> string list" where
  "words_of s = (case read_word s of None \<Rightarrow> [] | Some (w, r) \<Rightarrow> w # words_of r)"
  by pat_completeness auto
termination
proof (relation "measure length")
  fix s p w r
  assume a: "read_word s = Some p" "(w, r) = p"
  then have t: "skip_space s \<noteq> []" and r: "r = dropWhile (\<lambda>c. \<not> is_space c) (skip_space s)"
    by (auto simp: read_word_def Let_def split: if_splits)
  have h: "\<not> is_space (hd (skip_space s))"
    using t unfolding skip_space_def by (rule hd_dropWhile)
  have "length r < length (skip_space s)"
    using t h r by (cases "skip_space s") (auto intro: le_imp_less_Suc length_dropWhile_le)
  also have "\<dots> \<le> length s" by (simp add: skip_space_def length_dropWhile_le)
  finally show "(r, s) \<in> measure length" by simp
qed simp

declare words_of.simps [simp del]

lemma words_of_Nil [simp]: "words_of [] = []"
  by (subst words_of.simps) (simp add: read_word_Nil)

lemma words_of_last [cxx_string]: "word_ok w \<Longrightarrow> words_of w = [w]"
  using read_word_word [of w "[]"] by (subst words_of.simps) simp

lemma words_of_word [cxx_string]:
  "word_ok w \<Longrightarrow> words_of (w @ CHR '' '' # s) = w # words_of s"
proof -
  assume w: "word_ok w"
  have "read_word (w @ CHR '' '' # s) = Some (w, CHR '' '' # s)"
    using w by (intro read_word_word) (simp_all add: is_space_def)
  then have "words_of (w @ CHR '' '' # s) = w # words_of (CHR '' '' # s)"
    by (subst words_of.simps) simp
  also have "words_of (CHR '' '' # s) = words_of s"
    by (subst (1 2) words_of.simps) (simp add: read_word_blank)
  finally show ?thesis .
qed

section \<open>Numbers in text\<close>

definition digit_char :: "nat \<Rightarrow> char" where
  "digit_char d = char_of (48 + d)"

definition digit_val :: "char \<Rightarrow> int" where
  "digit_val c = int (of_char c) - 48"

text \<open>\<^verbatim>\<open>std::to_string\<close>.\<close>

fun show_nat :: "nat \<Rightarrow> string" where
  "show_nat n = (if n < 10 then [digit_char n] else show_nat (n div 10) @ [digit_char (n mod 10)])"

declare show_nat.simps [simp del]

definition show_int :: "int \<Rightarrow> string" where
  "show_int i = (if i < 0 then CHR ''-'' # show_nat (nat (- i)) else show_nat (nat i))"

definition digits_val :: "string \<Rightarrow> int" where
  "digits_val ds = foldl (\<lambda>a c. 10 * a + digit_val c) 0 ds"

text \<open>The conversion \<^verbatim>\<open>strtoll\<close> and the stream extractors share: leading white space, an optional
  sign, decimal digits; the mathematical value and the unread rest, \<open>None\<close> without a digit.\<close>

definition parse_digits :: "string \<Rightarrow> (int \<times> string) option" where
  "parse_digits s =
     (let ds = takeWhile is_digit s in
      if ds = [] then None else Some (digits_val ds, dropWhile is_digit s))"

definition parse_number :: "string \<Rightarrow> (int \<times> string) option" where
  "parse_number s =
     (case skip_space s of
        [] \<Rightarrow> None
      | c # cs \<Rightarrow>
          (if c = CHR ''-'' then map_option (\<lambda>(v, r). (- v, r)) (parse_digits cs)
           else if c = CHR ''+'' then parse_digits cs
           else parse_digits (c # cs)))"

text \<open>\<open>Sigfpe\<close> is the signal of an integer division by zero, which ends the process like an exception nobody handles.\<close>

datatype cxx_exn = Invalid_argument | Out_of_range | Length_error | Sigfpe

text \<open>\<^verbatim>\<open>std::stoi\<close>, \<^verbatim>\<open>std::stoll\<close> and \<^verbatim>\<open>std::stoull\<close>: trailing text is ignored, a value outside the
  target type throws.  \<^verbatim>\<open>stoull\<close> negates modulo \<open>2 ^ 64\<close> after a minus sign.\<close>

definition stoi :: "string \<Rightarrow> cxx_exn + int" where
  "stoi s = (case parse_number s of
       None \<Rightarrow> Inl Invalid_argument
     | Some (v, _) \<Rightarrow> (if in_int v then Inr v else Inl Out_of_range))"

definition stoll :: "string \<Rightarrow> cxx_exn + int" where
  "stoll s = (case parse_number s of
       None \<Rightarrow> Inl Invalid_argument
     | Some (v, _) \<Rightarrow> (if in_llong v then Inr v else Inl Out_of_range))"

definition stoull :: "string \<Rightarrow> cxx_exn + nat" where
  "stoull s = (case parse_number s of
       None \<Rightarrow> Inl Invalid_argument
     | Some (v, _) \<Rightarrow> (if \<bar>v\<bar> < 2 ^ 64 then Inr (nat (v mod 2 ^ 64)) else Inl Out_of_range))"

text \<open>\<^verbatim>\<open>in >> n\<close> for an \<^verbatim>\<open>int\<close>, a \<^verbatim>\<open>long long\<close> and a \<^verbatim>\<open>size_t\<close>; \<open>None\<close> is the fail state.\<close>

definition read_int :: "string \<Rightarrow> (int \<times> string) option" where
  "read_int s = (case parse_number s of
       None \<Rightarrow> None
     | Some (v, r) \<Rightarrow> (if in_int v then Some (v, r) else None))"

definition read_llong :: "string \<Rightarrow> (int \<times> string) option" where
  "read_llong s = (case parse_number s of
       None \<Rightarrow> None
     | Some (v, r) \<Rightarrow> (if in_llong v then Some (v, r) else None))"

definition read_size :: "string \<Rightarrow> (nat \<times> string) option" where
  "read_size s = (case parse_number s of
       None \<Rightarrow> None
     | Some (v, r) \<Rightarrow> (if \<bar>v\<bar> < 2 ^ 64 then Some (nat (v mod 2 ^ 64), r) else None))"

lemma digit_val_char [simp]: "d < 10 \<Longrightarrow> digit_val (digit_char d) = int d"
  by (simp add: digit_val_def digit_char_def)

lemma is_digit_char [simp]: "d < 10 \<Longrightarrow> is_digit (digit_char d)"
  by (simp add: is_digit_def digit_char_def)

lemma show_nat_digits: "\<forall>c \<in> set (show_nat n). is_digit c"
proof (induction n rule: show_nat.induct)
  case (1 n)
  then show ?case by (subst show_nat.simps) auto
qed

lemma show_nat_nonempty [simp]: "show_nat n \<noteq> []"
  by (subst show_nat.simps) simp

lemma digits_val_snoc [simp]: "digits_val (ds @ [c]) = 10 * digits_val ds + digit_val c"
  by (simp add: digits_val_def)

lemma digits_val_show_nat [cxx_string]: "digits_val (show_nat n) = int n"
proof (induction n rule: show_nat.induct)
  case (1 n)
  show ?case
  proof (cases "n < 10")
    case True
    then show ?thesis by (subst show_nat.simps) (simp add: digits_val_def)
  next
    case False
    with "1" have "digits_val (show_nat (n div 10)) = int (n div 10)" by simp
    moreover have "10 * int (n div 10) + int (n mod 10) = int n" by presburger
    ultimately show ?thesis using False by (subst show_nat.simps) simp
  qed
qed

lemma is_digit_not_space: "is_digit c \<Longrightarrow> \<not> is_space c"
  by (auto simp: is_digit_def is_space_def)

lemma is_digit_not_sign: "is_digit c \<Longrightarrow> c \<noteq> CHR ''-'' \<and> c \<noteq> CHR ''+''"
  by (auto simp: is_digit_def)

lemma word_ok_show_nat [simp]: "word_ok (show_nat n)"
  using show_nat_digits [of n] by (auto simp: word_ok_def is_digit_not_space)

lemma word_ok_show_int [simp]: "word_ok (show_int i)"
  using word_ok_show_nat by (auto simp: show_int_def word_ok_def is_space_def)

lemma show_int_nonempty [simp]: "show_int i \<noteq> []"
  using word_ok_show_int [of i] by (simp add: word_ok_def)

lemma show_int_chars: "c \<in> set (show_int i) \<Longrightarrow> is_digit c \<or> c = CHR ''-''"
  using show_nat_digits by (auto simp: show_int_def split: if_splits)

lemma parse_digits_show_nat:
  "r = [] \<or> \<not> is_digit (hd r) \<Longrightarrow> parse_digits (show_nat n @ r) = Some (int n, r)"
  using takeWhile_break [OF show_nat_digits, of r n] dropWhile_break [OF show_nat_digits, of r n]
  by (simp add: parse_digits_def Let_def digits_val_show_nat del: takeWhile_append dropWhile_append)

lemma parse_number_show_int [cxx_string]:
  assumes r: "r = [] \<or> \<not> is_digit (hd r)"
  shows "parse_number (show_int i @ r) = Some (i, r)"
proof (cases "i < 0")
  case True
  then have "show_int i = CHR ''-'' # show_nat (nat (- i))" by (simp add: show_int_def)
  then show ?thesis
    using parse_digits_show_nat [OF r, of "nat (- i)"] True
    by (simp add: parse_number_def skip_space_def is_space_def)
next
  case False
  then have s: "show_int i = show_nat (nat i)" by (simp add: show_int_def)
  obtain c cs where c: "show_nat (nat i) = c # cs" by (cases "show_nat (nat i)") auto
  then have d: "is_digit c" using show_nat_digits [of "nat i"] by simp
  have k: "skip_space (c # cs @ r) = c # cs @ r"
    by (simp add: skip_space_def is_digit_not_space [OF d])
  show ?thesis
    using parse_digits_show_nat [OF r, of "nat i"] False is_digit_not_sign [OF d]
    by (simp add: parse_number_def s c k)
qed

lemma parse_number_show_int_end [cxx_string]: "parse_number (show_int i) = Some (i, [])"
  using parse_number_show_int [of "[]"] by simp

lemma parse_number_blank [cxx_string]: "parse_number (CHR '' '' # s) = parse_number s"
  by (simp add: parse_number_def)

lemma stoi_show_int [cxx_string]: "in_int i \<Longrightarrow> stoi (show_int i) = Inr i"
  by (simp add: stoi_def parse_number_show_int_end)

lemma stoll_show_int [cxx_string]: "in_llong i \<Longrightarrow> stoll (show_int i) = Inr i"
  by (simp add: stoll_def parse_number_show_int_end)

lemma read_int_show_int [cxx_string]:
  "in_int i \<Longrightarrow> r = [] \<or> \<not> is_digit (hd r) \<Longrightarrow> read_int (show_int i @ r) = Some (i, r)"
  by (simp add: read_int_def parse_number_show_int)

lemma read_llong_show_int [cxx_string]:
  "in_llong i \<Longrightarrow> r = [] \<or> \<not> is_digit (hd r) \<Longrightarrow> read_llong (show_int i @ r) = Some (i, r)"
  by (simp add: read_llong_def parse_number_show_int)

lemma parse_number_nondigit [cxx_string]:
  "\<not> is_space c \<Longrightarrow> \<not> is_digit c \<Longrightarrow> c \<noteq> CHR ''-'' \<Longrightarrow> c \<noteq> CHR ''+'' \<Longrightarrow> parse_number (c # s) = None"
  by (simp add: parse_number_def skip_space_def parse_digits_def)

lemma show_int_inj [simp]: "show_int i = show_int j \<longleftrightarrow> i = j"
  by (metis Pair_inject option.inject parse_number_show_int_end)

section \<open>Linear search\<close>

lemma find_SomeD: "find P xs = Some x \<Longrightarrow> x \<in> set xs \<and> P x"
  by (auto simp: find_Some_iff)

lemma find_hit: "x \<in> set xs \<Longrightarrow> P x \<Longrightarrow> \<exists>y. find P xs = Some y"
  by (cases "find P xs") (auto simp: find_None_iff)

section \<open>Associative containers\<close>

text \<open>\<^verbatim>\<open>std::map\<close>: \<^verbatim>\<open>m[k] = v\<close> and \<^verbatim>\<open>m.erase(k)\<close> on an association list sorted by key;
  lookup is \<open>map_of\<close>.\<close>

fun omap_upd :: "'k::linorder \<Rightarrow> 'v \<Rightarrow> ('k \<times> 'v) list \<Rightarrow> ('k \<times> 'v) list" where
  "omap_upd k v [] = [(k, v)]"
| "omap_upd k v ((a, b) # m) =
     (if k < a then (k, v) # (a, b) # m
      else if k = a then (k, v) # m
      else (a, b) # omap_upd k v m)"

definition omap_del :: "'k \<Rightarrow> ('k \<times> 'v) list \<Rightarrow> ('k \<times> 'v) list" where
  "omap_del k m = filter (\<lambda>p. fst p \<noteq> k) m"

definition omap_wf :: "('k::linorder \<times> 'v) list \<Rightarrow> bool" where
  "omap_wf m \<longleftrightarrow> sorted_wrt (<) (map fst m)"

text \<open>The two idioms \<^verbatim>\<open>m[k]++\<close> and \<^verbatim>\<open>m[k].push_back(v)\<close>: \<^verbatim>\<open>operator[]\<close> value-initialises a
  missing entry.\<close>

definition omap_incr :: "'k::linorder \<Rightarrow> ('k \<times> int) list \<Rightarrow> ('k \<times> int) list" where
  "omap_incr k m = omap_upd k ((case map_of m k of None \<Rightarrow> 0 | Some c \<Rightarrow> c) + 1) m"

definition omap_push :: "'k::linorder \<Rightarrow> 'v \<Rightarrow> ('k \<times> 'v list) list \<Rightarrow> ('k \<times> 'v list) list" where
  "omap_push k v m = omap_upd k ((case map_of m k of None \<Rightarrow> [] | Some vs \<Rightarrow> vs) @ [v]) m"

lemma set_omap_upd [simp]: "fst ` set (omap_upd k v m) = insert k (fst ` set m)"
  by (induction k v m rule: omap_upd.induct) auto

lemma omap_wf_Nil [simp]: "omap_wf []"
  by (simp add: omap_wf_def)

lemma omap_wf_Cons: "omap_wf ((a, b) # m) \<longleftrightarrow> (\<forall>x \<in> fst ` set m. a < x) \<and> omap_wf m"
  by (auto simp: omap_wf_def)

lemma omap_wf_upd [simp, intro]: "omap_wf m \<Longrightarrow> omap_wf (omap_upd k v m)"
proof (induction k v m rule: omap_upd.induct)
  case (2 k v a b m)
  then show ?case by (fastforce simp: omap_wf_Cons)
qed (simp add: omap_wf_def)

lemma omap_wf_del [simp, intro]: "omap_wf m \<Longrightarrow> omap_wf (omap_del k m)"
  by (induction m) (auto simp: omap_wf_def omap_del_def)

lemma map_of_omap_upd [simp]: "map_of (omap_upd k v m) = (map_of m)(k \<mapsto> v)"
  by (induction k v m rule: omap_upd.induct) auto

lemma map_of_omap_del [simp]: "map_of (omap_del k m) = (map_of m)(k := None)"
  by (induction m) (auto simp: omap_del_def)

lemma omap_wf_distinct: "omap_wf m \<Longrightarrow> distinct (map fst m)"
  by (auto simp: omap_wf_def strict_sorted_iff)

lemma omap_wf_map_of: "omap_wf m \<Longrightarrow> (k, v) \<in> set m \<longleftrightarrow> map_of m k = Some v"
  by (simp add: omap_wf_distinct)

subsection \<open>The container interface\<close>

text \<open>
  What the components rely on in either container: a lookup after an update or an erase, and
  the invariant the operations keep.  The two counting and grouping loops that occur all over
  the sources (\<^verbatim>\<open>for (x : xs) m[key(x)]++\<close> and \<^verbatim>\<open>for (x : xs) m[key(x)].push_back(x)\<close>) are
  characterised once, for any container.
\<close>

locale assoc_container =
  fixes lookup :: "'m \<Rightarrow> 'k \<Rightarrow> 'v option"
    and upd :: "'k \<Rightarrow> 'v \<Rightarrow> 'm \<Rightarrow> 'm"
    and del :: "'k \<Rightarrow> 'm \<Rightarrow> 'm"
    and empty :: 'm
    and wf :: "'m \<Rightarrow> bool"
  assumes lookup_empty: "lookup empty k = None"
    and lookup_upd: "lookup (upd k v m) k' = (if k' = k then Some v else lookup m k')"
    and lookup_del: "wf m \<Longrightarrow> lookup (del k m) k' = (if k' = k then None else lookup m k')"
    and wf_empty: "wf empty"
    and wf_upd: "wf m \<Longrightarrow> wf (upd k v m)"
    and wf_del: "wf m \<Longrightarrow> wf (del k m)"
begin

lemma wf_fold_upd: "wf m \<Longrightarrow> wf (fold (\<lambda>x m. upd (key x) (val x m) m) xs m)"
  by (induction xs arbitrary: m) (auto simp: wf_upd)

lemma lookup_fold_other:
  "k \<notin> key ` set xs \<Longrightarrow> lookup (fold (\<lambda>x m. upd (key x) (val x m) m) xs m) k = lookup m k"
  by (induction xs arbitrary: m) (auto simp: lookup_upd)

lemma lookup_fold_accumulate:
  assumes "\<And>x m. val x m = f x (lookup m (key x))"
  shows "lookup (fold (\<lambda>x m. upd (key x) (val x m) m) xs m) k =
    fold (\<lambda>x acc. Some (f x acc)) (filter (\<lambda>x. key x = k) xs) (lookup m k)"
  by (induction xs arbitrary: m) (auto simp: lookup_upd assms)

end

interpretation omap: assoc_container map_of omap_upd omap_del "[]" omap_wf
  by unfold_locales auto

definition umap_wf :: "('k \<times> 'v) list \<Rightarrow> bool" where
  "umap_wf m \<longleftrightarrow> distinct (map fst m)"

interpretation umap: assoc_container map_of AList.update AList.delete "[]" umap_wf
  by unfold_locales
    (auto simp: umap_wf_def update_conv' delete_conv' distinct_update distinct_delete)

lemma fold_count:
  "fold (\<lambda>x acc. Some ((case acc of None \<Rightarrow> 0 | Some c \<Rightarrow> c) + 1)) ys (Some c) =
     Some (c + int (length ys))"
  by (induction ys arbitrary: c) auto

lemma fold_collect:
  "fold (\<lambda>x acc. Some ((case acc of None \<Rightarrow> [] | Some vs \<Rightarrow> vs) @ [x])) ys (Some vs) =
     Some (vs @ ys)"
  by (induction ys arbitrary: vs) auto

text \<open>\<^verbatim>\<open>for (x : xs) m[key(x)]++\<close> on an empty \<^verbatim>\<open>std::map\<close> counts the elements of each key.\<close>

definition count_keys :: "('a \<Rightarrow> 'k::linorder) \<Rightarrow> 'a list \<Rightarrow> ('k \<times> int) list" where
  "count_keys key xs = fold (\<lambda>x m. omap_incr (key x) m) xs []"

definition group_keys :: "('a \<Rightarrow> 'k::linorder) \<Rightarrow> 'a list \<Rightarrow> ('k \<times> 'a list) list" where
  "group_keys key xs = fold (\<lambda>x m. omap_push (key x) x m) xs []"

lemma omap_wf_count_keys [simp]: "omap_wf (count_keys key xs)"
  unfolding count_keys_def omap_incr_def
  by (rule omap.wf_fold_upd) simp

lemma omap_wf_group_keys [simp]: "omap_wf (group_keys key xs)"
  unfolding group_keys_def omap_push_def
  by (rule omap.wf_fold_upd) simp

lemma map_of_count_keys [cxx_map]:
  "map_of (count_keys key xs) k =
     (let ys = filter (\<lambda>x. key x = k) xs in if ys = [] then None else Some (int (length ys)))"
proof -
  have "map_of (count_keys key xs) k =
    fold (\<lambda>x acc. Some ((case acc of None \<Rightarrow> 0 | Some c \<Rightarrow> c) + 1)) (filter (\<lambda>x. key x = k) xs) None"
    unfolding count_keys_def omap_incr_def
    by (subst omap.lookup_fold_accumulate
        [where f = "\<lambda>x acc. (case acc of None \<Rightarrow> 0 | Some c \<Rightarrow> c) + 1"]) simp_all
  then show ?thesis
    by (cases "filter (\<lambda>x. key x = k) xs") (simp_all add: fold_count [of _ 1, simplified])
qed

lemma map_of_group_keys [cxx_map]:
  "map_of (group_keys key xs) k =
     (let ys = filter (\<lambda>x. key x = k) xs in if ys = [] then None else Some ys)"
proof -
  have "map_of (group_keys key xs) k =
    fold (\<lambda>x acc. Some ((case acc of None \<Rightarrow> [] | Some c \<Rightarrow> c) @ [x])) (filter (\<lambda>x. key x = k) xs) None"
    unfolding group_keys_def omap_push_def
    by (subst omap.lookup_fold_accumulate
        [where f = "\<lambda>x acc. (case acc of None \<Rightarrow> [] | Some c \<Rightarrow> c) @ [x]"]) simp_all
  then show ?thesis
    by (cases "filter (\<lambda>x. key x = k) xs") (simp_all add: fold_collect)
qed

lemma dom_count_keys: "fst ` set (count_keys key xs) = key ` set xs"
proof -
  have "dom (map_of (count_keys key xs)) = key ` set xs"
    by (auto simp: dom_def map_of_count_keys Let_def filter_empty_conv split: if_splits)
  then show ?thesis by (simp add: dom_map_of_conv_image_fst)
qed

lemma dom_group_keys: "fst ` set (group_keys key xs) = key ` set xs"
proof -
  have "dom (map_of (group_keys key xs)) = key ` set xs"
    by (auto simp: dom_def map_of_group_keys Let_def filter_empty_conv split: if_splits)
  then show ?thesis by (simp add: dom_map_of_conv_image_fst)
qed

lemma count_keys_empty [simp]: "count_keys key xs = [] \<longleftrightarrow> xs = []"
  using dom_count_keys [of key xs] by auto

lemma group_keys_mem:
  "(k, ys) \<in> set (group_keys key xs) \<longleftrightarrow> ys = filter (\<lambda>x. key x = k) xs \<and> ys \<noteq> []"
  by (auto simp: omap_wf_map_of map_of_group_keys Let_def split: if_splits)

lemma count_keys_mem:
  "(k, n) \<in> set (count_keys key xs) \<longleftrightarrow>
     n = int (length (filter (\<lambda>x. key x = k) xs)) \<and> k \<in> key ` set xs"
  by (auto simp: omap_wf_map_of map_of_count_keys Let_def filter_empty_conv split: if_splits)

lemma omap_keys_unique:
  "omap_wf m \<Longrightarrow> omap_wf n \<Longrightarrow> fst ` set m = fst ` set n \<Longrightarrow> map fst m = map fst n"
  unfolding omap_wf_def
  by (rule sorted_distinct_set_unique) (auto simp: strict_sorted_iff)

lemma set_group_keys: "\<Union> (set ` snd ` set (group_keys key xs)) = set xs"
proof (intro equalityI subsetI)
  fix x assume "x \<in> set xs"
  then have "(key x, filter (\<lambda>y. key y = key x) xs) \<in> set (group_keys key xs)"
    by (auto simp: group_keys_mem filter_empty_conv)
  moreover have "x \<in> set (filter (\<lambda>y. key y = key x) xs)" using \<open>x \<in> set xs\<close> by simp
  ultimately show "x \<in> \<Union> (set ` snd ` set (group_keys key xs))" by force
qed (auto simp: group_keys_mem)

text \<open>The components of a result, for use with a computed call.\<close>

lemma triple_parts: "x = (fst x, fst (snd x), snd (snd x))"
  by simp

lemma triple_True: "fst x \<Longrightarrow> x = (True, fst (snd x), snd (snd x))"
  by (cases x) simp

section \<open>Sorting\<close>

text \<open>\<^verbatim>\<open>std::sort\<close> returns a permutation in which no element is less than an earlier one; the order of
  equivalent elements is unspecified, so a call is a parameter with this property.\<close>

definition std_sort_ok :: "('a \<Rightarrow> 'a \<Rightarrow> bool) \<Rightarrow> ('a list \<Rightarrow> 'a list) \<Rightarrow> bool" where
  "std_sort_ok lt srt \<longleftrightarrow> (\<forall>xs. mset (srt xs) = mset xs \<and> sorted_wrt (\<lambda>a b. \<not> lt b a) (srt xs))"

lemma std_sort_set: "std_sort_ok lt srt \<Longrightarrow> set (srt xs) = set xs"
  unfolding std_sort_ok_def by (metis mset_eq_setD)

lemma std_sort_length: "std_sort_ok lt srt \<Longrightarrow> length (srt xs) = length xs"
  unfolding std_sort_ok_def by (metis mset_eq_length)

lemma std_sort_distinct: "std_sort_ok lt srt \<Longrightarrow> distinct (srt xs) = distinct xs"
  unfolding std_sort_ok_def by (metis mset_eq_imp_distinct_iff)

lemma std_sort_hd:
  assumes "std_sort_ok lt srt" "xs \<noteq> []" "irreflp lt"
  shows "hd (srt xs) \<in> set xs \<and> (\<forall>x \<in> set xs. \<not> lt x (hd (srt xs)))"
proof -
  have ne: "srt xs \<noteq> []" using std_sort_length [OF assms(1), of xs] assms(2) by auto
  have "sorted_wrt (\<lambda>a b. \<not> lt b a) (srt xs)" using assms(1) by (simp add: std_sort_ok_def)
  then have "\<forall>x \<in> set (srt xs). \<not> lt x (hd (srt xs))"
    using ne assms(3) by (cases "srt xs") (auto simp: irreflp_def)
  then show ?thesis using ne std_sort_set [OF assms(1), of xs] by (metis hd_in_set)
qed

lemma std_sort_ok_sort_key: "std_sort_ok (\<lambda>a b. key a < key b) (sort_key key)"
proof -
  have "sorted_wrt (\<lambda>a b. \<not> key b < key a) (sort_key key xs)" for xs
    using sorted_sort_key [of key xs] by (simp add: sorted_wrt_map not_less)
  then show ?thesis by (simp add: std_sort_ok_def)
qed

end
