(* ===== verification/Config_Loader.thy ===== *)
theory Config_Loader
  imports Cxx_Prelude "HOL-Library.Monad_Syntax" "HOL-Library.Sublist"
begin

text \<open>
  The configuration loader, class \<^verbatim>\<open>ConfigLoader\<close> and the per-service singletons of
  \<^verbatim>\<open>src/common/include/dfg/config_loader.hpp\<close>.  The parser walks over the text with a position that only grows,
  so the model passes the unread rest of the text.  Its two mutually recursive procedures may run forever, so
  their loops are one \<open>partial_function\<close>: \<open>None\<close> is a parse that never returns.  The environment is the function
  \<open>getenv\<close>, the file system the function from paths to contents.
\<close>

section \<open>Tokens\<close>

definition json_ws :: "char \<Rightarrow> bool" where
  "json_ws c \<longleftrightarrow> c = CHR '' '' \<or> c = tab \<or> c = cr \<or> c = nl"

definition skip_ws :: "string \<Rightarrow> string" where
  "skip_ws s = dropWhile json_ws s"

definition trim :: "string \<Rightarrow> string" where
  "trim s = rev (dropWhile json_ws (rev (dropWhile json_ws s)))"

definition unquote :: "string \<Rightarrow> string" where
  "unquote s = (if 2 \<le> length s \<and> hd s = dquote \<and> List.last s = dquote then butlast (tl s) else s)"

definition backslash :: char where "backslash = CHR 0x5C"

text \<open>The loop of \<^verbatim>\<open>parse_string_token\<close>: a backslash that is not the last character takes the next one as it is.\<close>

fun string_body :: "string \<Rightarrow> string \<times> string" where
  "string_body [] = ([], [])"
| "string_body (c # s) =
     (if c = dquote then ([], s)
      else if c = backslash \<and> s \<noteq> [] then (let (v, r) = string_body (tl s) in (hd s # v, r))
      else (let (v, r) = string_body s in (c # v, r)))"

definition parse_string_token :: "string \<Rightarrow> string \<times> string" where
  "parse_string_token s = (if s = [] \<or> hd s \<noteq> dquote then ([], s) else string_body (tl s))"

definition value_end :: "char \<Rightarrow> bool" where
  "value_end c \<longleftrightarrow> c = CHR '','' \<or> c = CHR ''}'' \<or> c = CHR '']'' \<or> c = nl \<or> c = cr"

definition parse_value_token :: "string \<Rightarrow> string \<times> string" where
  "parse_value_token s = (trim (takeWhile (\<lambda>c. \<not> value_end c) s), dropWhile (\<lambda>c. \<not> value_end c) s)"

definition strip_comment :: "string \<Rightarrow> string" where
  "strip_comment v = (case find_str ''//'' v of None \<Rightarrow> v | Some i \<Rightarrow> trim (take i v))"

section \<open>Objects and arrays\<close>

type_synonym settings = "(string \<times> string) list"

text \<open>The loop that runs: that of \<^verbatim>\<open>parse_object\<close>, or that of \<^verbatim>\<open>parse_array\<close> with its \<^verbatim>\<open>index\<close>.\<close>

datatype frame = Obj | Arr nat

fun closing :: "frame \<Rightarrow> char" where
  "closing Obj = CHR ''}''"
| "closing (Arr i) = CHR '']''"

fun next_frame :: "frame \<Rightarrow> frame" where
  "next_frame Obj = Obj"
| "next_frame (Arr i) = Arr (Suc i)"

text \<open>How an item starts.  In an object: a key, an optional colon; without a key one character is dropped and the
  loop goes on (\<open>Retry\<close>).  In an array the key is the index.  \<open>Item k r\<close>: the value of key \<open>k\<close> is at the
  start of \<open>r\<close>.\<close>

datatype item = Retry string | Item string string

fun item_start :: "frame \<Rightarrow> string \<Rightarrow> string \<Rightarrow> item" where
  "item_start Obj pre s =
     (let (key, r) = parse_string_token s in
      if key = [] then Retry (drop 1 r)
      else
        (let r1 = skip_ws r;
             r2 = (if r1 \<noteq> [] \<and> hd r1 = CHR '':'' then tl r1 else r1)
         in Item (if pre = [] then key else pre @ ''.'' @ key) (skip_ws r2)))"
| "item_start (Arr i) pre s = Item (pre @ ''.'' @ show_nat i) s"

fun scalar :: "frame \<Rightarrow> string \<Rightarrow> string" where
  "scalar Obj v = strip_comment v"
| "scalar (Arr i) v = v"

partial_function (option) parse_loop :: "frame \<Rightarrow> string \<Rightarrow> string \<Rightarrow> settings \<Rightarrow> (string \<times> settings) option" where
  "parse_loop fr pre s vs =
     (case skip_ws s of
        [] \<Rightarrow> Some ([], vs)
      | c # r \<Rightarrow>
          if c = closing fr then Some (r, vs)
          else if c = CHR '','' then parse_loop fr pre r vs
          else
            (case item_start fr pre (c # r) of
               Retry r1 \<Rightarrow> parse_loop fr pre r1 vs
             | Item key r1 \<Rightarrow>
                 (case r1 of
                    [] \<Rightarrow> Some ([], vs)
                  | d # r2 \<Rightarrow>
                      if d = CHR ''{'' then
                        parse_loop Obj key r2 vs \<bind> (\<lambda>(r3, vs'). parse_loop (next_frame fr) pre r3 vs')
                      else if d = CHR ''['' then
                        parse_loop (Arr 0) key r2 vs \<bind> (\<lambda>(r3, vs'). parse_loop (next_frame fr) pre r3 vs')
                      else if d = dquote then
                        parse_loop (next_frame fr) pre (snd (parse_string_token r1))
                          (omap_upd key (fst (parse_string_token r1)) vs)
                      else
                        parse_loop (next_frame fr) pre (snd (parse_value_token r1))
                          (omap_upd key (scalar fr (fst (parse_value_token r1))) vs))))"

definition parse_object :: "string \<Rightarrow> string \<Rightarrow> settings \<Rightarrow> (string \<times> settings) option" where
  "parse_object s pre vs = (if s = [] \<or> hd s \<noteq> CHR ''{'' then Some (s, vs) else parse_loop Obj pre (tl s) vs)"

definition parse_array :: "string \<Rightarrow> string \<Rightarrow> settings \<Rightarrow> (string \<times> settings) option" where
  "parse_array s pre vs = (if s = [] \<or> hd s \<noteq> CHR ''['' then Some (s, vs) else parse_loop (Arr 0) pre (tl s) vs)"

definition parse_json :: "string \<Rightarrow> string \<Rightarrow> settings \<Rightarrow> settings option" where
  "parse_json json pre vs =
     (let s = skip_ws json in
      if s = [] then Some vs
      else if hd s = CHR ''{'' then map_option snd (parse_object s pre vs)
      else if hd s = CHR ''['' then map_option snd (parse_array s pre vs)
      else Some vs)"

section \<open>Loading and reloading\<close>

record config =
  cfg_values :: settings
  cfg_filepath :: string
  cfg_loaded :: bool

definition new_config :: config where
  "new_config = \<lparr>cfg_values = [], cfg_filepath = [], cfg_loaded = False\<rparr>"

type_synonym files = "string \<Rightarrow> string option"

definition load_impl :: "files \<Rightarrow> string \<Rightarrow> config \<Rightarrow> (bool \<times> config) option" where
  "load_impl fs path cfg =
     (case fs path of
        None \<Rightarrow> Some (False, cfg)
      | Some content \<Rightarrow>
          (let trimmed = trim content in
           if trimmed = [] \<or> hd trimmed \<noteq> CHR ''{'' then Some (False, cfg)
           else
             parse_json content [] [] \<bind> (\<lambda>vs.
               if vs = [] then Some (False, cfg\<lparr>cfg_values := []\<rparr>)
               else Some (True, cfg\<lparr>cfg_values := vs, cfg_filepath := path, cfg_loaded := True\<rparr>))))"

definition load :: "files \<Rightarrow> string \<Rightarrow> config \<Rightarrow> (bool \<times> config) option" where
  "load fs path cfg = load_impl fs path cfg"

definition reload :: "files \<Rightarrow> config \<Rightarrow> (bool \<times> config) option" where
  "reload fs cfg =
     (if cfg_filepath cfg = [] then Some (False, cfg)
      else load_impl fs (cfg_filepath cfg) (cfg\<lparr>cfg_values := [], cfg_loaded := False, cfg_filepath := []\<rparr>))"

section \<open>Lookup\<close>

text \<open>\<^verbatim>\<open>toupper\<close> in the C locale.\<close>

definition to_upper :: "char \<Rightarrow> char" where
  "to_upper c = (if 97 \<le> (of_char c :: nat) \<and> of_char c \<le> (122 :: nat) then char_of (of_char c - (32 :: nat)) else c)"

definition to_env_name :: "string \<Rightarrow> string" where
  "to_env_name key = map (\<lambda>c. if c = CHR ''.'' then CHR 0x5F else to_upper c) key"

type_synonym getenv = "string \<Rightarrow> string option"

definition env_set :: "getenv \<Rightarrow> string \<Rightarrow> string option" where
  "env_set getenv k = (case getenv k of Some v \<Rightarrow> if v = [] then None else Some v | None \<Rightarrow> None)"

definition env_alias :: "string \<Rightarrow> string option" where
  "env_alias key =
     (if key = ''zookeeper.hosts'' then Some ''ZK_HOSTS''
      else if key = ''head_server.control_port'' then Some ''CONTROL_PORT''
      else if key = ''heartbeat.target_host'' then Some ''HEALTH_CHECKER_HOST''
      else if key = ''heartbeat.target_port'' then Some ''HEALTH_CHECKER_PORT''
      else None)"

definition get_string :: "getenv \<Rightarrow> config \<Rightarrow> string \<Rightarrow> string \<Rightarrow> string" where
  "get_string getenv cfg key dflt =
     (case env_set getenv (''DFG_'' @ to_env_name key) of
        Some v \<Rightarrow> v
      | None \<Rightarrow>
          (case env_set getenv (to_env_name key) of
             Some v \<Rightarrow> v
           | None \<Rightarrow>
               (case Option.bind (env_alias key) (env_set getenv) of
                  Some v \<Rightarrow> v
                | None \<Rightarrow> (case map_of (cfg_values cfg) key of Some v \<Rightarrow> v | None \<Rightarrow> dflt))))"

definition get_int :: "getenv \<Rightarrow> config \<Rightarrow> string \<Rightarrow> int \<Rightarrow> int" where
  "get_int getenv cfg key dflt =
     (let v = get_string getenv cfg key [] in
      if v = [] then dflt else (case stoi v of Inr n \<Rightarrow> n | Inl x \<Rightarrow> dflt))"

definition get_long :: "getenv \<Rightarrow> config \<Rightarrow> string \<Rightarrow> int \<Rightarrow> int" where
  "get_long getenv cfg key dflt =
     (let v = get_string getenv cfg key [] in
      if v = [] then dflt else (case stoll v of Inr n \<Rightarrow> n | Inl x \<Rightarrow> dflt))"

definition get_bool :: "getenv \<Rightarrow> config \<Rightarrow> string \<Rightarrow> bool \<Rightarrow> bool" where
  "get_bool getenv cfg key dflt =
     (let v = get_string getenv cfg key [] in
      if v = [] then dflt else v = ''true'' \<or> v = ''1'' \<or> v = ''yes'')"

text \<open>The probing loops: \<open>n\<close> counts the iterations left, \<^verbatim>\<open>i < 100\<close>.\<close>

fun cluster_servers_from :: "getenv \<Rightarrow> config \<Rightarrow> nat \<Rightarrow> nat \<Rightarrow> (int \<times> string \<times> int) list" where
  "cluster_servers_from getenv cfg i 0 = []"
| "cluster_servers_from getenv cfg i (Suc n) =
     (let pre = ''cluster_servers.'' @ show_nat i;
          host = get_string getenv cfg (pre @ ''.host'') []
      in if host = [] then []
         else (get_int getenv cfg (pre @ ''.id'') (int i + 1), host,
               get_int getenv cfg (pre @ ''.port'') (8080 + int i)) # cluster_servers_from getenv cfg (Suc i) n)"

definition get_cluster_servers :: "getenv \<Rightarrow> config \<Rightarrow> (int \<times> string \<times> int) list" where
  "get_cluster_servers getenv cfg = cluster_servers_from getenv cfg 0 100"

record head_entry =
  hd_id :: string
  hd_host :: string
  hd_port :: int
  hd_control_port :: int

fun head_servers_from :: "getenv \<Rightarrow> config \<Rightarrow> nat \<Rightarrow> nat \<Rightarrow> head_entry list" where
  "head_servers_from getenv cfg i 0 = []"
| "head_servers_from getenv cfg i (Suc n) =
     (let pre = ''head_servers.'' @ show_nat i;
          host = get_string getenv cfg (pre @ ''.host'') []
      in if host = [] then []
         else \<lparr>hd_id = get_string getenv cfg (pre @ ''.id'') (''head_server_'' @ show_nat (i + 1)),
               hd_host = host,
               hd_port = get_int getenv cfg (pre @ ''.port'') 9669,
               hd_control_port = get_int getenv cfg (pre @ ''.control_port'') (9670 + int i)\<rparr>
              # head_servers_from getenv cfg (Suc i) n)"

definition get_head_servers :: "getenv \<Rightarrow> config \<Rightarrow> head_entry list" where
  "get_head_servers getenv cfg = head_servers_from getenv cfg 0 100"

section \<open>The singletons\<close>

text \<open>What an accessor keeps: the loader, the generation it was loaded at and whether \<^verbatim>\<open>call_once\<close> has run.  The
  generation counts the SIGHUP signals received.\<close>

record cfg_single =
  cs_cfg :: config
  cs_gen :: nat
  cs_init :: bool

fun load_first :: "files \<Rightarrow> string list \<Rightarrow> config \<Rightarrow> config option" where
  "load_first fs [] cfg = Some cfg"
| "load_first fs (p # ps) cfg =
     load fs p cfg \<bind> (\<lambda>(ok, cfg'). if ok then Some cfg' else load_first fs ps cfg')"

definition config_access :: "string list \<Rightarrow> files \<Rightarrow> nat \<Rightarrow> cfg_single \<Rightarrow> cfg_single option" where
  "config_access paths fs generation s =
     (if cs_init s then Some s
      else load_first fs paths (cs_cfg s) \<bind> (\<lambda>cfg. Some \<lparr>cs_cfg = cfg, cs_gen = generation, cs_init = True\<rparr>)) \<bind>
     (\<lambda>s1. if generation \<noteq> cs_gen s1
           then reload fs (cs_cfg s1) \<bind> (\<lambda>(ok, cfg). Some (s1\<lparr>cs_cfg := cfg, cs_gen := generation\<rparr>))
           else Some s1)"

definition search_paths :: "string \<Rightarrow> string list" where
  "search_paths name = [''config/'' @ name, ''../config/'' @ name, ''../../config/'' @ name, ''/etc/dfg/'' @ name]"

definition head_server_config :: "files \<Rightarrow> nat \<Rightarrow> cfg_single \<Rightarrow> cfg_single option" where
  "head_server_config = config_access (search_paths ''head_server.json'')"

definition health_checker_config :: "files \<Rightarrow> nat \<Rightarrow> cfg_single \<Rightarrow> cfg_single option" where
  "health_checker_config = config_access (search_paths ''health_checker.json'')"

definition cluster_server_config :: "files \<Rightarrow> nat \<Rightarrow> cfg_single \<Rightarrow> cfg_single option" where
  "cluster_server_config = config_access (search_paths ''cluster_server.json'')"

definition zookeeper_config :: "files \<Rightarrow> nat \<Rightarrow> cfg_single \<Rightarrow> cfg_single option" where
  "zookeeper_config = config_access (search_paths ''zookeeper.json'')"

section \<open>Documents and their texts\<close>

text \<open>The specification of the parser: a document, the assignments it stands for in order, and the texts that
  write it, with any whitespace between the tokens.\<close>

datatype json = JStr string | JLit string | JObj "(string \<times> json) list" | JArr "json list"

definition sub_key :: "string \<Rightarrow> string \<Rightarrow> string" where
  "sub_key pre key = (if pre = [] then key else pre @ ''.'' @ key)"

function (sequential) flatten :: "string \<Rightarrow> json \<Rightarrow> settings"
  and flatten_members :: "string \<Rightarrow> (string \<times> json) list \<Rightarrow> settings"
  and flatten_elems :: "string \<Rightarrow> nat \<Rightarrow> json list \<Rightarrow> settings" where
  "flatten p (JStr v) = [(p, v)]"
| "flatten p (JLit v) = [(p, v)]"
| "flatten p (JObj ms) = flatten_members p ms"
| "flatten p (JArr es) = flatten_elems p 0 es"
| "flatten_members p [] = []"
| "flatten_members p ((k, j) # ms) = flatten (sub_key p k) j @ flatten_members p ms"
| "flatten_elems p i [] = []"
| "flatten_elems p i (j # es) = flatten (p @ ''.'' @ show_nat i) j @ flatten_elems p (Suc i) es"
  by pat_completeness auto
termination
  by (relation "measure (\<lambda>x. case x of Inl (p, j) \<Rightarrow> size j
        | Inr (Inl (p, ms)) \<Rightarrow> size_list (size_prod (\<lambda>x. 0) size) ms
        | Inr (Inr (p, i, es)) \<Rightarrow> size_list size es)") auto

definition assign_all :: "settings \<Rightarrow> settings \<Rightarrow> settings" where
  "assign_all as vs = fold (\<lambda>(k, v). omap_upd k v) as vs"

fun escape :: "string \<Rightarrow> string" where
  "escape [] = []"
| "escape (c # s) = (if c = dquote \<or> c = backslash then [backslash, c] else [c]) @ escape s"

definition quote :: "string \<Rightarrow> string" where
  "quote s = dquote # escape s @ [dquote]"

definition blank :: "string \<Rightarrow> bool" where
  "blank w \<longleftrightarrow> list_all json_ws w"

definition literal :: "string \<Rightarrow> bool" where
  "literal t \<longleftrightarrow> t \<noteq> [] \<and> list_all (\<lambda>c. \<not> json_ws c \<and> \<not> value_end c) t \<and> find_str ''//'' t = None \<and>
     hd t \<noteq> CHR ''{'' \<and> hd t \<noteq> CHR ''['' \<and> hd t \<noteq> dquote"

definition separator :: "'a list \<Rightarrow> string" where
  "separator xs = (if xs = [] then [] else '','')"

inductive value_text :: "json \<Rightarrow> string \<Rightarrow> bool"
  and members_text :: "(string \<times> json) list \<Rightarrow> string \<Rightarrow> bool"
  and elems_text :: "json list \<Rightarrow> string \<Rightarrow> bool" where
  text_str: "value_text (JStr v) (quote v)"
| text_lit: "literal v \<Longrightarrow> value_text (JLit v) v"
| text_obj: "members_text ms t \<Longrightarrow> value_text (JObj ms) (''{'' @ t @ ''}'')"
| text_arr: "elems_text es t \<Longrightarrow> value_text (JArr es) (''['' @ t @ '']'')"
| text_members_nil: "blank w \<Longrightarrow> members_text [] w"
| text_members_cons:
    "k \<noteq> [] \<Longrightarrow> value_text j t \<Longrightarrow> members_text ms u \<Longrightarrow> blank w1 \<Longrightarrow> blank w2 \<Longrightarrow> blank w3 \<Longrightarrow> blank w4 \<Longrightarrow>
     members_text ((k, j) # ms) (w1 @ quote k @ w2 @ '':'' @ w3 @ t @ w4 @ separator ms @ u)"
| text_elems_nil: "blank w \<Longrightarrow> elems_text [] w"
| text_elems_cons:
    "value_text j t \<Longrightarrow> elems_text es u \<Longrightarrow> blank w1 \<Longrightarrow> blank w2 \<Longrightarrow>
     elems_text (j # es) (w1 @ t @ w2 @ separator es @ u)"

section \<open>Lemmas\<close>

lemma skip_ws_blank [simp]: "blank w \<Longrightarrow> skip_ws (w @ s) = skip_ws s"
  by (induction w) (auto simp: blank_def skip_ws_def)

lemma skip_ws_skip_ws [simp]: "skip_ws (skip_ws s) = skip_ws s"
  by (induction s) (auto simp: skip_ws_def)

lemma skip_ws_Cons: "skip_ws (c # s) = (if json_ws c then skip_ws s else c # s)"
  by (simp add: skip_ws_def)

lemma json_ws_simps [simp]:
  "\<not> json_ws dquote" "\<not> json_ws CHR ''{''" "\<not> json_ws CHR ''['' " "\<not> json_ws CHR ''}''" "\<not> json_ws CHR '']''"
  "\<not> json_ws CHR '',''" "\<not> json_ws CHR '':''"
  by code_simp+

lemma delimiter_simps [simp]:
  "dquote \<noteq> CHR ''{''" "dquote \<noteq> CHR ''[''" "dquote \<noteq> CHR ''}''" "dquote \<noteq> CHR '']''" "dquote \<noteq> CHR '',''" "dquote \<noteq> CHR '':''"
  "value_end CHR '',''" "value_end CHR ''}''" "value_end CHR '']''" "dquote \<noteq> backslash" "backslash \<noteq> dquote"
  "\<not> value_end dquote" "\<not> value_end CHR ''{''" "\<not> value_end CHR ''[''"
  by code_simp+

lemma string_body_escape: "string_body (escape v @ dquote # r) = (v, r)"
  by (induction v) auto

lemma parse_string_quote [simp]: "parse_string_token (quote v @ r) = (v, r)"
  by (simp add: parse_string_token_def quote_def string_body_escape)

text \<open>The loop skips whitespace first, so it does not see the difference between two rests that differ in it.\<close>

lemma parse_loop_ws: "skip_ws s = skip_ws s' \<Longrightarrow> parse_loop fr p s vs = parse_loop fr p s' vs"
  by (subst (1 2) parse_loop.simps) simp

text \<open>What follows a value: whitespace and a delimiter.\<close>

definition delimited :: "string \<Rightarrow> bool" where
  "delimited u \<longleftrightarrow> (\<exists>w x v. u = w @ x # v \<and> blank w \<and> (x = CHR '','' \<or> x = CHR ''}'' \<or> x = CHR '']''))"

lemma dropWhile_ws_rev: "list_all json_ws w \<Longrightarrow> \<not> json_ws (List.last v) \<Longrightarrow> v \<noteq> [] \<Longrightarrow> dropWhile json_ws (rev (v @ w)) = rev v"
  by (cases v rule: rev_cases) (auto simp: list_all_iff dropWhile_append2)

lemma trim_literal: "literal v \<Longrightarrow> blank w \<Longrightarrow> trim (v @ w) = v"
proof -
  assume v: "literal v" and w: "blank w"
  then have "\<not> json_ws (hd v)" "\<not> json_ws (List.last v)" "v \<noteq> []" by (auto simp: literal_def list_all_iff)
  moreover from this have "dropWhile json_ws (v @ w) = v @ w" by (cases v) auto
  ultimately show ?thesis using dropWhile_ws_rev [of w v] w by (simp add: trim_def blank_def)
qed

lemma parse_value_literal:
  assumes "literal v" "delimited u"
  shows "\<exists>u'. parse_value_token (v @ u) = (v, u') \<and> skip_ws u' = skip_ws u"
proof -
  from assms(2) obtain w x y where u: "u = w @ x # y" "blank w" "value_end x" by (auto simp: delimited_def)
  let ?P = "\<lambda>c. \<not> value_end c"
  have v: "takeWhile ?P (v @ u) = v @ takeWhile ?P u" "dropWhile ?P (v @ u) = dropWhile ?P u"
    using assms(1) by (auto simp: literal_def list_all_iff)
  have t: "takeWhile ?P u = takeWhile ?P w" "dropWhile ?P u = dropWhile ?P w @ x # y"
    using u(3) unfolding u(1) by (induction w) auto
  have "blank (takeWhile ?P w)" "blank (dropWhile ?P w)"
    using u(2) by (auto simp: blank_def list_all_iff dest: set_takeWhileD set_dropWhileD)
  then show ?thesis using trim_literal [OF assms(1)] u v t by (simp add: parse_value_token_def)
qed

lemma literal_scalar [simp]: "literal v \<Longrightarrow> scalar fr v = v"
  by (cases fr) (simp_all add: strip_comment_def literal_def)

lemma value_text_start: "value_text j t \<Longrightarrow> \<exists>c r. t = c # r \<and> \<not> json_ws c \<and> \<not> value_end c"
  by (erule value_text.cases) (auto simp: quote_def literal_def neq_Nil_conv)

lemma assign_all_append: "assign_all (a @ b) vs = assign_all b (assign_all a vs)"
  by (simp add: assign_all_def)

lemma assign_all_single [simp]: "assign_all [(k, v)] vs = omap_upd k v vs" "assign_all [] vs = vs"
  by (simp_all add: assign_all_def)

text \<open>One value of the document: the loop stores its assignments and goes on behind it.\<close>

definition reads_value :: "json \<Rightarrow> string \<Rightarrow> bool" where
  "reads_value j t \<longleftrightarrow>
     (\<forall>fr p s vs c r key u. skip_ws s = c # r \<longrightarrow> c \<noteq> closing fr \<longrightarrow> c \<noteq> CHR '','' \<longrightarrow>
        item_start fr p (c # r) = Item key (t @ u) \<longrightarrow> delimited u \<longrightarrow>
        parse_loop fr p s vs = parse_loop (next_frame fr) p u (assign_all (flatten key j) vs))"

lemma reads_str: "reads_value (JStr v) (quote v)"
  unfolding reads_value_def
proof (intro allI impI)
  fix fr p s vs c r key u
  assume "skip_ws s = c # r" "c \<noteq> closing fr" "c \<noteq> CHR '',''" "item_start fr p (c # r) = Item key (quote v @ u)"
  then show "parse_loop fr p s vs = parse_loop (next_frame fr) p u (assign_all (flatten key (JStr v)) vs)"
    using parse_string_quote [of v u] by (subst parse_loop.simps) (simp add: quote_def)
qed

lemma reads_lit: "literal v \<Longrightarrow> reads_value (JLit v) v"
  unfolding reads_value_def
proof (intro allI impI)
  fix fr p s vs c r key u
  assume v: "literal v" and s: "skip_ws s = c # r" "c \<noteq> closing fr" "c \<noteq> CHR '',''"
    "item_start fr p (c # r) = Item key (v @ u)" and u: "delimited u"
  obtain u' where u': "parse_value_token (v @ u) = (v, u')" "skip_ws u' = skip_ws u"
    using parse_value_literal [OF v u] by blast
  obtain d v' where "v = d # v'" "d \<noteq> CHR ''{''" "d \<noteq> CHR ''[''" "d \<noteq> dquote"
    using v by (auto simp: literal_def neq_Nil_conv)
  then have "parse_loop fr p s vs = parse_loop (next_frame fr) p u' (omap_upd key v vs)"
    using s u'(1) v by (subst parse_loop.simps) simp
  then show "parse_loop fr p s vs = parse_loop (next_frame fr) p u (assign_all (flatten key (JLit v)) vs)"
    using parse_loop_ws [OF u'(2)] by simp
qed

lemma reads_obj:
  assumes "\<And>p vs u. parse_loop Obj p (t @ ''}'' @ u) vs = Some (u, assign_all (flatten_members p ms) vs)"
  shows "reads_value (JObj ms) (''{'' @ t @ ''}'')"
  unfolding reads_value_def
proof (intro allI impI)
  fix fr p s vs c r key u
  assume "skip_ws s = c # r" "c \<noteq> closing fr" "c \<noteq> CHR '',''" "item_start fr p (c # r) = Item key ((''{'' @ t @ ''}'') @ u)"
  then show "parse_loop fr p s vs = parse_loop (next_frame fr) p u (assign_all (flatten key (JObj ms)) vs)"
    using assms [of key u vs] by (subst parse_loop.simps) simp
qed

lemma reads_arr:
  assumes "\<And>p i vs u. parse_loop (Arr i) p (t @ '']'' @ u) vs = Some (u, assign_all (flatten_elems p i es) vs)"
  shows "reads_value (JArr es) (''['' @ t @ '']'')"
  unfolding reads_value_def
proof (intro allI impI)
  fix fr p s vs c r key u
  assume "skip_ws s = c # r" "c \<noteq> closing fr" "c \<noteq> CHR '',''" "item_start fr p (c # r) = Item key ((''['' @ t @ '']'') @ u)"
  then show "parse_loop fr p s vs = parse_loop (next_frame fr) p u (assign_all (flatten key (JArr es)) vs)"
    using assms [of 0 key u vs] by (subst parse_loop.simps) simp
qed

lemma delimitedI:
  "blank w \<Longrightarrow> delimited (w @ '','' @ v)" "blank w \<Longrightarrow> delimited (w @ ''}'' @ v)" "blank w \<Longrightarrow> delimited (w @ '']'' @ v)"
  by (auto simp: delimited_def)

lemma blank_append [simp]: "blank (v @ w) \<longleftrightarrow> blank v \<and> blank w"
  by (simp add: blank_def)

inductive_cases members_text_NilE: "members_text [] t"
inductive_cases elems_text_NilE: "elems_text [] t"

lemma members_delimited:
  assumes "members_text ms u" "blank w"
  shows "delimited (w @ separator ms @ u @ ''}'' @ v)"
proof (cases "ms = []")
  case True
  then have "blank u" using assms(1) by (auto elim: members_text_NilE)
  then show ?thesis using True assms delimitedI(2) [of "w @ u" v] by (simp add: separator_def)
next
  case False
  then show ?thesis using delimitedI(1) [OF assms(2)] by (simp add: separator_def)
qed

lemma elems_delimited:
  assumes "elems_text es u" "blank w" "x = CHR ''}'' \<or> x = CHR '']''"
  shows "delimited (w @ separator es @ u @ [x] @ v)"
proof (cases "es = []")
  case True
  then have "blank u" using assms(1) by (auto elim: elems_text_NilE)
  then show ?thesis using True assms delimitedI(2,3) [of "w @ u" v] by (auto simp: separator_def)
next
  case False
  then show ?thesis using delimitedI(1) [OF assms(2)] by (simp add: separator_def)
qed

lemma parse_loop_close: "blank w \<Longrightarrow> parse_loop fr p (w @ [closing fr] @ u) vs = Some (u, vs)"
  by (subst parse_loop.simps) (cases fr; simp add: skip_ws_Cons)

lemma parse_loop_separator: "parse_loop fr p (w @ separator xs @ u) vs = parse_loop fr p u vs" if "blank w" for xs :: "'a list"
proof (cases "xs = []")
  case True
  then show ?thesis using that by (intro parse_loop_ws) (simp add: separator_def)
next
  case False
  then show ?thesis using that by (subst parse_loop.simps) (cases fr; simp add: separator_def skip_ws_Cons)
qed

lemma reads_member:
  assumes "reads_value j t" "value_text j t" "k \<noteq> []" "blank w1" "blank w2" "blank w3" "delimited u"
  shows "parse_loop Obj p (w1 @ quote k @ w2 @ '':'' @ w3 @ t @ u) vs = parse_loop Obj p u (assign_all (flatten (sub_key p k) j) vs)"
proof -
  obtain c r where t: "t = c # r" "\<not> json_ws c" using value_text_start [OF assms(2)] by blast
  let ?s = "quote k @ w2 @ '':'' @ w3 @ t @ u"
  obtain q where q: "?s = dquote # q" by (simp add: quote_def)
  have "item_start Obj p ?s = Item (sub_key p k) (t @ u)"
    using assms(3,5,6) t by (simp add: sub_key_def skip_ws_Cons)
  moreover have "skip_ws (w1 @ ?s) = dquote # q" unfolding q using assms(4) by (simp add: skip_ws_Cons)
  ultimately show ?thesis
    using assms(1)[unfolded reads_value_def, rule_format, of "w1 @ ?s" dquote q Obj p "sub_key p k" u vs] assms(7)
    unfolding q by simp
qed

lemma reads_elem:
  assumes "reads_value j t" "value_text j t" "blank w1" "delimited u"
  shows "parse_loop (Arr i) p (w1 @ t @ u) vs = parse_loop (Arr (Suc i)) p u (assign_all (flatten (p @ ''.'' @ show_nat i) j) vs)"
proof -
  obtain c r where t: "t = c # r" "\<not> json_ws c" "\<not> value_end c" using value_text_start [OF assms(2)] by blast
  then have "skip_ws (w1 @ t @ u) = c # r @ u" using assms(3) by (simp add: skip_ws_Cons)
  then show ?thesis
    using assms(1)[unfolded reads_value_def, rule_format, of "w1 @ t @ u" c "r @ u" "Arr i" p "p @ ''.'' @ show_nat i" u vs]
      assms(4) t by (auto simp: value_end_def)
qed

theorem parse_texts:
  "value_text j t \<Longrightarrow> reads_value j t"
  "members_text ms t \<Longrightarrow> (\<forall>p vs u. parse_loop Obj p (t @ ''}'' @ u) vs = Some (u, assign_all (flatten_members p ms) vs))"
  "elems_text es t \<Longrightarrow> (\<forall>p i vs u. parse_loop (Arr i) p (t @ '']'' @ u) vs = Some (u, assign_all (flatten_elems p i es) vs))"
proof (induction rule: value_text_members_text_elems_text.inducts)
  case (text_members_cons k j t ms u w1 w2 w3 w4)
  note d = members_delimited [OF text_members_cons(3,7)]
  show ?case
    using text_members_cons reads_member [OF text_members_cons(8,2,1,4,5,6) d]
    by (simp add: assign_all_append parse_loop_separator)
next
  case (text_elems_cons j t es u w1 w2)
  show ?case
    using text_elems_cons reads_elem [OF text_elems_cons(5,1,3) elems_delimited [OF text_elems_cons(2,4)]]
    by (simp add: assign_all_append parse_loop_separator)
next
  case (text_obj ms t)
  then show ?case by (intro reads_obj) blast
next
  case (text_arr es t)
  then show ?case by (intro reads_arr) blast
qed (auto simp: reads_str reads_lit parse_loop_close [where fr = Obj, simplified] parse_loop_close [where fr = "Arr i" for i, simplified])

lemma map_of_assign_all: "map_of (assign_all as vs) = map_of vs ++ map_of (rev as)"
  by (induction as arbitrary: vs) (auto simp: assign_all_def map_add_def fun_eq_iff split: option.splits)

lemma trim_nonempty: "\<not> json_ws c \<Longrightarrow> trim s \<noteq> [] \<and> hd (trim s) = c" if "skip_ws s = c # r"
proof -
  assume c: "\<not> json_ws c"
  have "dropWhile json_ws (rev r @ [c]) = (dropWhile json_ws (rev r)) @ [c]"
    using c by (induction "rev r" arbitrary: r) (auto simp: dropWhile_append)
  then show ?thesis using that by (simp add: trim_def skip_ws_def)
qed

lemma load_object:
  assumes "value_text (JObj ms) t" "blank w1"
  shows "parse_json (w1 @ t @ w2) [] [] = Some (assign_all (flatten [] (JObj ms)) [])"
    and "trim (w1 @ t @ w2) \<noteq> []" and "hd (trim (w1 @ t @ w2)) = CHR ''{''"
proof -
  obtain t' where t: "t = ''{'' @ t' @ ''}''" "members_text ms t'"
    using assms(1) by (cases rule: value_text.cases) auto
  have s: "skip_ws (w1 @ t @ w2) = CHR ''{'' # t' @ ''}'' @ w2" using assms(2) t(1) by (simp add: skip_ws_Cons)
  then show "trim (w1 @ t @ w2) \<noteq> []" "hd (trim (w1 @ t @ w2)) = CHR ''{''" using trim_nonempty by force+
  show "parse_json (w1 @ t @ w2) [] [] = Some (assign_all (flatten [] (JObj ms)) [])"
    using parse_texts(2) [OF t(2), rule_format, of "[]" w2 "[]"] unfolding parse_json_def s
    by (simp add: parse_object_def)
qed

text \<open>The environment variable that overrides a key, if one is set: the prefixed name, the plain name, the alias.\<close>

definition env_override :: "getenv \<Rightarrow> string \<Rightarrow> string option" where
  "env_override getenv key =
     (case env_set getenv (''DFG_'' @ to_env_name key) of
        Some v \<Rightarrow> Some v
      | None \<Rightarrow>
          (case env_set getenv (to_env_name key) of
             Some v \<Rightarrow> Some v
           | None \<Rightarrow> Option.bind (env_alias key) (env_set getenv)))"

text \<open>C20. The configuration parser: a file that writes a JSON object, with any whitespace between its tokens, any
  nesting, and strings whose only escapes are the quote and the backslash, is loaded (the parser returns).  Afterwards a
  lookup gives the value of the environment variable that overrides the key, if one is set; otherwise the last value the
  document assigns to the dotted path, or the default.\<close>

theorem config_roundtrip:
  assumes "value_text (JObj ms) t" "blank w1" "blank w2" "fs path = Some (w1 @ t @ w2)"
    and "flatten [] (JObj ms) \<noteq> []"
  shows "\<exists>cfg'. load fs path cfg = Some (True, cfg') \<and> cfg_loaded cfg' \<and> cfg_filepath cfg' = path \<and>
    (\<forall>getenv key dflt. get_string getenv cfg' key dflt =
       (case env_override getenv key of
          Some v \<Rightarrow> v
        | None \<Rightarrow> (case map_of (rev (flatten [] (JObj ms))) key of Some v \<Rightarrow> v | None \<Rightarrow> dflt)))"
proof -
  let ?as = "flatten [] (JObj ms)"
  have "map_of (assign_all ?as []) \<noteq> Map.empty" using assms(5) unfolding map_of_assign_all by simp
  then have ne: "assign_all ?as [] \<noteq> []" by auto
  have "load fs path cfg = Some (True, cfg\<lparr>cfg_values := assign_all ?as [], cfg_filepath := path, cfg_loaded := True\<rparr>)"
    using load_object [OF assms(1,2), of w2] assms(4) ne by (simp add: load_def load_impl_def)
  moreover have "get_string getenv (cfg\<lparr>cfg_values := assign_all ?as [], cfg_filepath := path, cfg_loaded := True\<rparr>) key dflt =
      (case env_override getenv key of Some v \<Rightarrow> v | None \<Rightarrow> (case map_of (rev ?as) key of Some v \<Rightarrow> v | None \<Rightarrow> dflt))"
    for getenv key dflt
    by (simp add: get_string_def env_override_def map_of_assign_all split: option.split bind_split)
  ultimately show ?thesis by auto
qed

text \<open>A sample document and its text.\<close>

definition sample_doc :: "(string \<times> json) list" where
  "sample_doc = [(''server'', JObj [(''host'', JStr ''h''), (''port'', JLit ''9'')]), (''l'', JArr [JLit ''1'', JObj [(''a'', JLit ''2'')]])]"

definition sample_text :: string where
  "sample_text = ''{ '' @ quote ''server'' @ '': {'' @ quote ''host'' @ '':'' @ quote ''h'' @ '' , '' @ quote ''port'' @ '':9}'' @ '','' @
     quote ''l'' @ '': [1, {'' @ quote ''a'' @ '':2}]}''"

lemma sample_literal [simp]: "literal ''9''" "literal ''1''" "literal ''2''"
  by code_simp+

lemma sample_blank [simp]: "blank []" "blank '' ''" "blank (nl # [])"
  by code_simp+

lemma sample_text_ok: "value_text (JObj sample_doc) sample_text"
proof -
  have m1: "members_text [(''port'', JLit ''9'')] ('' '' @ quote ''port'' @ [] @ '':'' @ [] @ ''9'' @ [] @ separator ([] :: (string \<times> json) list) @ [])"
    by (rule text_members_cons) (auto intro: text_members_nil text_lit)
  have m2: "members_text [(''host'', JStr ''h''), (''port'', JLit ''9'')]
     ([] @ quote ''host'' @ [] @ '':'' @ [] @ quote ''h'' @ '' '' @ separator [(''port'', JLit ''9'')] @
      ('' '' @ quote ''port'' @ [] @ '':'' @ [] @ ''9'' @ [] @ separator ([] :: (string \<times> json) list) @ []))"
    by (rule text_members_cons [OF _ text_str m1]) auto
  have m3: "members_text [(''a'', JLit ''2'')] ([] @ quote ''a'' @ [] @ '':'' @ [] @ ''2'' @ [] @ separator ([] :: (string \<times> json) list) @ [])"
    by (rule text_members_cons) (auto intro: text_members_nil text_lit)
  have e1: "elems_text [JObj [(''a'', JLit ''2'')]] ('' '' @ (''{'' @ ([] @ quote ''a'' @ [] @ '':'' @ [] @ ''2'' @ [] @ separator ([] :: (string \<times> json) list) @ []) @ ''}'') @ [] @ separator ([] :: json list) @ [])"
    by (rule text_elems_cons [OF text_obj [OF m3] text_elems_nil]) auto
  have e2: "elems_text [JLit ''1'', JObj [(''a'', JLit ''2'')]] ([] @ ''1'' @ [] @ separator [JObj [(''a'', JLit ''2'')]] @
     ('' '' @ (''{'' @ ([] @ quote ''a'' @ [] @ '':'' @ [] @ ''2'' @ [] @ separator ([] :: (string \<times> json) list) @ []) @ ''}'') @ [] @ separator ([] :: json list) @ []))"
    by (rule text_elems_cons [OF text_lit e1]) auto
  note m4 = text_members_cons [OF _ text_arr [OF e2] text_members_nil, of "''l''" "[]" "[]" "[]" "'' ''" "[]"]
  note m5 = text_members_cons [OF _ text_obj [OF m2] m4, of "''server''" "'' ''" "[]" "'' ''" "[]"]
  show ?thesis
    using text_obj [OF m5] by (simp add: sample_doc_def sample_text_def separator_def)
qed

theorem config_roundtrip_witness:
  "\<exists>cfg'. load (\<lambda>p. if p = ''c'' then Some ([nl] @ sample_text @ [nl]) else None) ''c'' new_config = Some (True, cfg') \<and>
     get_string (\<lambda>k. None) cfg' ''l.1.a'' ''x'' = ''2''"
proof -
  have f: "flatten [] (JObj sample_doc) = [(''server.host'', ''h''), (''server.port'', ''9''), (''l.0'', ''1''), (''l.1.a'', ''2'')]"
    by (simp add: sample_doc_def sub_key_def digit_char_def) code_simp
  show ?thesis
    using config_roundtrip [OF sample_text_ok, of "[nl]" "[nl]" "\<lambda>p. if p = ''c'' then Some ([nl] @ sample_text @ [nl]) else None" "''c''" new_config]
    unfolding f by (fastforce simp: env_override_def env_set_def split: bind_splits)
qed

section \<open>Termination\<close>

lemma suffix_skip_ws: "suffix (skip_ws s) s"
  by (simp add: skip_ws_def suffix_dropWhile)

lemma suffix_string_body: "suffix (snd (string_body s)) s"
proof (induction s rule: string_body.induct)
  case (2 c s)
  then show ?case
    by (cases s) (auto simp: case_prod_unfold Let_def suffix_Cons)
qed simp

lemma suffix_value_token: "suffix (snd (parse_value_token s)) s"
  by (simp add: parse_value_token_def suffix_dropWhile)

lemma suffix_string_token: "suffix (snd (parse_string_token s)) s"
  using suffix_string_body [of "tl s"] suffix_tl [of s] by (auto simp: parse_string_token_def intro: suffix_order.trans)

text \<open>In an object every item consumes a character.\<close>

lemma item_start_shrinks:
  "case item_start Obj p (c # r) of Retry r1 \<Rightarrow> suffix r1 r | Item k r1 \<Rightarrow> suffix r1 r"
proof -
  have b: "suffix (snd (string_body r)) r" by (rule suffix_string_body)
  have d: "suffix (drop (Suc 0) x) r" "suffix (tl x) r" "suffix (skip_ws x) r" if "suffix x r" for x
    using that suffix_drop [of "Suc 0" x] suffix_tl [of x] suffix_skip_ws [of x] by (blast intro: suffix_order.trans)+
  show ?thesis using b by (auto simp: parse_string_token_def case_prod_unfold Let_def d)
qed

lemma suffix_no_bracket: "suffix r s \<Longrightarrow> CHR ''['' \<notin> set s \<Longrightarrow> CHR ''['' \<notin> set r \<and> length r \<le> length s"
  by (auto simp: suffix_def)

text \<open>One iteration of the object loop on a text without brackets: it returns, goes on behind an item, or
  descends into an object first; always on a proper rest of the text.\<close>

lemma object_step:
  assumes s: "skip_ws s = c # r" and nb: "CHR ''['' \<notin> set r"
  obtains x vs' where "suffix x r" "parse_loop Obj p s vs = Some (x, vs')"
  | x vs' where "suffix x r" "parse_loop Obj p s vs = parse_loop Obj p x vs'"
  | x k where "suffix x r" "parse_loop Obj p s vs = parse_loop Obj k x vs \<bind> (\<lambda>(r3, vs'). parse_loop Obj p r3 vs')"
proof -
  note u = parse_loop.simps [of Obj p s vs, unfolded s list.case]
  consider "c = CHR ''}''" | "c = CHR '',''" | r1 where "c \<noteq> CHR ''}''" "c \<noteq> CHR '',''" "item_start Obj p (c # r) = Retry r1"
    | k r1 where "c \<noteq> CHR ''}''" "c \<noteq> CHR '',''" "item_start Obj p (c # r) = Item k r1"
    by (cases "item_start Obj p (c # r)") blast+
  then show ?thesis
  proof cases
    case 1
    then show ?thesis using that(1) [of r vs] u by simp
  next
    case 2
    then show ?thesis using that(2) [of r vs] u by simp
  next
    case (3 r1)
    then show ?thesis
      using that(2) [of r1 vs] u item_start_shrinks [where p = p and c = c and r = r] by (simp del: item_start.simps)
  next
    case (4 k r1)
    then have r1: "suffix r1 r" using item_start_shrinks [where p = p and c = c and r = r] by simp
    then have tok: "suffix (snd (parse_string_token r1)) r" "suffix (snd (parse_value_token r1)) r"
      using suffix_string_token [of r1] suffix_value_token [of r1] by (blast intro: suffix_order.trans)+
    show ?thesis
    proof (cases r1)
      case Nil
      then show ?thesis using that(1) [of "[]" vs] u 4 by (simp del: item_start.simps)
    next
      case (Cons d r2)
      have r2: "suffix r2 r" using r1 Cons suffix_ConsD by fast
      have "d \<noteq> CHR ''[''" using nb set_mono_suffix [OF r1] Cons by auto
      then show ?thesis
        using that(3) [OF r2, of k] that(2) [OF tok(1)] that(2) [OF tok(2)] u 4 Cons by (auto simp del: item_start.simps split: if_splits)
    qed
  qed
qed

lemma parse_loop_terminates:
  "CHR ''['' \<notin> set s \<Longrightarrow> \<exists>r vs'. parse_loop Obj p s vs = Some (r, vs') \<and> suffix r s"
proof (induction "length s" arbitrary: p s vs rule: less_induct)
  case less
  show ?case
  proof (cases "skip_ws s")
    case Nil
    then show ?thesis by (subst parse_loop.simps) simp
  next
    case (Cons c r)
    have rs: "suffix r s" "length r < length s"
      using suffix_skip_ws [of s] Cons suffix_ConsD [of c r s] suffix_length_le [OF suffix_skip_ws [of s]] by simp_all
    have go: "\<exists>r' vs'. parse_loop Obj q x ws = Some (r', vs') \<and> suffix r' r" if x: "suffix x r" for q x ws
    proof -
      have "length x < length s" using suffix_length_le [OF x] rs(2) by simp
      moreover have "CHR ''['' \<notin> set x" using set_mono_suffix [OF x] set_mono_suffix [OF rs(1)] less(2) by auto
      ultimately obtain r' vs' where "parse_loop Obj q x ws = Some (r', vs')" "suffix r' x"
        using less(1) [of x q ws] by blast
      then show ?thesis using x by (blast intro: suffix_order.trans)
    qed
    have nb: "CHR ''['' \<notin> set r" using set_mono_suffix [OF rs(1)] less(2) by auto
    from Cons nb have "\<exists>r' vs'. parse_loop Obj p s vs = Some (r', vs') \<and> suffix r' r"
    proof (cases rule: object_step [where p = p and vs = vs])
      case (3 x k)
      obtain r3 vs3 where "parse_loop Obj k x vs = Some (r3, vs3)" "suffix r3 r" using go [OF 3(1)] by blast
      then show ?thesis using 3(2) go [of r3 p vs3] by simp
    qed (use go in auto)
    then show ?thesis using rs(1) by (blast intro: suffix_order.trans)
  qed
qed

text \<open>C21. Loading ends on every text without an array, however malformed: unbalanced braces, missing colons,
  unterminated strings and any other bytes included.\<close>

theorem load_terminates:
  assumes "\<And>content. fs path = Some content \<Longrightarrow> CHR ''['' \<notin> set content"
  shows "\<exists>r. load fs path cfg = Some r"
proof (cases "fs path")
  case None
  then show ?thesis by (intro exI [of _ "(False, cfg)"]) (simp add: load_def load_impl_def)
next
  case (Some content)
  let ?s = "skip_ws content"
  have "CHR ''['' \<notin> set ?s" using assms [OF Some] set_mono_suffix [OF suffix_skip_ws [of content]] by auto
  then have nb: "CHR ''['' \<notin> set (tl ?s)" "?s \<noteq> [] \<Longrightarrow> hd ?s \<noteq> CHR ''[''" by (cases ?s; auto)+
  have "\<exists>vs'. parse_json content [] [] = Some vs'"
    using parse_loop_terminates [OF nb(1), of "[]" "[]"] nb(2) by (auto simp: parse_json_def parse_object_def Let_def)
  then show ?thesis using Some by (auto simp: load_def load_impl_def Let_def)
qed

theorem load_terminates_witness:
  "\<exists>r. load (\<lambda>p. Some ''{{ x:'') ''c'' new_config = Some r"
  by (rule load_terminates) auto

text \<open>An array whose elements are followed by a closing brace: the value token is empty, nothing is consumed and
  the loop goes round for ever.\<close>

lemma array_brace_stuck:
  assumes "parse_loop fr p s vs = Some y"
  shows "fr = Arr i \<longrightarrow> skip_ws s \<noteq> CHR ''}'' # r"
proof (rule parse_loop.raw_induct [where P = "\<lambda>fr p s vs y. \<forall>i. fr = Arr i \<longrightarrow> skip_ws s \<noteq> CHR ''}'' # r", OF _ assms, THEN spec])
  fix f fr p s vs and y :: "string \<times> settings"
  assume IH: "\<And>fr p s vs y. f fr p s vs = Some y \<Longrightarrow> \<forall>i. fr = Arr i \<longrightarrow> skip_ws s \<noteq> CHR ''}'' # r"
    and body: "(case skip_ws s of [] \<Rightarrow> Some ([], vs)
      | c # r \<Rightarrow>
          if c = closing fr then Some (r, vs)
          else if c = CHR '','' then f fr p r vs
          else
            (case item_start fr p (c # r) of
               Retry r1 \<Rightarrow> f fr p r1 vs
             | Item key r1 \<Rightarrow>
                 (case r1 of
                    [] \<Rightarrow> Some ([], vs)
                  | d # r2 \<Rightarrow>
                      if d = CHR ''{'' then f Obj key r2 vs \<bind> (\<lambda>(r3, vs'). f (next_frame fr) p r3 vs')
                      else if d = CHR ''['' then f (Arr 0) key r2 vs \<bind> (\<lambda>(r3, vs'). f (next_frame fr) p r3 vs')
                      else if d = dquote then
                        f (next_frame fr) p (snd (parse_string_token r1)) (omap_upd key (fst (parse_string_token r1)) vs)
                      else
                        f (next_frame fr) p (snd (parse_value_token r1))
                          (omap_upd key (scalar fr (fst (parse_value_token r1))) vs)))) = Some y"
  show "\<forall>i. fr = Arr i \<longrightarrow> skip_ws s \<noteq> CHR ''}'' # r"
  proof (intro allI impI notI)
    fix i assume "fr = Arr i" "skip_ws s = CHR ''}'' # r"
    moreover have "parse_value_token (CHR ''}'' # r) = ([], CHR ''}'' # r)" by (simp add: parse_value_token_def trim_def)
    ultimately have "f (Arr (Suc i)) p (CHR ''}'' # r) (omap_upd (p @ ''.'' @ show_nat i) [] vs) = Some y"
      using body by (simp add: dquote_def)
    then show False using IH [of "Arr (Suc i)" p "CHR ''}'' # r"] by (simp add: skip_ws_Cons)
  qed
qed

lemma elems_brace_stuck:
  "elems_text es t \<Longrightarrow> parse_loop (Arr i) p (t @ ''}'' @ u) vs = None"
proof (induction es arbitrary: t i vs)
  case Nil
  then have "skip_ws (t @ ''}'' @ u) = CHR ''}'' # u" by (auto elim: elems_text_NilE simp: skip_ws_Cons)
  then show ?case using array_brace_stuck by (metis not_Some_eq)
next
  case (Cons j es)
  obtain tj v w1 w2 where t: "t = w1 @ tj @ w2 @ separator es @ v" "value_text j tj" "elems_text es v" "blank w1" "blank w2"
    using Cons.prems by (cases rule: elems_text.cases) auto
  have "parse_loop (Arr i) p (t @ ''}'' @ u) vs =
      parse_loop (Arr (Suc i)) p (w2 @ separator es @ v @ ''}'' @ u) (assign_all (flatten (p @ ''.'' @ show_nat i) j) vs)"
    using reads_elem [OF parse_texts(1) [OF t(2)] t(2,4) elems_delimited [OF t(3,5), where x = "CHR ''}''"]] t(1) by simp
  then show ?case using Cons.IH [OF t(3)] t(5) by (simp add: parse_loop_separator)
qed

text \<open>C40. An array closed by a brace instead of a bracket, after any elements: the loader never returns, so the
  service that reads the file hangs at its first access to the configuration.\<close>

theorem load_hangs:
  assumes "elems_text es t" "k \<noteq> []" "fs path = Some (''{'' @ quote k @ '':'' @ ''['' @ t @ ''}'' @ u)"
  shows "load fs path cfg = None"
proof -
  let ?r = "quote k @ '':'' @ ''['' @ t @ ''}'' @ u"
  obtain q where q: "?r = dquote # q" by (simp add: quote_def)
  have "item_start Obj [] ?r = Item k (''['' @ t @ ''}'' @ u)" using assms(2) by (simp add: skip_ws_Cons)
  then have "parse_loop Obj [] ?r [] = None"
    using elems_brace_stuck [OF assms(1), of 0 k u "[]"] unfolding q
    by (subst parse_loop.simps) (simp add: skip_ws_Cons del: item_start.simps)
  moreover have "skip_ws (''{'' @ ?r) = CHR ''{'' # ?r" by (simp add: skip_ws_Cons)
  ultimately show ?thesis
    using trim_nonempty [of "''{'' @ ?r" "CHR ''{''" ?r] assms(3)
    by (simp add: load_def load_impl_def parse_json_def parse_object_def)
qed

theorem load_hangs_witness:
  "load (\<lambda>p. Some (''{'' @ quote ''a'' @ '':'' @ ''['' @ ''1'' @ ''}'' @ [])) ''c'' new_config = None"
proof -
  have "elems_text [JLit ''1''] ''1''"
    using text_elems_cons [OF text_lit text_elems_nil, of "''1''" "[]" "[]" "[]"] by (simp add: separator_def)
  then show ?thesis by (rule load_hangs [where k = "''a''" and u = "[]"]) simp_all
qed

section \<open>Reloading\<close>

text \<open>A reload that fails, because the file is gone or is not an object at that moment, is final: the loader forgets the
  path with the values, so that no later reload of the process, whatever the file then holds, loads anything.\<close>

theorem failed_reload_final:
  assumes "reload fs cfg = Some (False, cfg')"
  shows "fold (\<lambda>fs' c. c \<bind> (\<lambda>c. map_option snd (reload fs' c))) later (Some cfg') = Some cfg' \<and> cfg_filepath cfg' = [] \<and>
    (cfg_filepath cfg \<noteq> [] \<longrightarrow> cfg_values cfg' = [] \<and> \<not> cfg_loaded cfg')"
proof -
  have c: "cfg_filepath cfg' = [] \<and> (cfg_filepath cfg \<noteq> [] \<longrightarrow> cfg_values cfg' = [] \<and> \<not> cfg_loaded cfg')"
    using assms by (auto simp: reload_def load_impl_def Let_def split: if_splits option.splits bind_splits)
  then have "fold (\<lambda>fs' c. c \<bind> (\<lambda>c. map_option snd (reload fs' c))) later (Some cfg') = Some cfg'"
    by (induction later) (auto simp: reload_def)
  with c show ?thesis by blast
qed

theorem failed_reload_final_witness:
  "fold (\<lambda>fs' c. c \<bind> (\<lambda>c. map_option snd (reload fs' c))) [\<lambda>p. Some ''{}''] (Some new_config) = Some new_config"
  using failed_reload_final [of "\<lambda>p. None" "\<lparr>cfg_values = [(''a'', ''1'')], cfg_filepath = ''c'', cfg_loaded = True\<rparr>" new_config]
  by (simp add: reload_def load_impl_def new_config_def)

end
