(* ===== verification/Net_Utils.thy ===== *)
theory Net_Utils
  imports Cxx_Prelude
begin

text \<open>
  The socket helpers of \<^verbatim>\<open>src/common/include/dfg/net_utils.hpp\<close>.  The kernel is a parameter: a
  list with what it does at each successive \<^verbatim>\<open>send\<close> or \<^verbatim>\<open>recv\<close> call.  \<open>Ready n\<close> lets up to \<open>n\<close>
  bytes through, so the call returns the minimum of \<open>n\<close>, the bytes asked for and (for a receive)
  the bytes of the stream that are left, 0 being end of file; \<open>Again rc\<close> is \<^verbatim>\<open>EAGAIN\<close> followed
  by a \<^verbatim>\<open>select\<close> that returns \<open>rc\<close>; \<open>Fail\<close> is any other error.  A loop that has used up the
  list is still blocked in a call, which is \<open>None\<close>.
\<close>

unbundle bit_operations_syntax

datatype io_res = Ready nat | Again int | Fail

text \<open>What one \<^verbatim>\<open>recv\<close> for \<open>len\<close> bytes returns.\<close>

definition recv_count :: "nat \<Rightarrow> nat \<Rightarrow> byte list \<Rightarrow> nat" where
  "recv_count n len s = min n (min len (length s))"

text \<open>\<^verbatim>\<open>send_all\<close> on the bytes still to send: the returned flag and the bytes put on the wire.\<close>

fun send_all :: "byte list \<Rightarrow> io_res list \<Rightarrow> (bool \<times> byte list) option" where
  "send_all p rs =
     (if p = [] then Some (True, [])
      else case rs of
        [] \<Rightarrow> None
      | Ready n # rs' \<Rightarrow>
          (let k = min n (length p) in
           if k > 0 then map_option (\<lambda>(ok, w). (ok, take k p @ w)) (send_all (drop k p) rs')
           else Some (False, []))
      | Again rc # rs' \<Rightarrow> (if rc \<le> 0 then Some (False, []) else send_all p rs')
      | Fail # rs' \<Rightarrow> Some (False, []))"

text \<open>\<^verbatim>\<open>recv_all\<close> for \<open>len\<close> bytes of the stream \<open>s\<close>: the flag, the bytes stored in the buffer and the
  rest of the stream.\<close>

fun recv_all :: "nat \<Rightarrow> byte list \<Rightarrow> io_res list \<Rightarrow> (bool \<times> byte list \<times> byte list) option" where
  "recv_all len s rs =
     (if len = 0 then Some (True, [], s)
      else case rs of
        [] \<Rightarrow> None
      | Ready n # rs' \<Rightarrow>
          (let k = recv_count n len s in
           if k > 0
           then map_option (\<lambda>(ok, b, t). (ok, take k s @ b, t)) (recv_all (len - k) (drop k s) rs')
           else Some (False, [], s))
      | Again rc # rs' \<Rightarrow> (if rc \<le> 0 then Some (False, [], s) else recv_all len s rs')
      | Fail # rs' \<Rightarrow> Some (False, [], s))"

declare send_all.simps [simp del] recv_all.simps [simp del]

text \<open>\<^verbatim>\<open>connect_with_timeout\<close>: the results of the system calls it makes, in the order it makes
  them, and the calls that open or close a descriptor.\<close>

datatype hostent = No_host | Host_other | Host_inet

record connect_env =
  ce_socket :: int
  ce_pton :: int
  ce_hostent :: hostent
  ce_connect :: int
  ce_in_progress :: bool
  ce_select :: int
  ce_getsockopt :: int
  ce_so_error :: int

datatype fd_call = Open_fd int | Close_fd int

definition connect_with_timeout :: "connect_env \<Rightarrow> int \<times> fd_call list" where
  "connect_with_timeout e =
     (let sock = ce_socket e in
      if sock < 0 then (-1, [])
      else if ce_pton e \<le> 0 \<and> ce_hostent e \<noteq> Host_inet then (-1, [Open_fd sock, Close_fd sock])
      else if ce_connect e < 0 then
        (if ce_in_progress e then
           (if ce_select e \<le> 0 then (-1, [Open_fd sock, Close_fd sock])
            else if ce_getsockopt e < 0 \<or> ce_so_error e \<noteq> 0 then (-1, [Open_fd sock, Close_fd sock])
            else (sock, [Open_fd sock]))
         else (-1, [Open_fd sock, Close_fd sock]))
      else (sock, [Open_fd sock]))"

definition parse_address :: "int \<Rightarrow> string \<Rightarrow> string \<times> int" where
  "parse_address default_port addr =
     (case find_char (CHR '':'') addr of
        None \<Rightarrow> (addr, default_port)
      | Some pos \<Rightarrow>
          (take pos addr,
           case stoi (drop (pos + 1) addr) of Inl _ \<Rightarrow> default_port | Inr port \<Rightarrow> port))"

section \<open>Byte order\<close>

text \<open>The four bytes \<^verbatim>\<open>htonl(x)\<close> occupies in memory, and \<^verbatim>\<open>ntohl\<close> of four bytes read.\<close>

definition htonl_bytes :: "32 word \<Rightarrow> byte list" where
  "htonl_bytes x = [ucast (drop_bit 24 x), ucast (drop_bit 16 x), ucast (drop_bit 8 x), ucast x]"

definition ntohl_bytes :: "byte list \<Rightarrow> 32 word" where
  "ntohl_bytes bs = push_bit 24 (ucast (bs ! 0)) OR push_bit 16 (ucast (bs ! 1))
     OR push_bit 8 (ucast (bs ! 2)) OR ucast (bs ! 3)"

lemma length_htonl [simp]: "length (htonl_bytes x) = 4"
  by (simp add: htonl_bytes_def)

section \<open>Lemmas\<close>

lemma send_all_cases:
  "send_all [] rs = Some (True, [])"
  "p \<noteq> [] \<Longrightarrow> send_all p [] = None"
  "p \<noteq> [] \<Longrightarrow> send_all p (Ready n # rs) =
     (if n = 0 then Some (False, [])
      else map_option (\<lambda>(ok, w). (ok, take n p @ w)) (send_all (drop n p) rs))"
  "p \<noteq> [] \<Longrightarrow> send_all p (Again rc # rs) = (if rc \<le> 0 then Some (False, []) else send_all p rs)"
  "p \<noteq> [] \<Longrightarrow> send_all p (Fail # rs) = Some (False, [])"
  by (subst send_all.simps; simp add: Let_def min_def)+

lemma recv_all_cases:
  "recv_all 0 s rs = Some (True, [], s)"
  "len > 0 \<Longrightarrow> recv_all len s [] = None"
  "len > 0 \<Longrightarrow> recv_all len s (Ready n # rs) =
     (let k = recv_count n len s in
      if k > 0
      then map_option (\<lambda>(ok, b, t). (ok, take k s @ b, t)) (recv_all (len - k) (drop k s) rs)
      else Some (False, [], s))"
  "len > 0 \<Longrightarrow> recv_all len s (Again rc # rs) =
     (if rc \<le> 0 then Some (False, [], s) else recv_all len s rs)"
  "len > 0 \<Longrightarrow> recv_all len s (Fail # rs) = Some (False, [], s)"
  by (simp_all add: recv_all.simps [of 0] recv_all.simps [of len s "[]"]
      recv_all.simps [of len s "Ready n # rs"] recv_all.simps [of len s "Again rc # rs"]
      recv_all.simps [of len s "Fail # rs"])

lemma recv_count_le: "recv_count n len s \<le> len" "recv_count n len s \<le> length s"
  by (simp_all add: recv_count_def)

text \<open>What was put on the wire is a prefix of the buffer, all of it exactly on success.\<close>

lemma take_drop_whole: "take k p @ w = p \<longleftrightarrow> w = drop k p"
  by (metis append_take_drop_id same_append_eq)

lemma send_all_wire:
  "send_all p rs = Some (ok, w) \<Longrightarrow> (\<exists>n. w = take n p) \<and> (ok \<longleftrightarrow> w = p)"
proof (induction rs arbitrary: p w)
  case Nil
  then show ?case by (cases "p = []") (auto simp: send_all_cases)
next
  case (Cons r rs)
  show ?case
  proof (cases "p = [] \<or> r = Ready 0 \<or> r = Fail \<or> (\<exists>rc. r = Again rc)")
    case True
    then show ?thesis
      using Cons by (cases "p = []"; cases r) (auto simp: send_all_cases split: if_splits)
  next
    case False
    then obtain n where n: "r = Ready n" "n \<noteq> 0" "p \<noteq> []" by (cases r) auto
    then obtain w' where w': "send_all (drop n p) rs = Some (ok, w')" "w = take n p @ w'"
      using Cons.prems by (auto simp: send_all_cases)
    obtain j where j: "w' = take j (drop n p)" "ok \<longleftrightarrow> w' = drop n p"
      using Cons.IH [OF w'(1)] by blast
    have "w = take (n + j) p" by (simp add: w'(2) j(1) take_add)
    then show ?thesis using j(2) take_drop_whole [of n p w'] w'(2) by metis
  qed
qed

text \<open>What a receive has stored and what it leaves in the stream make up the stream; on success
  the buffer is full.\<close>

lemma recv_all_stream:
  "recv_all len s rs = Some (ok, b, t) \<Longrightarrow> s = b @ t \<and> length b \<le> len \<and> (ok \<longleftrightarrow> length b = len)"
proof (induction rs arbitrary: len s b t)
  case Nil
  then show ?case by (cases "len = 0") (auto simp: recv_all_cases)
next
  case (Cons r rs)
  define k where "k n = recv_count n len s" for n
  show ?case
  proof (cases "len = 0 \<or> r = Fail \<or> (\<exists>rc. r = Again rc) \<or> (\<exists>n. r = Ready n \<and> k n = 0)")
    case True
    then show ?thesis
      using Cons by (cases "len = 0"; cases r) (auto simp: recv_all_cases k_def Let_def split: if_splits)
  next
    case False
    then obtain n where n: "r = Ready n" "k n \<noteq> 0" "len > 0" by (cases r) auto
    then obtain b' where b': "recv_all (len - k n) (drop (k n) s) rs = Some (ok, b', t)" "b = take (k n) s @ b'"
      using Cons.prems by (auto simp: recv_all_cases k_def Let_def)
    have "drop (k n) s = b' @ t \<and> length b' \<le> len - k n \<and> (ok \<longleftrightarrow> length b' = len - k n)"
      by (rule Cons.IH [OF b'(1)])
    moreover have "k n \<le> len" "k n \<le> length s" by (simp_all add: k_def recv_count_le)
    moreover have "s = take (k n) s @ drop (k n) s" by simp
    ultimately have "s = take (k n) s @ b' @ t" by simp
    then show ?thesis using \<open>_ \<and> _ \<and> _\<close> \<open>k n \<le> len\<close> \<open>k n \<le> length s\<close> by (auto simp: b'(2))
  qed
qed

text \<open>A kernel that keeps making progress lets both loops finish: enough calls that move at
  least one byte, with any number of successful waits between them.\<close>

definition progress :: "io_res list \<Rightarrow> nat" where
  "progress rs = length (filter (\<lambda>r. \<exists>n. r = Ready (Suc n)) rs)"

definition no_failure :: "io_res list \<Rightarrow> bool" where
  "no_failure rs \<longleftrightarrow> (\<forall>r \<in> set rs. case r of Ready n \<Rightarrow> 0 < n | Again rc \<Rightarrow> 0 < rc | Fail \<Rightarrow> False)"

lemma send_all_completes:
  "no_failure rs \<Longrightarrow> length p \<le> progress rs \<Longrightarrow> send_all p rs = Some (True, p)"
proof (induction rs arbitrary: p)
  case (Cons r rs)
  then show ?case
    by (cases "p = []"; cases r)
      (auto simp: send_all_cases no_failure_def progress_def gr0_conv_Suc)
qed (simp add: send_all_cases progress_def)

lemma recv_all_completes:
  "no_failure rs \<Longrightarrow> len \<le> length s \<Longrightarrow> len \<le> progress rs \<Longrightarrow>
   recv_all len s rs = Some (True, take len s, drop len s)"
proof (induction rs arbitrary: len s)
  case (Cons r rs)
  show ?case
  proof (cases "len > 0 \<and> (\<exists>n. r = Ready n)")
    case True
    then obtain n where r: "r = Ready n" and n: "n > 0"
      using Cons.prems(1) by (auto simp: no_failure_def)
    define k where "k = recv_count n len s"
    have k: "0 < k" "k \<le> len" "k \<le> length s"
      using True n Cons.prems(2) by (auto simp: k_def recv_count_def)
    have "progress (r # rs) = Suc (progress rs)" using n by (auto simp: progress_def r gr0_conv_Suc)
    then have "recv_all (len - k) (drop k s) rs = Some (True, take (len - k) (drop k s), drop (len - k) (drop k s))"
      using Cons.prems k by (intro Cons.IH) (auto simp: no_failure_def)
    then show ?thesis
      using True k by (simp add: recv_all_cases r k_def [symmetric] take_add [symmetric])
  next
    case False
    then show ?thesis
      using Cons by (cases "len = 0"; cases r) (auto simp: recv_all_cases no_failure_def progress_def)
  qed
qed (simp add: recv_all_cases progress_def)

lemma ntohl_htonl [simp]: "ntohl_bytes (htonl_bytes x) = x"
proof (rule bit_word_eqI)
  fix i :: nat
  assume "i < LENGTH(32)"
  then consider "i < 8" | "8 \<le> i" "i < 16" | "16 \<le> i" "i < 24" | "24 \<le> i" "i < 32" by force
  then show "bit (ntohl_bytes (htonl_bytes x)) i = bit x i"
    by cases (auto simp: ntohl_bytes_def htonl_bytes_def bit_simps)
qed

lemma parse_address_print:
  "CHR '':'' \<notin> set host \<Longrightarrow> in_int port \<Longrightarrow>
   parse_address d (host @ '':'' @ show_int port) = (host, port)"
  by (simp add: parse_address_def find_char_append stoi_show_int)

section \<open>Properties\<close>

text \<open>C30. A buffer sent with \<^verbatim>\<open>send_all\<close> and read back with \<^verbatim>\<open>recv_all\<close> from the stream that
  starts with what was sent arrives unchanged, and the rest of the stream is untouched, however
  the kernel splits either side into partial transfers and waits.\<close>

theorem send_recv_roundtrip:
  assumes "send_all data rs = Some (True, wire)"
    and "recv_all (length data) (wire @ rest) rs' = Some (True, got, left)"
  shows "got = data \<and> left = rest"
proof -
  have "wire = data" "wire @ rest = got @ left" "length got = length data"
    using send_all_wire [OF assms(1)] recv_all_stream [OF assms(2)] by blast+
  then show ?thesis by (metis append_eq_append_conv)
qed

theorem send_recv_roundtrip_witness:
  "send_all [1, 2, 3] [Ready 2, Again 1, Ready 9] = Some (True, [1, 2, 3]) \<and>
   recv_all 3 [1, 2, 3, 4] [Ready 1, Ready 1, Again 1, Ready 5] = Some (True, [1, 2, 3], [4])"
proof -
  have s: "send_all [1, 2, 3] [Ready 2, Again 1, Ready 9] = Some (True, [1, 2, 3])"
    by (simp add: send_all_cases)
  have r: "\<exists>got left. recv_all 3 [1, 2, 3, 4] [Ready 1, Ready 1, Again 1, Ready 5] = Some (True, got, left)"
    by (simp add: recv_all_cases recv_count_def)
  then show ?thesis using s send_recv_roundtrip [OF s, of "[4]"] by (auto simp: numeral_3_eq_3)
qed

text \<open>Partial writes never corrupt the stream: whatever the kernel does, the bytes on the
  wire are a prefix of the buffer, and \<^verbatim>\<open>send_all\<close> reports success exactly when all of it went
  out.  It does finish with success when no call fails and at least as many calls make progress as
  there are bytes.\<close>

theorem send_all_correct:
  "(send_all p rs = Some (ok, w) \<longrightarrow> (\<exists>n. w = take n p) \<and> (ok \<longleftrightarrow> w = p)) \<and>
   (no_failure rs \<and> length p \<le> progress rs \<longrightarrow> send_all p rs = Some (True, p))"
  using send_all_wire send_all_completes by blast

theorem send_all_correct_witness:
  "send_all [7, 8] [Again 1, Ready 1, Ready 1] = Some (True, [7, 8])"
  using send_all_correct [of "[7, 8]" "[Again 1, Ready 1, Ready 1]" True "[7, 8]"]
  by (simp add: no_failure_def progress_def)

text \<open>\<^verbatim>\<open>connect_with_timeout\<close> leaks no descriptor: it returns -1 exactly when every descriptor it
  opened has been closed again, and otherwise returns the one descriptor it left open.\<close>

theorem connect_no_leak:
  assumes "ce_socket e \<ge> -1"
  shows "case connect_with_timeout e of (fd, calls) \<Rightarrow>
     (fd = -1 \<longleftrightarrow> (\<forall>s. Open_fd s \<in> set calls \<longrightarrow> Close_fd s \<in> set calls)) \<and>
     (fd \<noteq> -1 \<longrightarrow> fd = ce_socket e \<and> calls = [Open_fd fd])"
  using assms by (simp add: connect_with_timeout_def Let_def)

theorem connect_no_leak_witness:
  "connect_with_timeout \<lparr>ce_socket = 5, ce_pton = 1, ce_hostent = No_host, ce_connect = -1,
     ce_in_progress = True, ce_select = 0, ce_getsockopt = 0, ce_so_error = 0\<rparr>
     = (-1, [Open_fd 5, Close_fd 5])"
  using connect_no_leak [of "\<lparr>ce_socket = 5, ce_pton = 1, ce_hostent = No_host, ce_connect = -1,
     ce_in_progress = True, ce_select = 0, ce_getsockopt = 0, ce_so_error = 0\<rparr>"]
  by (simp add: connect_with_timeout_def)

end
