(* ===== verification/Messages.thy ===== *)
theory Messages
  imports Net_Utils Complex_Main
begin

text \<open>
  The messages of \<^verbatim>\<open>src/proto/v1/file_transfer.proto\<close> and the frames that carry them between head
  and cluster servers.  The protobuf runtime is a parameter: a \<open>codec\<close> holds its serialisers and
  parsers, and the predicates below state the documented round trip for the messages a property
  needs.  The concrete \<open>field_codec\<close> shows that such a codec exists.
\<close>

record chunk_msg =
  cm_id :: string
  cm_filename :: string
  cm_data :: "byte list"

record chunk_resp =
  xr_ok :: bool
  xr_id :: string
  xr_error :: string
  xr_path :: string

record fetch_msg =
  fm_id :: string
  fm_path :: string

record fetch_resp =
  fr_ok :: bool
  fr_id :: string
  fr_data :: "byte list"
  fr_error :: string

record hash_resp =
  hr_ok :: bool
  hr_id :: string
  hr_hash :: string
  hr_error :: string
  hr_load :: rat
  hr_active :: int

record repl_msg =
  rm_id :: string
  rm_target_ip :: string
  rm_target_port :: int
  rm_target_transfer_port :: int
  rm_filename :: string

record repl_resp =
  rr_ok :: bool
  rr_error :: string
  rr_path :: string

record codec =
  enc_chunk :: "chunk_msg \<Rightarrow> byte list"
  dec_chunk :: "byte list \<Rightarrow> chunk_msg option"
  enc_chunk_resp :: "chunk_resp \<Rightarrow> byte list"
  dec_chunk_resp :: "byte list \<Rightarrow> chunk_resp option"
  enc_fetch :: "fetch_msg \<Rightarrow> byte list"
  dec_fetch :: "byte list \<Rightarrow> fetch_msg option"
  enc_fetch_resp :: "fetch_resp \<Rightarrow> byte list"
  dec_fetch_resp :: "byte list \<Rightarrow> fetch_resp option"
  enc_fetch_hash :: "fetch_msg \<Rightarrow> byte list"
  dec_fetch_hash :: "byte list \<Rightarrow> fetch_msg option"
  enc_hash_resp :: "hash_resp \<Rightarrow> byte list"
  dec_hash_resp :: "byte list \<Rightarrow> hash_resp option"
  partial_hash_resp :: "byte list \<Rightarrow> hash_resp"
  enc_repl :: "repl_msg \<Rightarrow> byte list"
  dec_repl :: "byte list \<Rightarrow> repl_msg option"
  enc_repl_resp :: "repl_resp \<Rightarrow> byte list"
  dec_repl_resp :: "byte list \<Rightarrow> repl_resp option"

text \<open>Parsing what was serialised gives the message back.\<close>

definition codec_ok :: "codec \<Rightarrow> bool" where
  "codec_ok k \<longleftrightarrow> (\<forall>m. dec_chunk k (enc_chunk k m) = Some m) \<and>
     (\<forall>m. dec_chunk_resp k (enc_chunk_resp k m) = Some m) \<and>
     (\<forall>m. dec_fetch k (enc_fetch k m) = Some m) \<and>
     (\<forall>m. dec_fetch_resp k (enc_fetch_resp k m) = Some m) \<and>
     (\<forall>m. dec_fetch_hash k (enc_fetch_hash k m) = Some m) \<and>
     (\<forall>m. dec_hash_resp k (enc_hash_resp k m) = Some m) \<and>
     (\<forall>m. dec_repl k (enc_repl k m) = Some m) \<and>
     (\<forall>m. dec_repl_resp k (enc_repl_resp k m) = Some m)"

text \<open>\<^verbatim>\<open>ParseFromArray\<close> takes the size as an \<^verbatim>\<open>int\<close> and refuses a negative one, and \<^verbatim>\<open>SerializeToString\<close>
  refuses messages of 2 GiB or more.\<close>

definition sendable :: "byte list \<Rightarrow> bool" where
  "sendable p \<longleftrightarrow> length p < 2 ^ 31"

definition parse_from_array :: "(byte list \<Rightarrow> 'm option) \<Rightarrow> byte list \<Rightarrow> 'm option" where
  "parse_from_array dec buf = (if sendable buf then dec buf else None)"

section \<open>Frames\<close>

text \<open>\<^verbatim>\<open>htonl(type)\<close>, \<^verbatim>\<open>htonl(serialized.size())\<close> and the payload; a reply has no type.\<close>

definition reply_frame :: "byte list \<Rightarrow> byte list" where
  "reply_frame p = htonl_bytes (of_nat (length p)) @ p"

definition request_frame :: "32 word \<Rightarrow> byte list \<Rightarrow> byte list" where
  "request_frame typ p = htonl_bytes typ @ reply_frame p"

text \<open>The two \<^verbatim>\<open>recv_all\<close> calls that read a reply from what the peer sends before it closes.\<close>

definition read_reply :: "byte list \<Rightarrow> byte list option" where
  "read_reply s =
     (if length s < 4 then None
      else (let n = unat (ntohl_bytes (take 4 s)); rest = drop 4 s in
            if length rest < n then None else Some (take n rest)))"

lemma unat_length: "sendable p \<Longrightarrow> unat (of_nat (length p) :: 32 word) = length p"
  by (simp add: sendable_def unat_of_nat take_bit_nat_eq_self)

lemma read_reply_frame [simp]: "sendable p \<Longrightarrow> read_reply (reply_frame p @ rest) = Some p"
  by (simp add: read_reply_def reply_frame_def unat_length)

lemma read_reply_frame_end [simp]: "sendable p \<Longrightarrow> read_reply (reply_frame p) = Some p"
  using read_reply_frame [of p "[]"] by simp

text \<open>A reply read and parsed, as every requester does it.\<close>

definition parse_reply :: "(byte list \<Rightarrow> 'm option) \<Rightarrow> byte list \<Rightarrow> 'm option" where
  "parse_reply dec s = (case read_reply s of None \<Rightarrow> None | Some buf \<Rightarrow> parse_from_array dec buf)"

lemma parse_reply_frame [simp]: "sendable p \<Longrightarrow> parse_reply dec (reply_frame p) = dec p"
  by (simp add: parse_reply_def parse_from_array_def)

section \<open>A concrete codec\<close>

definition enc_field :: "byte list \<Rightarrow> byte list" where
  "enc_field f = concat (map (\<lambda>b. [1, b]) f) @ [0]"

definition enc_fields :: "byte list list \<Rightarrow> byte list" where
  "enc_fields fs = concat (map enc_field fs)"

fun dec_fields :: "byte list \<Rightarrow> byte list \<Rightarrow> byte list list" where
  "dec_fields acc (x # xs) =
     (if x = 0 then rev acc # dec_fields [] xs
      else case xs of [] \<Rightarrow> [] | b # ys \<Rightarrow> dec_fields (b # acc) ys)"
| "dec_fields acc [] = []"

lemma dec_enc_field: "dec_fields acc (enc_field f @ s) = (rev acc @ f) # dec_fields [] s"
  by (induction f arbitrary: acc) (simp_all add: enc_field_def)

lemma dec_enc_fields [simp]: "dec_fields [] (enc_fields fs) = fs"
  by (induction fs) (simp_all add: enc_fields_def dec_enc_field)

definition str_bytes :: "string \<Rightarrow> byte list" where
  "str_bytes s = map of_char s"

definition bytes_str :: "byte list \<Rightarrow> string" where
  "bytes_str b = map (\<lambda>x. char_of (unat x)) b"

lemma char_of_byte [simp]: "char_of (unat (of_char c :: byte)) = c"
proof -
  have "(of_char c :: byte) = of_nat (of_char c)"
    by (cases c) (simp add: horner_sum_simps)
  moreover have "(of_char c :: nat) < 256" using nat_of_char_less_256 [of c] by simp
  ultimately show ?thesis by (simp add: unat_of_nat take_bit_nat_eq_self)
qed

lemma bytes_str_bytes [simp]: "bytes_str (str_bytes s) = s"
  by (induction s) (simp_all add: bytes_str_def str_bytes_def)

lemma length_str_bytes [simp]: "length (str_bytes s) = length s"
  by (simp add: str_bytes_def)

definition bool_bytes :: "bool \<Rightarrow> byte list" where
  "bool_bytes b = (if b then [1] else [])"

lemma bool_bytes_iff [simp]: "bool_bytes b \<noteq> [] \<longleftrightarrow> b"
  by (simp add: bool_bytes_def)

definition int_bytes :: "int \<Rightarrow> byte list" where
  "int_bytes i = str_bytes (show_int i)"

definition bytes_int :: "byte list \<Rightarrow> int" where
  "bytes_int b = (case parse_number (bytes_str b) of None \<Rightarrow> 0 | Some (i, _) \<Rightarrow> i)"

lemma bytes_int_bytes [simp]: "bytes_int (int_bytes i) = i"
  by (simp add: bytes_int_def int_bytes_def parse_number_show_int_end)

lemma rat_quotient [simp]:
  "rat_of_int (fst (quotient_of r)) / rat_of_int (snd (quotient_of r)) = r"
  by (metis Fract_of_int_quotient quotient_of_div prod.collapse)

definition field_codec :: codec where
  "field_codec = \<lparr>
     enc_chunk = (\<lambda>m. enc_fields [str_bytes (cm_id m), str_bytes (cm_filename m), cm_data m]),
     dec_chunk = (\<lambda>b. case dec_fields [] b of [i, f, d] \<Rightarrow>
        Some \<lparr>cm_id = bytes_str i, cm_filename = bytes_str f, cm_data = d\<rparr> | _ \<Rightarrow> None),
     enc_chunk_resp = (\<lambda>m. enc_fields [bool_bytes (xr_ok m), str_bytes (xr_id m), str_bytes (xr_error m),
        str_bytes (xr_path m)]),
     dec_chunk_resp = (\<lambda>b. case dec_fields [] b of [k, i, e, p] \<Rightarrow>
        Some \<lparr>xr_ok = (k \<noteq> []), xr_id = bytes_str i, xr_error = bytes_str e, xr_path = bytes_str p\<rparr> | _ \<Rightarrow> None),
     enc_fetch = (\<lambda>m. enc_fields [str_bytes (fm_id m), str_bytes (fm_path m)]),
     dec_fetch = (\<lambda>b. case dec_fields [] b of [i, p] \<Rightarrow>
        Some \<lparr>fm_id = bytes_str i, fm_path = bytes_str p\<rparr> | _ \<Rightarrow> None),
     enc_fetch_resp = (\<lambda>m. enc_fields [bool_bytes (fr_ok m), str_bytes (fr_id m), fr_data m, str_bytes (fr_error m)]),
     dec_fetch_resp = (\<lambda>b. case dec_fields [] b of [k, i, d, e] \<Rightarrow>
        Some \<lparr>fr_ok = (k \<noteq> []), fr_id = bytes_str i, fr_data = d, fr_error = bytes_str e\<rparr> | _ \<Rightarrow> None),
     enc_fetch_hash = (\<lambda>m. enc_fields [str_bytes (fm_id m), str_bytes (fm_path m)]),
     dec_fetch_hash = (\<lambda>b. case dec_fields [] b of [i, p] \<Rightarrow>
        Some \<lparr>fm_id = bytes_str i, fm_path = bytes_str p\<rparr> | _ \<Rightarrow> None),
     enc_hash_resp = (\<lambda>m. enc_fields [bool_bytes (hr_ok m), str_bytes (hr_id m), str_bytes (hr_hash m),
        str_bytes (hr_error m), int_bytes (fst (quotient_of (hr_load m))),
        int_bytes (snd (quotient_of (hr_load m))), int_bytes (hr_active m)]),
     dec_hash_resp = (\<lambda>b. case dec_fields [] b of [k, i, h, e, n, d, a] \<Rightarrow>
        Some \<lparr>hr_ok = (k \<noteq> []), hr_id = bytes_str i, hr_hash = bytes_str h, hr_error = bytes_str e,
          hr_load = rat_of_int (bytes_int n) / rat_of_int (bytes_int d), hr_active = bytes_int a\<rparr> | _ \<Rightarrow> None),
     partial_hash_resp = (\<lambda>b. \<lparr>hr_ok = False, hr_id = [], hr_hash = [], hr_error = [], hr_load = 0, hr_active = 0\<rparr>),
     enc_repl = (\<lambda>m. enc_fields [str_bytes (rm_id m), str_bytes (rm_target_ip m), int_bytes (rm_target_port m),
        int_bytes (rm_target_transfer_port m), str_bytes (rm_filename m)]),
     dec_repl = (\<lambda>b. case dec_fields [] b of [i, t, p, q, f] \<Rightarrow>
        Some \<lparr>rm_id = bytes_str i, rm_target_ip = bytes_str t, rm_target_port = bytes_int p,
          rm_target_transfer_port = bytes_int q, rm_filename = bytes_str f\<rparr> | _ \<Rightarrow> None),
     enc_repl_resp = (\<lambda>m. enc_fields [bool_bytes (rr_ok m), str_bytes (rr_error m), str_bytes (rr_path m)]),
     dec_repl_resp = (\<lambda>b. case dec_fields [] b of [k, e, p] \<Rightarrow>
        Some \<lparr>rr_ok = (k \<noteq> []), rr_error = bytes_str e, rr_path = bytes_str p\<rparr> | _ \<Rightarrow> None)\<rparr>"

lemma field_codec_ok: "codec_ok field_codec"
  by (simp add: codec_ok_def field_codec_def)

end
