(* ===== verification/Server_Registry.thy ===== *)
theory Server_Registry
  imports Cxx_Prelude Transition_System
begin

text \<open>
  The dynamic server registry of \<^verbatim>\<open>src/common/include/dfg/server_registry.hpp\<close>.  The member
  \<^verbatim>\<open>servers_\<close> is a \<^verbatim>\<open>std::map<int, ServerEntry>\<close>; \<^verbatim>\<open>next_id_\<close> is an atomic 32-bit counter, so
  its increment wraps; the change callback is the list of events an operation hands to it, empty
  when none is installed.  The mutex makes each operation one step.
\<close>

record server_entry =
  se_id :: int
  se_host :: string
  se_port :: int
  se_transfer_port :: int
  se_public_port :: int
  se_status :: string
  se_registered_at :: int

record registry =
  servers :: "(int \<times> server_entry) list"
  next_id :: int
  change_cb :: bool

type_synonym registry_event = "server_entry \<times> bool"

definition address :: "server_entry \<Rightarrow> string" where
  "address e = se_host e @ '':'' @ show_int (se_port e)"

definition new_registry :: registry where
  "new_registry = \<lparr>servers = [], next_id = 1, change_cb = False\<rparr>"

definition add_server ::
  "int \<Rightarrow> string \<Rightarrow> int \<Rightarrow> int \<Rightarrow> int \<Rightarrow> registry \<Rightarrow> registry \<times> int \<times> registry_event list" where
  "add_server now host port transfer_port public_port r =
     (case find (\<lambda>(_, e). se_host e = host \<and> se_port e = port) (servers r) of
        Some (existing_id, _) \<Rightarrow> (r, existing_id, [])
      | None \<Rightarrow>
          (let i = next_id r;
               e = \<lparr>se_id = i, se_host = host, se_port = port, se_transfer_port = transfer_port,
                    se_public_port = public_port, se_status = ''active'', se_registered_at = now\<rparr>
           in (r\<lparr>servers := omap_upd i e (servers r), next_id := wrap_int (i + 1)\<rparr>, i,
               if change_cb r then [(e, True)] else [])))"

definition remove_server :: "int \<Rightarrow> registry \<Rightarrow> registry \<times> bool \<times> registry_event list" where
  "remove_server i r =
     (case map_of (servers r) i of
        None \<Rightarrow> (r, False, [])
      | Some e \<Rightarrow> (r\<lparr>servers := omap_del i (servers r)\<rparr>, True,
                   if change_cb r then [(e, False)] else []))"

definition get_addresses :: "registry \<Rightarrow> string list" where
  "get_addresses r = [address e. (_, e) \<leftarrow> servers r, se_status e = ''active'']"

definition get_all :: "registry \<Rightarrow> server_entry list" where
  "get_all r = map snd (servers r)"

definition set_next_id :: "int \<Rightarrow> registry \<Rightarrow> registry" where
  "set_next_id i r = r\<lparr>next_id := i\<rparr>"

definition count_servers :: "registry \<Rightarrow> int" where
  "count_servers r = wrap_int (int (length (servers r)))"

definition set_change_callback :: "bool \<Rightarrow> registry \<Rightarrow> registry" where
  "set_change_callback cb r = r\<lparr>change_cb := cb\<rparr>"

text \<open>\<^verbatim>\<open>load_from_config\<close>: an exception of \<^verbatim>\<open>std::stoi\<close> leaves the loop, and the servers added
  before it stay.  \<open>clk\<close> is the clock read by each successive call of \<^verbatim>\<open>add_server\<close>.\<close>

fun load_from_config ::
  "(nat \<Rightarrow> int) \<Rightarrow> string list \<Rightarrow> registry \<Rightarrow> registry \<times> cxx_exn option \<times> registry_event list" where
  "load_from_config clk [] r = (r, None, [])"
| "load_from_config clk (addr # addrs) r =
     (case find_char (CHR '':'') addr of
        None \<Rightarrow> load_from_config clk addrs r
      | Some pos \<Rightarrow>
          (case stoi (drop (pos + 1) addr) of
             Inl exn \<Rightarrow> (r, Some exn, [])
           | Inr port \<Rightarrow>
               (let (r1, _, ev1) = add_server (clk 0) (take pos addr) port (-1) (-1) r;
                    (r2, exn, ev2) = load_from_config (\<lambda>n. clk (Suc n)) addrs r1
                in (r2, exn, ev1 @ ev2))))"

section \<open>The invariant\<close>

text \<open>An entry carries the key it is stored under, no two entries have the same host and port,
  and the counter is above every key in use, so the next identifier is fresh.\<close>

definition registry_inv :: "registry \<Rightarrow> bool" where
  "registry_inv r \<longleftrightarrow>
     omap_wf (servers r) \<and>
     (\<forall>(i, e) \<in> set (servers r). se_id e = i \<and> se_status e = ''active'' \<and> i < next_id r) \<and>
     distinct (map (\<lambda>(_, e). (se_host e, se_port e)) (servers r))"

definition has_address :: "string \<Rightarrow> int \<Rightarrow> registry \<Rightarrow> bool" where
  "has_address host port r \<longleftrightarrow> (\<exists>(i, e) \<in> set (servers r). se_host e = host \<and> se_port e = port)"

lemma registry_inv_new [simp]: "registry_inv new_registry"
  by (simp add: registry_inv_def new_registry_def)

lemma omap_upd_max:
  "omap_wf m \<Longrightarrow> \<forall>x \<in> fst ` set m. x < k \<Longrightarrow> omap_upd k v m = m @ [(k, v)]"
  by (induction m) (auto simp: omap_wf_Cons)

lemma find_address_None:
  "find (\<lambda>(_, e). se_host e = host \<and> se_port e = port) (servers r) = None \<longleftrightarrow> \<not> has_address host port r"
  by (auto simp: find_None_iff has_address_def)

lemma add_server_dup:
  assumes "has_address host port r"
  obtains i e where "add_server now host port tp pp r = (r, i, [])" "(i, e) \<in> set (servers r)"
    "se_host e = host" "se_port e = port"
proof -
  from assms obtain i e
    where "find (\<lambda>(_, e). se_host e = host \<and> se_port e = port) (servers r) = Some (i, e)"
    using find_address_None [of host port r] by fastforce
  then show ?thesis
    using that find_SomeD by (fastforce simp: add_server_def)
qed

lemma add_server_new:
  assumes "\<not> has_address host port r"
  shows "add_server now host port tp pp r =
    (let e = \<lparr>se_id = next_id r, se_host = host, se_port = port, se_transfer_port = tp,
              se_public_port = pp, se_status = ''active'', se_registered_at = now\<rparr>
     in (r\<lparr>servers := omap_upd (next_id r) e (servers r), next_id := wrap_int (next_id r + 1)\<rparr>,
         next_id r, if change_cb r then [(e, True)] else []))"
  using assms find_address_None [of host port r] by (simp add: add_server_def Let_def)

lemma registry_inv_add:
  assumes inv: "registry_inv r" and room: "int_min \<le> next_id r" "next_id r < int_max"
  shows "registry_inv (fst (add_server now host port tp pp r))"
proof (cases "has_address host port r")
  case True
  then obtain i where "add_server now host port tp pp r = (r, i, [])"
    by (rule add_server_dup)
  then show ?thesis using inv by simp
next
  case False
  have wf: "omap_wf (servers r)" and keys: "\<forall>x \<in> fst ` set (servers r). x < next_id r"
    using inv by (auto simp: registry_inv_def)
  have w: "wrap_int (next_id r + 1) = next_id r + 1"
    using room by (intro wrap_int_id) (simp add: in_int_def)
  show ?thesis
    using inv False
    by (fastforce simp: add_server_new registry_inv_def Let_def omap_upd_max [OF wf keys] w
        has_address_def omap_wf_def sorted_wrt_append)
qed

lemma registry_inv_remove: "registry_inv r \<Longrightarrow> registry_inv (fst (remove_server i r))"
  by (auto simp: remove_server_def registry_inv_def omap_del_def omap_wf_del [unfolded omap_del_def]
      distinct_map_filter split: option.splits)

lemma registry_inv_set_next_id:
  "registry_inv r \<Longrightarrow> next_id r \<le> i \<Longrightarrow> registry_inv (set_next_id i r)"
  by (fastforce simp: registry_inv_def set_next_id_def)

section \<open>Runs of the registry\<close>

datatype registry_cmd =
    Add_server int string int int int
  | Remove_server int
  | Set_next_id int

fun registry_exec :: "registry_cmd \<Rightarrow> registry \<Rightarrow> registry \<times> registry_event list" where
  "registry_exec (Add_server now host port tp pp) r =
     (let (r', _, ev) = add_server now host port tp pp r in (r', ev))"
| "registry_exec (Remove_server i) r = (let (r', _, ev) = remove_server i r in (r', ev))"
| "registry_exec (Set_next_id i) r = (set_next_id i r, [])"

fun registry_run :: "registry_cmd list \<Rightarrow> registry \<Rightarrow> registry \<times> registry_event list" where
  "registry_run [] r = (r, [])"
| "registry_run (c # cs) r =
     (let (r1, ev1) = registry_exec c r; (r2, ev2) = registry_run cs r1 in (r2, ev1 @ ev2))"

text \<open>A command is in contract when an addition still has an identifier to hand out and the
  counter is never moved down.\<close>

fun registry_ok :: "registry \<Rightarrow> registry_cmd \<Rightarrow> bool" where
  "registry_ok r (Add_server _ _ _ _ _) = (next_id r < int_max)"
| "registry_ok r (Remove_server _) = True"
| "registry_ok r (Set_next_id i) = (next_id r \<le> i)"

definition registry_trans :: "registry \<Rightarrow> registry \<Rightarrow> bool" where
  "registry_trans r r' \<longleftrightarrow> (\<exists>c. registry_ok r c \<and> r' = fst (registry_exec c r))"

lemma next_id_remove [simp]: "next_id (fst (remove_server i r)) = next_id r"
  by (auto simp: remove_server_def split: option.splits)

lemma next_id_add:
  "int_min \<le> next_id r \<Longrightarrow> next_id r < int_max \<Longrightarrow>
   next_id r \<le> next_id (fst (add_server now host port tp pp r))"
  by (cases "has_address host port r")
    (auto simp: add_server_new Let_def in_int_def elim: add_server_dup [of host port r now tp pp])

lemma registry_exec_inv:
  assumes "registry_inv r" "1 \<le> next_id r" "registry_ok r c"
  shows "registry_inv (fst (registry_exec c r)) \<and> 1 \<le> next_id (fst (registry_exec c r))"
proof (cases c)
  case (Add_server now host port tp pp)
  have "int_min \<le> next_id r" using assms(2) by (simp add: int_min_def)
  then show ?thesis
    using Add_server assms registry_inv_add [of r now host port tp pp]
      next_id_add [of r now host port tp pp]
    by (auto simp: split_beta)
next
  case (Remove_server i)
  then show ?thesis
    using assms registry_inv_remove [of r i] by (simp add: split_beta)
next
  case (Set_next_id i)
  then show ?thesis
    using assms registry_inv_set_next_id [of r i] by (simp add: set_next_id_def)
qed

interpretation registry_runs: inductive_invariant "\<lambda>r. r = new_registry" registry_trans
  "\<lambda>r. registry_inv r \<and> 1 \<le> next_id r"
  by unfold_locales
    (simp add: new_registry_def registry_inv_def, use registry_exec_inv in \<open>auto simp: registry_trans_def\<close>)

text \<open>Self-registration sets the counter to a value the registering server chooses, which may be below the identifiers in
  use.  What holds of every run, with the counter moved anywhere:\<close>

definition registry_wf :: "registry \<Rightarrow> bool" where
  "registry_wf r \<longleftrightarrow> omap_wf (servers r) \<and>
     (\<forall>i e. map_of (servers r) i = Some e \<longrightarrow> se_id e = i \<and> se_status e = ''active'') \<and>
     (\<forall>i j e e'. map_of (servers r) i = Some e \<and> map_of (servers r) j = Some e' \<and>
        se_host e = se_host e' \<and> se_port e = se_port e' \<longrightarrow> i = j)"

definition registry_step :: "registry \<Rightarrow> registry \<Rightarrow> bool" where
  "registry_step r r' \<longleftrightarrow> (\<exists>c. r' = fst (registry_exec c r))"

lemma registry_wf_add:
  assumes "registry_wf r"
  shows "registry_wf (fst (add_server now host port tp pp r))"
proof (cases "has_address host port r")
  case True
  then obtain i where "add_server now host port tp pp r = (r, i, [])"
    by (rule add_server_dup)
  then show ?thesis using assms by simp
next
  case False
  then have no: "se_host e \<noteq> host \<or> se_port e \<noteq> port" if "map_of (servers r) i = Some e" for i e
    using map_of_SomeD [OF that] by (auto simp: has_address_def)
  have wf: "omap_wf (servers r)" using assms by (simp add: registry_wf_def)
  show ?thesis
    using assms no unfolding add_server_new [OF False] Let_def fst_conv registry_wf_def
    by (auto simp: omap_wf_upd [OF wf] split: if_splits)
qed

lemma registry_wf_remove: "registry_wf r \<Longrightarrow> registry_wf (fst (remove_server i r))"
  by (auto simp: remove_server_def registry_wf_def split: option.splits if_splits)

interpretation registry_steps: inductive_invariant "\<lambda>r. r = new_registry" registry_step registry_wf
proof unfold_locales
  fix r r' assume "registry_wf r" "registry_step r r'"
  then obtain c where "registry_wf r" "r' = fst (registry_exec c r)" by (auto simp: registry_step_def)
  then show "registry_wf r'"
    using registry_wf_add registry_wf_remove
    by (cases c) (simp_all add: split_beta set_next_id_def registry_wf_def [of "r\<lparr>next_id := _\<rparr>"] registry_wf_def [of r])
qed (simp add: new_registry_def registry_wf_def)

text \<open>What a listener that applies every change event holds.\<close>

fun apply_event :: "registry_event \<Rightarrow> (int \<rightharpoonup> server_entry) \<Rightarrow> int \<rightharpoonup> server_entry" where
  "apply_event (e, True) m = m(se_id e \<mapsto> e)"
| "apply_event (e, False) m = m(se_id e := None)"

definition keyed :: "registry \<Rightarrow> bool" where
  "keyed r \<longleftrightarrow> omap_wf (servers r) \<and> change_cb r \<and> (\<forall>i e. map_of (servers r) i = Some e \<longrightarrow> se_id e = i)"

lemma registry_exec_replay:
  assumes "keyed r"
  shows "keyed (fst (registry_exec c r)) \<and>
    map_of (servers (fst (registry_exec c r))) =
      fold apply_event (snd (registry_exec c r)) (map_of (servers r))"
  using assms
  by (cases c)
    (auto simp: keyed_def add_server_def remove_server_def set_next_id_def Let_def
      split: option.splits)

lemma registry_run_replay:
  assumes "keyed r"
  shows "map_of (servers (fst (registry_run cs r))) =
    fold apply_event (snd (registry_run cs r)) (map_of (servers r))"
  using assms
proof (induction cs arbitrary: r)
  case (Cons c cs)
  then show ?case
    using registry_exec_replay [of r c] by (simp add: split_beta fold_append)
qed simp

section \<open>Properties\<close>

text \<open>C22. In every registry reachable from the empty one by additions, removals and arbitrary settings of the counter,
  entries are stored under their own identifier and no two of them share host and port.  If the counter was never moved
  down and never ran out, the next identifier handed out is unused.\<close>

theorem registry_reachable_inv:
  assumes "reach (\<lambda>r. r = new_registry) registry_step r"
  shows "registry_wf r \<and>
    (reach (\<lambda>r. r = new_registry) registry_trans r \<longrightarrow> next_id r \<notin> dom (map_of (servers r)))"
proof -
  have "next_id r \<notin> dom (map_of (servers r))" if "reach (\<lambda>r. r = new_registry) registry_trans r"
    using registry_runs.reach_inv [OF that] by (auto simp: registry_inv_def dest!: map_of_SomeD)
  then show ?thesis using registry_steps.reach_inv [OF assms] by blast
qed

theorem registry_reachable_inv_witness:
  "registry_wf (fst (add_server 6 ''10.0.0.2'' 8080 (-1) (-1)
     (set_next_id 1 (fst (add_server 5 ''10.0.0.1'' 8080 (-1) (-1) new_registry)))))"
proof -
  let ?r1 = "fst (add_server 5 ''10.0.0.1'' 8080 (-1) (-1) new_registry)"
  have "registry_step new_registry ?r1" "registry_step ?r1 (set_next_id 1 ?r1)"
    "registry_step (set_next_id 1 ?r1) (fst (add_server 6 ''10.0.0.2'' 8080 (-1) (-1) (set_next_id 1 ?r1)))"
    unfolding registry_step_def
    by (rule exI [of _ "Add_server 5 ''10.0.0.1'' 8080 (-1) (-1)"], simp add: split_beta,
        rule exI [of _ "Set_next_id 1"], simp,
        rule exI [of _ "Add_server 6 ''10.0.0.2'' 8080 (-1) (-1)"], simp add: split_beta)
  note step = this
  let ?R = "reach (\<lambda>r. r = new_registry) registry_step"
  have go: "?R a \<Longrightarrow> registry_step a b \<Longrightarrow> ?R b" for a b by (rule reach_step)
  have "?R new_registry" by (rule reach_init) (rule refl)
  then have "?R ?r1" by (rule go) (rule step(1))
  then have "?R (set_next_id 1 ?r1)" by (rule go) (rule step(2))
  then have "?R (fst (add_server 6 ''10.0.0.2'' 8080 (-1) (-1) (set_next_id 1 ?r1)))" by (rule go) (rule step(3))
  then show ?thesis by (rule registry_reachable_inv [THEN conjunct1])
qed

text \<open>\<^verbatim>\<open>add_server\<close> returns an identifier under which the address is registered, leaves every
  other entry alone, and is idempotent: asking again for the same host and port, with whatever
  other ports, returns the same identifier and changes nothing.\<close>

theorem add_server_idempotent:
  assumes inv: "registry_inv r" and room: "int_min \<le> next_id r" "next_id r < int_max"
    and add: "add_server now host port tp pp r = (r', i, ev)"
  shows "(\<exists>e. map_of (servers r') i = Some e \<and> se_host e = host \<and> se_port e = port)
    \<and> (\<forall>j. j \<noteq> i \<longrightarrow> map_of (servers r') j = map_of (servers r) j)
    \<and> add_server now' host port tp' pp' r' = (r', i, [])"
proof -
  have inv': "registry_inv r'"
    using registry_inv_add [OF inv room, of now host port tp pp] add by simp
  have e: "\<exists>e. map_of (servers r') i = Some e \<and> se_host e = host \<and> se_port e = port"
    and other: "\<forall>j. j \<noteq> i \<longrightarrow> map_of (servers r') j = map_of (servers r) j"
    using add inv
    by (cases "has_address host port r";
        fastforce simp: add_server_new Let_def registry_inv_def omap_wf_map_of
          elim: add_server_dup [of host port r now tp pp])+
  then obtain e where e1: "(i, e) \<in> set (servers r')" "se_host e = host" "se_port e = port"
    by (auto dest: map_of_SomeD)
  then have "has_address host port r'" by (auto simp: has_address_def)
  then obtain j e' where j: "add_server now' host port tp' pp' r' = (r', j, [])"
    "(j, e') \<in> set (servers r')" "se_host e' = host" "se_port e' = port"
    by (rule add_server_dup)
  have "inj_on (\<lambda>(_, e). (se_host e, se_port e)) (set (servers r'))"
    using inv' by (simp add: registry_inv_def distinct_map)
  then have "(j, e') = (i, e)" using e1 j(2-) by (elim inj_onD) simp_all
  then show ?thesis using e other j(1) by simp
qed

theorem add_server_idempotent_witness:
  "\<exists>r'. add_server 5 ''h'' 80 1 2 new_registry = (r', 1, []) \<and>
     add_server 9 ''h'' 80 3 4 r' = (r', 1, [])"
  using add_server_idempotent [of new_registry 5 "''h''" 80 1 2
    "fst (add_server 5 ''h'' 80 1 2 new_registry)" 1 "[]" 9 3 4]
  by (simp add: add_server_def new_registry_def registry_inv_def int_min_def int_max_def)

text \<open>The change notifications are complete: with a callback installed, a listener that
  applies every event of any run of additions, removals and counter moves, starting from the
  contents at the time of installation, holds exactly the registry's contents.\<close>

theorem registry_events_complete:
  assumes "omap_wf (servers r)" "\<forall>i e. map_of (servers r) i = Some e \<longrightarrow> se_id e = i"
  shows "map_of (servers (fst (registry_run cs (set_change_callback True r)))) =
    fold apply_event (snd (registry_run cs (set_change_callback True r))) (map_of (servers r))"
  using registry_run_replay [of "set_change_callback True r" cs] assms
  by (simp add: keyed_def set_change_callback_def)

theorem registry_events_complete_witness:
  "map_of (servers (fst (registry_run [Add_server 0 ''a'' 1 2 3, Add_server 0 ''b'' 1 2 3,
       Remove_server 1] (set_change_callback True new_registry)))) =
   fold apply_event (snd (registry_run [Add_server 0 ''a'' 1 2 3, Add_server 0 ''b'' 1 2 3,
       Remove_server 1] (set_change_callback True new_registry))) Map.empty"
  using registry_events_complete [of new_registry "[Add_server 0 ''a'' 1 2 3,
       Add_server 0 ''b'' 1 2 3, Remove_server 1]"]
  by (simp add: new_registry_def)

end
