(* ===== verification/Metadata_Store.thy ===== *)
theory Metadata_Store
  imports Cxx_Prelude Transition_System
begin

text \<open>
  The file metadata of the head server, on-disk backend (\<^verbatim>\<open>src/head_server/redis_handler.hpp\<close>
  without \<^verbatim>\<open>WITH_REDIS\<close>).  The static map \<^verbatim>\<open>store()\<close> is the field \<open>files\<close>, an association list
  in some iteration order; the database file is \<open>disk\<close> (\<open>None\<close> while it does not exist), and
  \<open>disk_ok\<close> says whether opening it for writing succeeds.  Every operation runs under the store's
  mutex and rewrites the file.  The main result is durability: in every reachable store, loading
  the file again gives the map in memory.
\<close>

record chunk_record =
  cr_id :: int
  cr_server :: string
  cr_path :: string
  cr_checksum :: string
  cr_replicas :: int

record file_record =
  fr_hash :: string
  fr_replicas :: int
  fr_chunks :: "chunk_record list"

type_synonym metadata_map = "(string \<times> file_record) list"

record mstore =
  files :: metadata_map
  disk :: "string option"
  disk_ok :: bool

definition empty_record :: file_record where
  "empty_record = \<lparr>fr_hash = [], fr_replicas = 0, fr_chunks = []\<rparr>"

definition db_path :: "string option \<Rightarrow> string" where
  "db_path custom = (case custom of Some (c # cs) \<Rightarrow> c # cs | _ \<Rightarrow> ''/tmp/dfg_metadata.db'')"

definition encode_loc :: "string \<Rightarrow> string \<Rightarrow> string" where
  "encode_loc server path = server @ ''|'' @ path"

definition decode_loc :: "string \<Rightarrow> string \<times> string" where
  "decode_loc v = (case find_char (CHR ''|'') v of None \<Rightarrow> (v, []) | Some p \<Rightarrow> (take p v, drop (p + 1) v))"

text \<open>\<^verbatim>\<open>map[file_name]\<close>: the record of the name, value-initialised when missing.\<close>

definition at_file :: "string \<Rightarrow> metadata_map \<Rightarrow> file_record" where
  "at_file f m = (case map_of m f of None \<Rightarrow> empty_record | Some r \<Rightarrow> r)"

text \<open>The number of records of each chunk id, in the order of a \<^verbatim>\<open>std::map<long long, int>\<close>.\<close>

definition cid_counts :: "chunk_record list \<Rightarrow> (int \<times> int) list" where
  "cid_counts cs = count_keys cr_id cs"

definition count_at :: "(int \<times> int) list \<Rightarrow> int \<Rightarrow> int" where
  "count_at counts i = (case map_of counts i of None \<Rightarrow> 0 | Some n \<Rightarrow> n)"

text \<open>\<^verbatim>\<open>server path [checksum [replica_count]]\<close> after the chunk id; the first two are required, a
  missing or malformed replica count is \<open>d\<close>.\<close>

definition read_tail :: "int \<Rightarrow> int \<Rightarrow> string \<Rightarrow> chunk_record option" where
  "read_tail d cid s =
     (case read_word s of
        None \<Rightarrow> None
      | Some (server, s1) \<Rightarrow>
          (case read_word s1 of
             None \<Rightarrow> None
           | Some (path, s2) \<Rightarrow>
               (case read_word s2 of
                  None \<Rightarrow> Some \<lparr>cr_id = cid, cr_server = server, cr_path = path, cr_checksum = [],
                                cr_replicas = d\<rparr>
                | Some (checksum, s3) \<Rightarrow>
                    Some \<lparr>cr_id = cid, cr_server = server, cr_path = path, cr_checksum = checksum,
                          cr_replicas = (case read_int s3 of None \<Rightarrow> d | Some (n, _) \<Rightarrow> n)\<rparr>)))"

definition load_line :: "string \<Rightarrow> metadata_map \<Rightarrow> metadata_map" where
  "load_line line m =
     (case read_word line of
        None \<Rightarrow> m
      | Some (file_name, s) \<Rightarrow>
          (case read_word s of
             None \<Rightarrow> m
           | Some (token2, s2) \<Rightarrow>
               if starts_with ''HASH='' token2
               then AList.update file_name ((at_file file_name m)\<lparr>fr_hash := drop 5 token2\<rparr>) m
               else if starts_with ''REPLICAS='' token2
               then (case stoi (drop 9 token2) of
                       Inl _ \<Rightarrow> m
                     | Inr n \<Rightarrow> AList.update file_name ((at_file file_name m)\<lparr>fr_replicas := n\<rparr>) m)
               else (case stoll token2 of
                       Inl _ \<Rightarrow> m
                     | Inr cid \<Rightarrow>
                         (case read_tail 1 cid s2 of
                            None \<Rightarrow> m
                          | Some c \<Rightarrow>
                              AList.update file_name
                                ((at_file file_name m)\<lparr>fr_chunks := fr_chunks (at_file file_name m) @ [c]\<rparr>) m))))"

text \<open>The consistency pass at the end of \<^verbatim>\<open>load_from_disk\<close>.\<close>

definition consistent_record :: "file_record \<Rightarrow> file_record" where
  "consistent_record r =
     (let counts = cid_counts (fr_chunks r) in
      r\<lparr>fr_chunks := map (\<lambda>c. if cr_replicas c \<le> 0 \<or> cr_replicas c \<noteq> count_at counts (cr_id c)
                              then c\<lparr>cr_replicas := count_at counts (cr_id c)\<rparr> else c) (fr_chunks r),
        fr_replicas := if fr_replicas r \<le> 0 \<and> counts \<noteq> [] then snd (hd counts) else fr_replicas r\<rparr>)"

definition load_from_disk :: "string option \<Rightarrow> metadata_map" where
  "load_from_disk d =
     (case d of
        None \<Rightarrow> []
      | Some text \<Rightarrow>
          map (\<lambda>(f, r). (f, consistent_record r))
            (fold (\<lambda>line m. if line = [] then m else load_line line m) (getlines text) []))"

definition chunk_line :: "string \<Rightarrow> chunk_record \<Rightarrow> string" where
  "chunk_line f c = f @ '' '' @ show_int (cr_id c) @ '' '' @ cr_server c @ '' '' @ cr_path c @ '' ''
     @ cr_checksum c @ '' '' @ show_int (cr_replicas c)"

definition record_lines :: "string \<Rightarrow> file_record \<Rightarrow> string list" where
  "record_lines f r =
     (if fr_hash r \<noteq> [] then [f @ '' HASH='' @ fr_hash r] else []) @
     (if fr_replicas r > 0 then [f @ '' REPLICAS='' @ show_int (fr_replicas r)] else []) @
     map (chunk_line f) (fr_chunks r)"

definition persist_text :: "metadata_map \<Rightarrow> string" where
  "persist_text m = concat (map (\<lambda>l. l @ [CHR 0x0A]) (concat (map (\<lambda>(f, r). record_lines f r) m)))"

definition persist_locked :: "mstore \<Rightarrow> mstore" where
  "persist_locked st = (if disk_ok st then st\<lparr>disk := Some (persist_text (files st))\<rparr> else st)"

text \<open>The first access to \<^verbatim>\<open>store()\<close> in a process.\<close>

definition open_store :: "string option \<Rightarrow> bool \<Rightarrow> mstore" where
  "open_store d ok = \<lparr>files = load_from_disk d, disk = d, disk_ok = ok\<rparr>"

definition replace_file_chunks ::
  "string \<Rightarrow> string \<Rightarrow> chunk_record list \<Rightarrow> int \<Rightarrow> mstore \<Rightarrow> mstore" where
  "replace_file_chunks f hash cs n st =
     (let counts = cid_counts cs;
          cs' = map (\<lambda>c. if cr_replicas c \<le> 0 then c\<lparr>cr_replicas := count_at counts (cr_id c)\<rparr> else c) cs;
          n' = (if n \<le> 0 \<and> counts \<noteq> [] then snd (hd counts) else n)
      in persist_locked (st\<lparr>files := AList.update f
           \<lparr>fr_hash = hash, fr_replicas = n', fr_chunks = cs'\<rparr> (files st)\<rparr>))"

definition get_chunks :: "string \<Rightarrow> mstore \<Rightarrow> file_record" where
  "get_chunks f st = at_file f (files st)"

definition remove_file :: "string \<Rightarrow> mstore \<Rightarrow> mstore" where
  "remove_file f st = persist_locked (st\<lparr>files := AList.delete f (files st)\<rparr>)"

definition list_files_snapshot :: "mstore \<Rightarrow> string list" where
  "list_files_snapshot st = sort (map fst (files st))"

definition recount :: "chunk_record list \<Rightarrow> chunk_record list" where
  "recount cs = map (\<lambda>c. c\<lparr>cr_replicas := count_at (cid_counts cs) (cr_id c)\<rparr>) cs"

definition replace_server_in :: "string \<Rightarrow> chunk_record list \<Rightarrow> file_record \<Rightarrow> file_record" where
  "replace_server_in dead new r =
     (let cs = filter (\<lambda>c. cr_server c \<noteq> dead) (fr_chunks r) @ new in
      r\<lparr>fr_chunks := recount cs,
        fr_replicas := if cs \<noteq> [] then snd (hd (cid_counts cs)) else fr_replicas r\<rparr>)"

definition atomic_replace_server_chunks ::
  "string \<Rightarrow> (string \<times> chunk_record list) list \<Rightarrow> mstore \<Rightarrow> mstore \<times> bool" where
  "atomic_replace_server_chunks dead upd st =
     (persist_locked (st\<lparr>files := fold (\<lambda>(f, new) m. case map_of m f of
          None \<Rightarrow> m
        | Some r \<Rightarrow> AList.update f (replace_server_in dead new r) m) upd (files st)\<rparr>), True)"

definition delete_server_metadata :: "string \<Rightarrow> mstore \<Rightarrow> mstore" where
  "delete_server_metadata server st =
     persist_locked (st\<lparr>files := map (\<lambda>(f, r).
       (f, r\<lparr>fr_chunks := recount (filter (\<lambda>c. cr_server c \<noteq> server) (fr_chunks r))\<rparr>)) (files st)\<rparr>)"

text \<open>The request interface.\<close>

definition pop_header :: "string \<Rightarrow> string list \<Rightarrow> string option \<times> string list" where
  "pop_header key ls =
     (case ls of
        l # ls' \<Rightarrow> if starts_with key l then (Some (drop (length key) l), ls') else (None, ls)
      | [] \<Rightarrow> (None, []))"

definition parse_entry_line :: "string \<Rightarrow> chunk_record option" where
  "parse_entry_line l = (case read_llong l of None \<Rightarrow> None | Some (cid, s) \<Rightarrow> read_tail 0 cid s)"

definition create_entry :: "string \<Rightarrow> mstore \<Rightarrow> mstore" where
  "create_entry request st =
     (let ls = getlines request;
          file_name = (case ls of [] \<Rightarrow> [] | l # _ \<Rightarrow> l);
          raw0 = filter (\<lambda>l. l \<noteq> []) (tl ls);
          raw1 = snd (pop_header ''TTL='' raw0);
          (hash, raw2) = pop_header ''HASH='' raw1;
          (reps, raw3) = pop_header ''REPLICAS='' raw2;
          n = (case reps of None \<Rightarrow> 0 | Some s \<Rightarrow> (case stoi s of Inl _ \<Rightarrow> 0 | Inr n \<Rightarrow> n));
          cs = List.map_filter parse_entry_line raw3;
          counts = cid_counts cs;
          cs' = map (\<lambda>c. if cr_replicas c \<le> 0 then c\<lparr>cr_replicas := count_at counts (cr_id c)\<rparr> else c) cs;
          n' = (if n \<le> 0 \<and> counts \<noteq> [] then snd (hd counts) else n)
      in replace_file_chunks file_name (case hash of None \<Rightarrow> [] | Some h \<Rightarrow> h) cs' n' st)"

definition query_metadata :: "string \<Rightarrow> mstore \<Rightarrow> file_record" where
  "query_metadata f st = (if f = [] then empty_record else get_chunks f st)"

definition delete_entry :: "string \<Rightarrow> mstore \<Rightarrow> mstore" where
  "delete_entry f st = (if f = [] then st else remove_file f st)"

text \<open>\<^verbatim>\<open>read_entry\<close>: the lines it prints.\<close>

definition print_chunk :: "bool \<Rightarrow> chunk_record \<Rightarrow> string" where
  "print_chunk always c = ''chunk:'' @ show_int (cr_id c) @ '' server='' @ cr_server c @ '' path='' @ cr_path c
     @ (if always \<or> cr_checksum c \<noteq> [] then '' checksum='' @ cr_checksum c else [])
     @ '' replicas='' @ show_int (cr_replicas c)"

definition read_entry :: "string \<Rightarrow> mstore \<Rightarrow> string list" where
  "read_entry request st =
     (case read_word request of
        None \<Rightarrow> [''read_entry: file_name required'']
      | Some (f, s) \<Rightarrow>
          (let r = query_metadata f st in
           if fr_chunks r = [] then [''No chunks or file not found'']
           else (if fr_hash r \<noteq> [] then [''file_hash='' @ fr_hash r] else []) @
                [''replica_count='' @ show_int (fr_replicas r)] @
                (case read_llong s of
                   Some (cid, _) \<Rightarrow>
                     (case find (\<lambda>c. cr_id c = cid) (fr_chunks r) of
                        Some c \<Rightarrow> [print_chunk True c]
                      | None \<Rightarrow> [''Chunk not found''])
                 | None \<Rightarrow> map (print_chunk False) (fr_chunks r))))"

section \<open>Well-formed metadata\<close>

text \<open>What the whitespace-separated format can carry: names, servers, paths and checksums are
  non-empty words, numbers fit their type, every chunk record carries the number of records of its
  chunk, and a record leaves at least one line behind.\<close>

definition chunk_ok :: "chunk_record \<Rightarrow> bool" where
  "chunk_ok c \<longleftrightarrow> word_ok (cr_server c) \<and> word_ok (cr_path c) \<and> word_ok (cr_checksum c) \<and> in_llong (cr_id c)"

definition counted_chunks :: "chunk_record list \<Rightarrow> bool" where
  "counted_chunks cs \<longleftrightarrow> (\<forall>c \<in> set cs. cr_replicas c = count_at (cid_counts cs) (cr_id c))"

definition record_ok :: "file_record \<Rightarrow> bool" where
  "record_ok r \<longleftrightarrow>
     (fr_hash r = [] \<or> word_ok (fr_hash r)) \<and>
     (\<forall>c \<in> set (fr_chunks r). chunk_ok c) \<and> counted_chunks (fr_chunks r) \<and>
     int (length (fr_chunks r)) \<le> int_max \<and>
     0 \<le> fr_replicas r \<and> fr_replicas r \<le> int_max \<and>
     (fr_replicas r = 0 \<longrightarrow> fr_chunks r = [] \<and> fr_hash r \<noteq> [])"

definition store_ok :: "metadata_map \<Rightarrow> bool" where
  "store_ok m \<longleftrightarrow> umap_wf m \<and> (\<forall>(f, r) \<in> set m. word_ok f \<and> record_ok r)"

section \<open>Counting\<close>

lemma count_at_counts:
  "count_at (cid_counts cs) i = int (length (filter (\<lambda>c. cr_id c = i) cs))"
  by (simp add: count_at_def cid_counts_def map_of_count_keys Let_def)

lemma count_at_pos: "c \<in> set cs \<Longrightarrow> count_at (cid_counts cs) (cr_id c) > 0"
  by (auto simp: count_at_counts filter_empty_conv)

lemma count_at_le: "count_at (cid_counts cs) i \<le> int (length cs)"
  by (simp add: count_at_counts)

lemma cid_counts_Nil [simp]: "cid_counts cs = [] \<longleftrightarrow> cs = []"
  by (simp add: cid_counts_def)

text \<open>The count of the smallest chunk id.\<close>

lemma hd_counts:
  assumes "cs \<noteq> []"
  shows "0 < snd (hd (cid_counts cs)) \<and> snd (hd (cid_counts cs)) \<le> int (length cs)"
proof -
  have "hd (cid_counts cs) \<in> set (cid_counts cs)" using assms by simp
  then obtain i n where h: "hd (cid_counts cs) = (i, n)" "(i, n) \<in> set (cid_counts cs)"
    by (metis surj_pair)
  then have n: "n = int (length (filter (\<lambda>c. cr_id c = i) cs))" "i \<in> cr_id ` set cs"
    by (simp_all add: cid_counts_def count_keys_mem)
  then have "filter (\<lambda>c. cr_id c = i) cs \<noteq> []" by (auto simp: filter_empty_conv)
  then show ?thesis using h(1) n(1) by simp
qed

lemma count_at_map: "(\<And>c. cr_id (g c) = cr_id c) \<Longrightarrow>
  count_at (cid_counts (map g cs)) = count_at (cid_counts cs)"
  by (rule ext) (simp add: count_at_counts o_def)

lemma counted_recount [simp]: "counted_chunks (recount cs)"
  unfolding recount_def counted_chunks_def by (subst count_at_map) auto

lemma recount_id: "counted_chunks cs \<Longrightarrow> recount cs = cs"
  unfolding counted_chunks_def recount_def by (rule map_idI) simp

lemma length_recount [simp]: "length (recount cs) = length cs"
  by (simp add: recount_def)

lemma map_recount:
  "map (\<lambda>c. c\<lparr>cr_replicas := 0\<rparr>) (recount cs) = map (\<lambda>c. c\<lparr>cr_replicas := 0\<rparr>) cs"
  by (simp add: recount_def o_def)

lemma recount_Nil [simp]: "recount cs = [] \<longleftrightarrow> cs = []"
  by (simp add: recount_def)

lemma chunk_ok_recount: "\<forall>c \<in> set cs. chunk_ok c \<Longrightarrow> \<forall>c \<in> set (recount cs). chunk_ok c"
  by (auto simp: recount_def chunk_ok_def)

lemma consistent_id: "record_ok r \<Longrightarrow> consistent_record r = r"
proof -
  assume ok: "record_ok r"
  have "map (\<lambda>c. if cr_replicas c \<le> 0 \<or> cr_replicas c \<noteq> count_at (cid_counts (fr_chunks r)) (cr_id c)
      then c\<lparr>cr_replicas := count_at (cid_counts (fr_chunks r)) (cr_id c)\<rparr> else c) (fr_chunks r) = fr_chunks r"
    using ok count_at_pos [of _ "fr_chunks r"]
    by (intro map_idI) (auto simp: record_ok_def counted_chunks_def dest!: bspec)
  then show ?thesis
    using ok by (auto simp: consistent_record_def Let_def record_ok_def)
qed

section \<open>Reading back what was written\<close>

lemma update_absent: "k \<notin> fst ` set m \<Longrightarrow> AList.update k v m = m @ [(k, v)]"
  by (induction m) auto

lemma update_last: "k \<notin> fst ` set m \<Longrightarrow> AList.update k v (m @ [(k, w)]) = m @ [(k, v)]"
  by (induction m) auto

datatype item = Hash_item string | Reps_item int | Chunk_item chunk_record

fun item_line :: "string \<Rightarrow> item \<Rightarrow> string" where
  "item_line f (Hash_item h) = f @ '' HASH='' @ h"
| "item_line f (Reps_item n) = f @ '' REPLICAS='' @ show_int n"
| "item_line f (Chunk_item c) = chunk_line f c"

fun item_apply :: "item \<Rightarrow> file_record \<Rightarrow> file_record" where
  "item_apply (Hash_item h) r = r\<lparr>fr_hash := h\<rparr>"
| "item_apply (Reps_item n) r = r\<lparr>fr_replicas := n\<rparr>"
| "item_apply (Chunk_item c) r = r\<lparr>fr_chunks := fr_chunks r @ [c]\<rparr>"

fun item_ok :: "item \<Rightarrow> bool" where
  "item_ok (Hash_item h) = word_ok h"
| "item_ok (Reps_item n) = in_int n"
| "item_ok (Chunk_item c) = (chunk_ok c \<and> in_int (cr_replicas c))"

definition items :: "file_record \<Rightarrow> item list" where
  "items r = (if fr_hash r \<noteq> [] then [Hash_item (fr_hash r)] else []) @
     (if fr_replicas r > 0 then [Reps_item (fr_replicas r)] else []) @ map Chunk_item (fr_chunks r)"

lemma record_lines_items: "record_lines f r = map (item_line f) (items r)"
  by (simp add: record_lines_def items_def)

lemma item_apply_chunks: "fold item_apply (map Chunk_item cs) r = r\<lparr>fr_chunks := fr_chunks r @ cs\<rparr>"
  by (induction cs arbitrary: r) auto

lemma items_apply: "record_ok r \<Longrightarrow> fold item_apply (items r) empty_record = r"
  by (auto simp: items_def item_apply_chunks empty_record_def record_ok_def)

lemma items_ok: "record_ok r \<Longrightarrow> it \<in> set (items r) \<Longrightarrow> item_ok it"
proof -
  assume ok: "record_ok r" and it: "it \<in> set (items r)"
  have "in_int (cr_replicas c)" if "c \<in> set (fr_chunks r)" for c
    using ok that count_at_pos [OF that] count_at_le [of "fr_chunks r" "cr_id c"]
    by (auto simp: record_ok_def counted_chunks_def in_int_def int_min_def)
  then show ?thesis
    using ok it by (auto simp: items_def record_ok_def in_int_def int_min_def split: if_splits)
qed

lemma items_nonempty: "record_ok r \<Longrightarrow> items r \<noteq> []"
  by (auto simp: items_def record_ok_def)

lemma word_ok_append: "word_ok u \<Longrightarrow> \<forall>c \<in> set v. \<not> is_space c \<Longrightarrow> word_ok (u @ v)"
  by (auto simp: word_ok_def)

lemma word_ok_nospace: "word_ok w \<Longrightarrow> \<forall>c \<in> set w. \<not> is_space c"
  by (simp add: word_ok_def)

lemma read_word_sp: "word_ok w \<Longrightarrow> read_word (w @ CHR '' '' # s) = Some (w, CHR '' '' # s)"
  by (intro read_word_word) (simp_all add: is_space_def)

lemma read_word_end: "word_ok w \<Longrightarrow> read_word w = Some (w, [])"
  using read_word_word [of w "[]"] by simp

lemma starts_with_show_int: "p \<noteq> [] \<Longrightarrow> \<not> is_digit (hd p) \<Longrightarrow> hd p \<noteq> CHR ''-'' \<Longrightarrow> \<not> starts_with p (show_int i)"
proof
  assume p: "p \<noteq> []" "\<not> is_digit (hd p)" "hd p \<noteq> CHR ''-''" and "starts_with p (show_int i)"
  then obtain t where "show_int i = p @ t" using starts_withE by blast
  then have "hd p \<in> set (show_int i)" using p(1) by simp
  then show False using show_int_chars p by blast
qed

lemma read_tail_print:
  assumes "chunk_ok c" "in_int (cr_replicas c)"
  shows "read_tail d (cr_id c) (CHR '' '' # cr_server c @ CHR '' '' # cr_path c @ CHR '' '' # cr_checksum c
    @ CHR '' '' # show_int (cr_replicas c)) = Some c"
  using assms read_int_show_int [of "cr_replicas c" "[]"]
  by (simp add: read_tail_def chunk_ok_def read_word_blank read_word_sp read_int_def
      parse_number_blank parse_number_show_int_end)

lemma load_line_item:
  assumes f: "word_ok f" and it: "item_ok it"
  shows "load_line (item_line f it) m = AList.update f (item_apply it (at_file f m)) m"
proof (cases it)
  case (Hash_item h)
  have "word_ok (''HASH='' @ h)"
    using it Hash_item by (simp add: word_ok_def is_space_def)
  then show ?thesis
    using f Hash_item read_word_end [of "''HASH='' @ h"]
    by (simp add: load_line_def read_word_sp read_word_blank starts_with_def)
next
  case (Reps_item n)
  have "word_ok (''REPLICAS='' @ show_int n)"
    using word_ok_nospace [OF word_ok_show_int [of n]] by (simp add: word_ok_def is_space_def)
  then show ?thesis
    using f it Reps_item read_word_end [of "''REPLICAS='' @ show_int n"]
    by (simp add: load_line_def read_word_sp read_word_blank starts_with_def stoi_show_int)
next
  case (Chunk_item c)
  have "\<not> starts_with ''HASH='' (show_int (cr_id c))" "\<not> starts_with ''REPLICAS='' (show_int (cr_id c))"
    by (rule starts_with_show_int; simp add: is_digit_def)+
  then show ?thesis
    using f it Chunk_item read_tail_print [of c 1]
    by (simp add: load_line_def chunk_line_def read_word_sp read_word_blank stoll_show_int chunk_ok_def)
qed

lemma at_file_last: "f \<notin> fst ` set m \<Longrightarrow> at_file f (m @ [(f, r)]) = r"
  by (induction m) (auto simp: at_file_def)

lemma at_file_absent: "f \<notin> fst ` set m \<Longrightarrow> at_file f m = empty_record"
  by (auto simp: at_file_def split: option.split dest!: map_of_SomeD) (force)

lemma load_items_last:
  assumes "word_ok f" "f \<notin> fst ` set m" "\<forall>it \<in> set its. item_ok it"
  shows "fold load_line (map (item_line f) its) (m @ [(f, r)]) = m @ [(f, fold item_apply its r)]"
  using assms by (induction its arbitrary: r) (simp_all add: load_line_item at_file_last update_last)

lemma load_record:
  assumes f: "word_ok f" "f \<notin> fst ` set m" and r: "record_ok r"
  shows "fold load_line (record_lines f r) m = m @ [(f, r)]"
proof -
  obtain it its where its: "items r = it # its" using items_nonempty [OF r] by (cases "items r") auto
  have "\<forall>it \<in> set (items r). item_ok it" using items_ok [OF r] by blast
  then have "fold load_line (record_lines f r) m = m @ [(f, fold item_apply (items r) empty_record)]"
    using f by (simp add: record_lines_items its load_line_item update_absent at_file_absent
        load_items_last)
  then show ?thesis by (simp add: items_apply r)
qed

lemma load_records:
  assumes "store_ok m" "\<forall>f \<in> fst ` set m. f \<notin> fst ` set m0"
  shows "fold load_line (concat (map (\<lambda>(f, r). record_lines f r) m)) m0 = m0 @ m"
  using assms
proof (induction m arbitrary: m0)
  case (Cons p m)
  obtain f r where p: "p = (f, r)" by fastforce
  have "store_ok m" "word_ok f" "record_ok r" "f \<notin> fst ` set m"
    using Cons.prems(1) by (auto simp: p store_ok_def umap_wf_def)
  then show ?case
    using Cons.prems(2) Cons.IH [of "m0 @ [(f, r)]"] by (auto simp: p load_record)
qed simp

lemma item_line_chars:
  assumes "word_ok f" "item_ok it"
  shows "CHR 0x0A \<notin> set (item_line f it) \<and> item_line f it \<noteq> []"
proof -
  have sp: "word_ok w \<Longrightarrow> CHR 0x0A \<notin> set w" for w
    by (auto simp: word_ok_def is_space_def)
  show ?thesis
    using assms sp [of f] sp [OF word_ok_show_int]
    by (cases it) (auto simp: chunk_line_def chunk_ok_def sp)
qed

lemma record_lines_chars:
  "word_ok f \<Longrightarrow> record_ok r \<Longrightarrow> l \<in> set (record_lines f r) \<Longrightarrow> CHR 0x0A \<notin> set l \<and> l \<noteq> []"
  using item_line_chars items_ok unfolding record_lines_items by auto

lemma load_persist:
  assumes "store_ok m"
  shows "load_from_disk (Some (persist_text m)) = m"
proof -
  define ls where "ls = concat (map (\<lambda>(f, r). record_lines f r) m)"
  have ls: "\<forall>l \<in> set ls. CHR 0x0A \<notin> set l \<and> l \<noteq> []"
    using assms record_lines_chars by (force simp: ls_def store_ok_def)
  have "fold (\<lambda>line m. if line = [] then m else load_line line m) ls [] = fold load_line ls []"
    using ls by (intro fold_cong) auto
  moreover have "getlines (persist_text m) = ls"
    using ls by (simp add: persist_text_def ls_def [symmetric] getlines_unlines)
  moreover have "fold load_line ls [] = m"
    using load_records [OF assms, of "[]"] by (simp add: ls_def)
  moreover have "map (\<lambda>(f, r). (f, consistent_record r)) m = m"
    using assms by (intro map_idI) (auto simp: store_ok_def consistent_id)
  ultimately show ?thesis by (simp add: load_from_disk_def)
qed

section \<open>Operations keep the store well formed\<close>

lemma store_ok_update:
  assumes "store_ok m" "word_ok f" "record_ok r"
  shows "store_ok (AList.update f r m)"
proof -
  have "umap_wf (AList.update f r m)" using assms by (simp add: store_ok_def umap.wf_upd)
  moreover have "set (AList.update f r m) \<subseteq> insert (f, r) (set m)"
    by (induction m) auto
  ultimately show ?thesis using assms unfolding store_ok_def by blast
qed

lemma store_ok_delete: "store_ok m \<Longrightarrow> store_ok (AList.delete f m)"
  using umap.wf_del [of m f] by (auto simp: store_ok_def AList.delete_eq)

text \<open>The chunk list handed to \<^verbatim>\<open>replace_file_chunks\<close>: counts that are given must be right, a
  missing one (zero or less) is filled in.\<close>

definition input_ok :: "string \<Rightarrow> string \<Rightarrow> chunk_record list \<Rightarrow> int \<Rightarrow> bool" where
  "input_ok f hash cs n \<longleftrightarrow> word_ok f \<and> (hash = [] \<or> word_ok hash) \<and> (\<forall>c \<in> set cs. chunk_ok c) \<and>
     (\<forall>c \<in> set cs. cr_replicas c \<le> 0 \<or> cr_replicas c = count_at (cid_counts cs) (cr_id c)) \<and>
     int (length cs) \<le> int_max \<and> 0 \<le> n \<and> n \<le> int_max \<and> (n = 0 \<and> cs = [] \<longrightarrow> hash \<noteq> [])"

lemma fill_counts:
  assumes "\<forall>c \<in> set cs. cr_replicas c \<le> 0 \<or> cr_replicas c = count_at (cid_counts cs) (cr_id c)"
  shows "map (\<lambda>c. if cr_replicas c \<le> 0 then c\<lparr>cr_replicas := count_at (cid_counts cs) (cr_id c)\<rparr> else c) cs
    = recount cs"
  unfolding recount_def using assms by (intro map_cong) auto

lemma replace_record_ok:
  assumes "input_ok f hash cs n"
  shows "record_ok \<lparr>fr_hash = hash, fr_replicas = (if n \<le> 0 \<and> cid_counts cs \<noteq> [] then snd (hd (cid_counts cs)) else n),
    fr_chunks = recount cs\<rparr>"
  using assms hd_counts [of cs] chunk_ok_recount [of cs]
  by (auto simp: input_ok_def record_ok_def)

lemma replace_server_record_ok:
  assumes "record_ok r" "\<forall>c \<in> set new. chunk_ok c" "int (length (fr_chunks r) + length new) \<le> int_max"
  shows "record_ok (replace_server_in dead new r)"
proof -
  define cs where "cs = filter (\<lambda>c. cr_server c \<noteq> dead) (fr_chunks r) @ new"
  have "length cs \<le> length (fr_chunks r) + length new" by (simp add: cs_def)
  then have len: "int (length cs) \<le> int_max" using assms(3) by linarith
  have "\<forall>c \<in> set cs. chunk_ok c" using assms(1,2) by (auto simp: cs_def record_ok_def)
  then have ok: "\<forall>c \<in> set (recount cs). chunk_ok c" by (rule chunk_ok_recount)
  show ?thesis
    using assms(1) ok len hd_counts [of cs]
    by (auto simp: replace_server_in_def Let_def record_ok_def simp flip: cs_def)
qed

lemma delete_server_record_ok:
  assumes "record_ok r"
  shows "record_ok (r\<lparr>fr_chunks := recount (filter P (fr_chunks r))\<rparr>)"
proof -
  have "int (length (fr_chunks r)) \<le> int_max" using assms by (simp add: record_ok_def)
  then have len: "int (length (filter P (fr_chunks r))) \<le> int_max"
    using length_filter_le [of P "fr_chunks r"] by linarith
  have "\<forall>c \<in> set (filter P (fr_chunks r)). chunk_ok c"
    using assms by (auto simp: record_ok_def)
  note ok = chunk_ok_recount [OF this]
  show ?thesis
    using assms ok len by (simp add: record_ok_def)
qed

definition failover_ok :: "(string \<times> chunk_record list) list \<Rightarrow> metadata_map \<Rightarrow> bool" where
  "failover_ok upd m \<longleftrightarrow> distinct (map fst upd) \<and>
     (\<forall>(f, new) \<in> set upd. (\<forall>c \<in> set new. chunk_ok c) \<and>
        (\<forall>r. map_of m f = Some r \<longrightarrow> int (length (fr_chunks r) + length new) \<le> int_max))"

definition failover_map :: "string \<Rightarrow> (string \<times> chunk_record list) list \<Rightarrow> metadata_map \<Rightarrow> metadata_map" where
  "failover_map dead upd m = fold (\<lambda>(f, new) m. case map_of m f of
      None \<Rightarrow> m | Some r \<Rightarrow> AList.update f (replace_server_in dead new r) m) upd m"

lemma store_ok_failover: "store_ok m \<Longrightarrow> failover_ok upd m \<Longrightarrow> store_ok (failover_map dead upd m)"
proof (induction upd arbitrary: m)
  case (Cons p upd)
  obtain f new where p: "p = (f, new)" by fastforce
  have ok: "failover_ok upd m" and new: "\<forall>c \<in> set new. chunk_ok c" and f: "f \<notin> fst ` set upd"
    using Cons.prems(2) by (auto simp: failover_ok_def p)
  show ?case
  proof (cases "map_of m f")
    case None
    then show ?thesis using Cons.IH [OF Cons.prems(1) ok] by (simp add: failover_map_def p)
  next
    case (Some r)
    have r: "word_ok f" "record_ok r" using Cons.prems(1) Some
      by (auto simp: store_ok_def dest!: map_of_SomeD)
    have "int (length (fr_chunks r) + length new) \<le> int_max"
      using Cons.prems(2) Some by (auto simp: failover_ok_def p)
    then have "store_ok (AList.update f (replace_server_in dead new r) m)"
      using Cons.prems(1) r new by (simp add: store_ok_update replace_server_record_ok)
    moreover have "map_of (AList.update f x m) g = map_of m g" if "(g, cs) \<in> set upd" for g cs x
      using that f by (auto simp: update_conv' image_iff)
    then have "failover_ok upd (AList.update f (replace_server_in dead new r) m)"
      using ok unfolding failover_ok_def by auto
    ultimately show ?thesis using Cons.IH Some by (simp add: failover_map_def p)
  qed
qed (simp add: failover_map_def)

lemma map_of_failover:
  assumes "distinct (map fst upd)"
  shows "map_of (failover_map dead upd m) f =
    (case map_of m f of
       None \<Rightarrow> None
     | Some r \<Rightarrow> (case map_of upd f of None \<Rightarrow> Some r | Some new \<Rightarrow> Some (replace_server_in dead new r)))"
  using assms
proof (induction upd arbitrary: m)
  case (Cons p upd)
  obtain g new where p: "p = (g, new)" by fastforce
  have g: "map_of upd g = None" using Cons.prems by (simp add: p map_of_eq_None_iff)
  show ?case
    using Cons.IH [of m] Cons.IH [of "AList.update g (replace_server_in dead new (the (map_of m g))) m"]
      Cons.prems g
    by (cases "map_of m g") (auto simp: failover_map_def p update_conv' split: option.splits)
qed (simp add: failover_map_def split: option.split)

section \<open>Durability\<close>

inductive md_step :: "mstore \<Rightarrow> mstore \<Rightarrow> bool" where
  md_replace: "input_ok f hash cs n \<Longrightarrow> md_step st (replace_file_chunks f hash cs n st)"
| md_remove: "md_step st (remove_file f st)"
| md_failover: "failover_ok upd (files st) \<Longrightarrow> md_step st (fst (atomic_replace_server_chunks dead upd st))"
| md_purge: "md_step st (delete_server_metadata server st)"

definition durable :: "mstore \<Rightarrow> bool" where
  "durable st \<longleftrightarrow> disk_ok st \<and> store_ok (files st) \<and> load_from_disk (disk st) = files st"

lemma durable_persist: "disk_ok st \<Longrightarrow> store_ok (files st) \<Longrightarrow> durable (persist_locked st)"
  by (simp add: durable_def persist_locked_def load_persist)

lemma durable_step: "md_step st st' \<Longrightarrow> durable st \<Longrightarrow> durable st'"
proof (induction rule: md_step.induct)
  case (md_replace f hash cs n st)
  have "store_ok (AList.update f \<lparr>fr_hash = hash, fr_replicas = (if n \<le> 0 \<and> cid_counts cs \<noteq> []
      then snd (hd (cid_counts cs)) else n), fr_chunks = recount cs\<rparr> (files st))"
    using md_replace replace_record_ok [OF md_replace(1)]
    by (intro store_ok_update) (simp_all add: durable_def input_ok_def)
  moreover have fill: "\<forall>c \<in> set cs. cr_replicas c \<le> 0 \<or> cr_replicas c = count_at (cid_counts cs) (cr_id c)"
    using md_replace(1) by (simp add: input_ok_def)
  ultimately show ?case
    using md_replace(2) unfolding replace_file_chunks_def Let_def fill_counts [OF fill]
    by (intro durable_persist) (simp_all add: durable_def)
next
  case (md_remove st f)
  then show ?case
    unfolding remove_file_def by (intro durable_persist) (auto simp: durable_def store_ok_delete)
next
  case (md_failover upd st dead)
  then show ?case
    unfolding atomic_replace_server_chunks_def fst_conv
    by (intro durable_persist)
      (auto simp: durable_def intro: store_ok_failover [unfolded failover_map_def])
next
  case (md_purge st server)
  have "store_ok (map (\<lambda>(f, r). (f, r\<lparr>fr_chunks := recount (filter (\<lambda>c. cr_server c \<noteq> server) (fr_chunks r))\<rparr>)) (files st))"
    using md_purge
    by (auto simp: durable_def store_ok_def umap_wf_def delete_server_record_ok o_def split_beta)
  then show ?case
    using md_purge unfolding delete_server_metadata_def by (intro durable_persist) (auto simp: durable_def)
qed

lemma durable_init: "durable (open_store None True)"
  by (simp add: durable_def open_store_def load_from_disk_def store_ok_def umap_wf_def)

interpretation md: inductive_invariant "\<lambda>st. st = open_store None True" md_step durable
  by unfold_locales (use durable_init durable_step in blast)+

section \<open>Requests\<close>

text \<open>The request text an upload builds for \<^verbatim>\<open>create_entry\<close>.\<close>

definition entry_line :: "chunk_record \<Rightarrow> string" where
  "entry_line c = show_int (cr_id c) @ '' '' @ cr_server c @ '' '' @ cr_path c @ '' ''
     @ cr_checksum c @ '' '' @ show_int (cr_replicas c)"

definition entry_request :: "string \<Rightarrow> string \<Rightarrow> int \<Rightarrow> chunk_record list \<Rightarrow> string" where
  "entry_request f hash n cs =
     concat (map (\<lambda>l. l @ [CHR 0x0A])
       ([f, ''TTL=3600'', ''HASH='' @ hash, ''REPLICAS='' @ show_int n] @ map entry_line cs))"

lemma word_ok_nl: "word_ok w \<Longrightarrow> CHR 0x0A \<notin> set w"
  by (auto simp: word_ok_def is_space_def)

lemma parse_entry_line_print:
  assumes "chunk_ok c" "in_int (cr_replicas c)"
  shows "parse_entry_line (entry_line c) = Some c"
proof -
  have "read_llong (entry_line c) = Some (cr_id c, CHR '' '' # cr_server c @ CHR '' '' # cr_path c
      @ CHR '' '' # cr_checksum c @ CHR '' '' # show_int (cr_replicas c))"
    unfolding entry_line_def using assms
    by (subst read_llong_show_int) (simp_all add: chunk_ok_def is_digit_def)
  then show ?thesis
    using read_tail_print [OF assms, of 0] by (simp add: parse_entry_line_def)
qed

lemma map_filter_parse:
  "\<forall>c \<in> set cs. chunk_ok c \<and> in_int (cr_replicas c) \<Longrightarrow>
   List.map_filter parse_entry_line (map entry_line cs) = cs"
  by (induction cs) (simp_all add: map_filter_simps parse_entry_line_print)

lemma entry_line_chars: "chunk_ok c \<Longrightarrow> CHR 0x0A \<notin> set (entry_line c) \<and> entry_line c \<noteq> []"
  using word_ok_nl [OF word_ok_show_int] by (auto simp: entry_line_def chunk_ok_def word_ok_nl)

text \<open>Counts that are already right are stored as they are.\<close>

definition stored_count :: "int \<Rightarrow> chunk_record list \<Rightarrow> int" where
  "stored_count n cs = (if n \<le> 0 \<and> cs \<noteq> [] then snd (hd (cid_counts cs)) else n)"

lemma create_entry_request:
  assumes f: "word_ok f" and hash: "hash = [] \<or> word_ok hash" and n: "in_int n"
    and cs: "\<forall>c \<in> set cs. chunk_ok c" "counted_chunks cs" "int (length cs) \<le> int_max"
  shows "create_entry (entry_request f hash n cs) st =
    persist_locked (st\<lparr>files := AList.update f
      \<lparr>fr_hash = hash, fr_replicas = stored_count n cs, fr_chunks = cs\<rparr> (files st)\<rparr>)"
proof -
  define raw where "raw = [''TTL=3600'', ''HASH='' @ hash, ''REPLICAS='' @ show_int n] @ map entry_line cs"
  have nl: "CHR 0x0A \<notin> set hash" using hash word_ok_nl by auto
  have "\<forall>l \<in> set (f # raw). CHR 0x0A \<notin> set l"
    using cs(1) entry_line_chars nl word_ok_nl [OF word_ok_show_int] word_ok_nl [OF f]
    by (auto simp: raw_def)
  then have lines: "getlines (entry_request f hash n cs) = f # raw"
    by (simp add: entry_request_def raw_def getlines_unlines [where ls = "f # raw", unfolded raw_def, simplified])
  have raw0: "filter (\<lambda>l. l \<noteq> []) raw = raw"
    using cs(1) entry_line_chars by (auto simp: raw_def intro!: filter_True)
  have pops: "snd (pop_header ''TTL='' raw) = tl raw"
    "pop_header ''HASH='' (tl raw) = (Some hash, tl (tl raw))"
    "pop_header ''REPLICAS='' (tl (tl raw)) = (Some (show_int n), map entry_line cs)"
    by (simp_all add: pop_header_def raw_def starts_with_def)
  have reps: "in_int (cr_replicas c) \<and> \<not> cr_replicas c \<le> 0" if "c \<in> set cs" for c
    using that cs(2,3) count_at_pos [OF that] count_at_le [of cs "cr_id c"]
    by (auto simp: counted_chunks_def in_int_def int_min_def)
  have ids: "map (\<lambda>c. if cr_replicas c \<le> 0 then c\<lparr>cr_replicas := count_at (cid_counts cs) (cr_id c)\<rparr> else c) cs = cs"
    using reps by (intro map_idI) simp
  have m: "List.map_filter parse_entry_line (map entry_line cs) = cs"
    using cs(1) reps by (intro map_filter_parse) simp
  have sc: "stored_count (stored_count n cs) cs = stored_count n cs"
    using hd_counts [of cs] by (cases "cs = []") (auto simp: stored_count_def)
  have "create_entry (entry_request f hash n cs) st = replace_file_chunks f hash cs (stored_count n cs) st"
    unfolding create_entry_def lines Let_def
    by (simp only: list.case list.sel raw0 pops prod.case option.case m ids)
      (simp add: stoi_show_int n stored_count_def)
  also have "\<dots> = persist_locked (st\<lparr>files := AList.update f
      \<lparr>fr_hash = hash, fr_replicas = stored_count n cs, fr_chunks = cs\<rparr> (files st)\<rparr>)"
    unfolding replace_file_chunks_def Let_def ids
    using sc by (simp add: stored_count_def)
  finally show ?thesis .
qed

section \<open>The backend interface\<close>

text \<open>
  What the upload, download, delete and failover paths of the head server rely on in a metadata
  backend: a query after a write, a removal or a listing.  Their common consequences are proved
  once for any backend with these laws.
\<close>

locale metadata_backend =
  fixes lookup :: "'s \<Rightarrow> string \<Rightarrow> file_record option"
    and put :: "string \<Rightarrow> file_record \<Rightarrow> 's \<Rightarrow> 's"
    and del :: "string \<Rightarrow> 's \<Rightarrow> 's"
    and listing :: "'s \<Rightarrow> string list"
    and wf :: "'s \<Rightarrow> bool"
  assumes lookup_put: "wf s \<Longrightarrow> lookup (put f r s) g = (if g = f then Some r else lookup s g)"
    and lookup_del: "wf s \<Longrightarrow> lookup (del f s) g = (if g = f then None else lookup s g)"
    and wf_put: "wf s \<Longrightarrow> wf (put f r s)"
    and wf_del: "wf s \<Longrightarrow> wf (del f s)"
    and listing_dom: "wf s \<Longrightarrow> set (listing s) = dom (lookup s)"
    and listing_sorted: "wf s \<Longrightarrow> sorted (listing s) \<and> distinct (listing s)"
begin

lemma listing_put: "wf s \<Longrightarrow> set (listing (put f r s)) = insert f (set (listing s))"
  by (auto simp: listing_dom wf_put lookup_put dom_def)

lemma listing_del: "wf s \<Longrightarrow> set (listing (del f s)) = set (listing s) - {f}"
  by (auto simp: listing_dom wf_del lookup_del dom_def)

text \<open>Removing what was just written leaves the listing of the other files, as the same list.\<close>

lemma listing_put_del:
  assumes "wf s" "f \<notin> set (listing s)"
  shows "listing (del f (put f r s)) = listing s"
proof (rule sorted_distinct_set_unique)
  show "set (listing (del f (put f r s))) = set (listing s)"
    using assms by (simp add: listing_del listing_put wf_put)
qed (use assms listing_sorted wf_put wf_del in blast)+

end

definition md_put :: "string \<Rightarrow> file_record \<Rightarrow> mstore \<Rightarrow> mstore" where
  "md_put f r st = persist_locked (st\<lparr>files := AList.update f r (files st)\<rparr>)"

lemma files_persist [simp]: "files (persist_locked st) = files st"
  by (simp add: persist_locked_def)

interpretation mdb: metadata_backend "\<lambda>st. map_of (files st)" md_put remove_file list_files_snapshot
  "\<lambda>st. umap_wf (files st)"
  by unfold_locales
    (auto simp: md_put_def remove_file_def list_files_snapshot_def umap.lookup_upd umap.lookup_del
      umap.wf_upd umap.wf_del dom_map_of_conv_image_fst, simp add: umap_wf_def)

section \<open>Properties\<close>

text \<open>A record and a store for the concrete instances below.\<close>

definition sample_chunk :: "string \<Rightarrow> int \<Rightarrow> chunk_record" where
  "sample_chunk server n = \<lparr>cr_id = 0, cr_server = server, cr_path = ''/d/a_chunk_0'',
     cr_checksum = ''ab'', cr_replicas = n\<rparr>"

definition sample_record :: file_record where
  "sample_record = \<lparr>fr_hash = ''cd'', fr_replicas = 2,
     fr_chunks = [sample_chunk ''s1'' 2, sample_chunk ''s2'' 2]\<rparr>"

definition sample_store :: mstore where
  "sample_store = \<lparr>files = [(''a'', sample_record)], disk = None, disk_ok = True\<rparr>"

lemma sample_lookup: "map_of (files sample_store) ''a'' = Some sample_record"
  by (simp add: sample_store_def)

lemma sample_servers:
  "map (\<lambda>c. c\<lparr>cr_replicas := 0\<rparr>) cs = map (\<lambda>c. c\<lparr>cr_replicas := 0\<rparr>) ds \<Longrightarrow> map cr_server cs = map cr_server ds"
  by (drule arg_cong [of _ _ "map cr_server"]) (simp add: o_def)

lemma sample_filter:
  "filter (\<lambda>c. cr_server c \<noteq> ''s1'') (fr_chunks sample_record) = [sample_chunk ''s2'' 2]"
  by (simp add: sample_record_def sample_chunk_def)

text \<open>C8. Durability: after any sequence of writes, removals, failover updates and server
  purges on a writable disk, a restart that reloads the database file finds exactly the metadata
  that was in memory, in every iteration order of the hash map.\<close>

theorem metadata_durable:
  assumes "reach (\<lambda>st. st = open_store None True) md_step st"
  shows "open_store (disk st) True = st \<and> store_ok (files st)"
  using md.reach_inv [OF assms] by (simp add: durable_def open_store_def)

theorem metadata_durable_witness:
  "load_from_disk (disk (replace_file_chunks ''a.txt'' ''cd'' [sample_chunk ''s1'' 1] 3 (open_store None True)))
     = [(''a.txt'', \<lparr>fr_hash = ''cd'', fr_replicas = 3, fr_chunks = [sample_chunk ''s1'' 1]\<rparr>)]"
proof -
  define st where "st = replace_file_chunks ''a.txt'' ''cd'' [sample_chunk ''s1'' 1] 3 (open_store None True)"
  have "input_ok ''a.txt'' ''cd'' [sample_chunk ''s1'' 1] 3"
    by (simp add: input_ok_def sample_chunk_def chunk_ok_def word_ok_def is_space_def in_llong_def
        llong_min_def llong_max_def count_at_counts int_max_def)
  then have "reach (\<lambda>st. st = open_store None True) md_step st"
    unfolding st_def by (blast intro: reach_init reach_step md_replace)
  then have "files (open_store (disk st) True) = files st" by (simp add: metadata_durable)
  then show ?thesis
    by (simp add: st_def open_store_def replace_file_chunks_def sample_chunk_def
        load_from_disk_def [of None])
qed

text \<open>C25. Create, query, delete: creating the entry of an upload stores exactly its hash, counts
  and chunk records under its name and changes no other file; deleting it removes it again and
  leaves every other file as it was.\<close>

theorem create_query_delete:
  assumes "word_ok f" "hash = [] \<or> word_ok hash" "in_int n" "\<forall>c \<in> set cs. chunk_ok c"
    "counted_chunks cs" "int (length cs) \<le> int_max" "umap_wf (files st)"
    and st': "st' = create_entry (entry_request f hash n cs) st"
  shows "query_metadata f st' = \<lparr>fr_hash = hash, fr_replicas = stored_count n cs, fr_chunks = cs\<rparr>
    \<and> (\<forall>g. g \<noteq> f \<longrightarrow> query_metadata g st' = query_metadata g st \<and>
         query_metadata g (delete_entry f st') = query_metadata g st)
    \<and> query_metadata f (delete_entry f st') = empty_record"
proof -
  have p: "st' = md_put f \<lparr>fr_hash = hash, fr_replicas = stored_count n cs, fr_chunks = cs\<rparr> st"
    using create_entry_request [OF assms(1-6)] by (simp add: st' md_put_def)
  have f: "f \<noteq> []" using assms(1) by (simp add: word_ok_def)
  have wf: "umap_wf (files st')" using assms(7) unfolding p by (rule mdb.wf_put)
  have "map_of (files st') g = (if g = f then Some \<lparr>fr_hash = hash, fr_replicas = stored_count n cs,
      fr_chunks = cs\<rparr> else map_of (files st) g)" for g
    unfolding p using assms(7) by (rule mdb.lookup_put)
  moreover have "map_of (files (remove_file f st')) g = (if g = f then None else map_of (files st') g)" for g
    using wf by (rule mdb.lookup_del)
  ultimately show ?thesis
    using f by (simp add: query_metadata_def get_chunks_def at_file_def delete_entry_def)
qed

theorem create_query_delete_witness:
  "query_metadata ''a'' (create_entry (entry_request ''a'' ''cd'' 2 []) (open_store None True))
     = \<lparr>fr_hash = ''cd'', fr_replicas = 2, fr_chunks = []\<rparr>"
  using create_query_delete [of "''a''" "''cd''" 2 "[]" "open_store None True"]
  by (simp add: word_ok_def is_space_def in_int_def int_min_def int_max_def counted_chunks_def
      umap_wf_def open_store_def load_from_disk_def stored_count_def)

text \<open>C26. The metadata side of a failover: for every updated file the records on the dead server
  are gone, the others and the new ones are there, every record carries the number of records of
  its chunk, and a file that is not in the update is untouched.\<close>

theorem failover_metadata:
  assumes "distinct (map fst upd)" "map_of (files st) f = Some r"
    and st': "st' = fst (atomic_replace_server_chunks dead upd st)"
  shows "case map_of upd f of
      None \<Rightarrow> map_of (files st') f = Some r
    | Some new \<Rightarrow> \<exists>r'. map_of (files st') f = Some r'
        \<and> map (\<lambda>c. c\<lparr>cr_replicas := 0\<rparr>) (fr_chunks r') =
            map (\<lambda>c. c\<lparr>cr_replicas := 0\<rparr>) (filter (\<lambda>c. cr_server c \<noteq> dead) (fr_chunks r) @ new)
        \<and> counted_chunks (fr_chunks r') \<and> fr_hash r' = fr_hash r"
proof -
  have "map_of (files st') f = (case map_of upd f of None \<Rightarrow> Some r
      | Some new \<Rightarrow> Some (replace_server_in dead new r))"
    using map_of_failover [OF assms(1), of dead "files st" f] assms(2)
    by (simp add: st' atomic_replace_server_chunks_def failover_map_def)
  then show ?thesis
    by (simp add: replace_server_in_def Let_def map_recount split: option.split)
qed

theorem failover_metadata_witness:
  "\<exists>r'. map_of (files (fst (atomic_replace_server_chunks ''s1'' [(''a'', [sample_chunk ''s3'' 0])] sample_store)))
      ''a'' = Some r' \<and> map cr_server (fr_chunks r') = [''s2'', ''s3'']"
proof -
  obtain r' where r': "map_of (files (fst (atomic_replace_server_chunks ''s1'' [(''a'', [sample_chunk ''s3'' 0])]
      sample_store))) ''a'' = Some r'"
    "map (\<lambda>c. c\<lparr>cr_replicas := 0\<rparr>) (fr_chunks r') =
      map (\<lambda>c. c\<lparr>cr_replicas := 0\<rparr>) ([sample_chunk ''s2'' 2] @ [sample_chunk ''s3'' 0])"
    using failover_metadata [of "[(''a'', [sample_chunk ''s3'' 0])]", OF _ sample_lookup refl, of "''s1''"]
    unfolding sample_filter by fastforce
  then show ?thesis using sample_servers [OF r'(2)] by (simp add: sample_chunk_def)
qed

text \<open>Purging a server leaves no record on it in any file, keeps every other record, and
  makes the per-chunk counts right again, but keeps the file-level replica count as it was.\<close>

theorem purge_metadata:
  assumes "map_of (files st) f = Some r"
    and st': "st' = delete_server_metadata server st"
  shows "\<exists>r'. map_of (files st') f = Some r'
      \<and> map (\<lambda>c. c\<lparr>cr_replicas := 0\<rparr>) (fr_chunks r') =
          map (\<lambda>c. c\<lparr>cr_replicas := 0\<rparr>) (filter (\<lambda>c. cr_server c \<noteq> server) (fr_chunks r))
      \<and> counted_chunks (fr_chunks r') \<and> fr_hash r' = fr_hash r \<and> fr_replicas r' = fr_replicas r"
  using assms(1) by (simp add: st' delete_server_metadata_def map_of_map map_recount)

theorem purge_metadata_witness:
  "\<exists>r'. map_of (files (delete_server_metadata ''s1'' sample_store)) ''a'' = Some r'
    \<and> map cr_server (fr_chunks r') = [''s2''] \<and> fr_replicas r' = 2"
proof -
  obtain r' where r': "map_of (files (delete_server_metadata ''s1'' sample_store)) ''a'' = Some r'"
    "map (\<lambda>c. c\<lparr>cr_replicas := 0\<rparr>) (fr_chunks r') = map (\<lambda>c. c\<lparr>cr_replicas := 0\<rparr>) [sample_chunk ''s2'' 2]"
    "fr_replicas r' = fr_replicas sample_record"
    using purge_metadata [OF sample_lookup refl, of "''s1''"] unfolding sample_filter by blast
  then show ?thesis using sample_servers [OF r'(2)] by (simp add: sample_chunk_def sample_record_def)
qed

end
