(* ===== verification/Head_Transfer.thy ===== *)
theory Head_Transfer
  imports Messages Server_Registry Metadata_Store
begin

text \<open>
  The requests the head server sends to storage servers, class \<^verbatim>\<open>FileReconstructor\<close> of
  \<^verbatim>\<open>src/head_server/head_server.cpp\<close> and \<^verbatim>\<open>send_chunk_to_server\<close> of \<^verbatim>\<open>src/head_server/file_upload.cpp\<close>.
  The network and the servers behind it are a parameter: a function from the address, the port and
  the bytes sent to the bytes the peer sends before it closes (\<open>None\<close> when the connect or the send
  fails), which may change the state \<open>'w\<close> of the world.
\<close>

type_synonym 'w net = "string \<Rightarrow> int \<Rightarrow> byte list \<Rightarrow> 'w \<Rightarrow> byte list option \<times> 'w"

record chunk_location =
  cl_id :: int
  cl_server :: string
  cl_path :: string

definition unique_chunk_id :: "string \<Rightarrow> int \<Rightarrow> string" where
  "unique_chunk_id filename chunk_id = filename @ ''_chunk_'' @ show_int chunk_id"

text \<open>The port of the transfer protocol: the one the registry has for the address, 8180 otherwise.\<close>

definition transfer_port_of :: "registry \<Rightarrow> string \<Rightarrow> int" where
  "transfer_port_of reg server =
     (case find (\<lambda>s. address s = server) (get_all reg) of
        None \<Rightarrow> 8180
      | Some s \<Rightarrow> if se_transfer_port s > 0 then se_transfer_port s else 8180)"

definition transfer_request ::
  "'w net \<Rightarrow> registry \<Rightarrow> string \<Rightarrow> 32 word \<Rightarrow> byte list \<Rightarrow> 'w \<Rightarrow> byte list option \<times> 'w" where
  "transfer_request net reg server typ payload w =
     (let (ip, _) = parse_address 8080 server
      in net ip (transfer_port_of reg server) (request_frame typ payload) w)"

text \<open>\<^verbatim>\<open>static_cast<int>\<close> of the stored chunk id.\<close>

definition get_chunk_locations_from_metadata :: "string \<Rightarrow> mstore \<Rightarrow> chunk_location list \<times> string" where
  "get_chunk_locations_from_metadata filename st =
     (let r = query_metadata filename st in
      (map (\<lambda>c. \<lparr>cl_id = wrap_int (cr_id c), cl_server = cr_server c, cl_path = cr_path c\<rparr>) (fr_chunks r),
       fr_hash r))"

definition no_hash :: hash_resp where
  "no_hash = \<lparr>hr_ok = False, hr_id = [], hr_hash = [], hr_error = [], hr_load = 0, hr_active = 0\<rparr>"

text \<open>\<^verbatim>\<open>get_chunk_hash\<close> ignores the result of the parse: a failed one leaves what the parser has filled
  in so far.\<close>

definition get_chunk_hash ::
  "codec \<Rightarrow> 'w net \<Rightarrow> registry \<Rightarrow> chunk_location \<Rightarrow> string \<Rightarrow> 'w \<Rightarrow> hash_resp \<times> 'w" where
  "get_chunk_hash k net reg loc filename w =
     (let (r, w') = transfer_request net reg (cl_server loc) 3 (enc_fetch_hash k
            \<lparr>fm_id = unique_chunk_id filename (cl_id loc), fm_path = cl_path loc\<rparr>) w in
      (case r of
         None \<Rightarrow> no_hash
       | Some s \<Rightarrow>
           (case read_reply s of
              None \<Rightarrow> no_hash
            | Some buf \<Rightarrow>
                (case parse_from_array (dec_hash_resp k) buf of
                   None \<Rightarrow> partial_hash_resp k buf
                 | Some resp \<Rightarrow> resp)), w'))"

text \<open>\<^verbatim>\<open>repair_chunk_on_server\<close> and \<^verbatim>\<open>send_chunk_to_server\<close> make the same request: the path on success.\<close>

definition repair_chunk_on_server ::
  "codec \<Rightarrow> 'w net \<Rightarrow> registry \<Rightarrow> chunk_location \<Rightarrow> string \<Rightarrow> byte list \<Rightarrow> 'w \<Rightarrow> string option \<times> 'w" where
  "repair_chunk_on_server k net reg loc filename data w =
     (let (r, w') = transfer_request net reg (cl_server loc) 1 (enc_chunk k
            \<lparr>cm_id = unique_chunk_id filename (cl_id loc), cm_filename = filename, cm_data = data\<rparr>) w in
      (case r of
         None \<Rightarrow> None
       | Some s \<Rightarrow>
           (case parse_reply (dec_chunk_resp k) s of
              None \<Rightarrow> None
            | Some resp \<Rightarrow> if xr_ok resp then Some (xr_path resp) else None), w'))"

definition send_chunk_to_server ::
  "codec \<Rightarrow> 'w net \<Rightarrow> registry \<Rightarrow> string \<Rightarrow> int \<Rightarrow> byte list \<Rightarrow> string \<Rightarrow> 'w \<Rightarrow> string option \<times> 'w" where
  "send_chunk_to_server k net reg server chunk_id data filename w =
     (let (r, w') = transfer_request net reg server 1 (enc_chunk k
            \<lparr>cm_id = unique_chunk_id filename chunk_id, cm_filename = filename, cm_data = data\<rparr>) w in
      (case r of
         None \<Rightarrow> None
       | Some s \<Rightarrow>
           (case parse_reply (dec_chunk_resp k) s of
              None \<Rightarrow> None
            | Some resp \<Rightarrow> if xr_ok resp then Some (xr_path resp) else None), w'))"

definition read_chunk_from_server ::
  "codec \<Rightarrow> 'w net \<Rightarrow> registry \<Rightarrow> chunk_location \<Rightarrow> string \<Rightarrow> 'w \<Rightarrow> byte list \<times> 'w" where
  "read_chunk_from_server k net reg loc filename w =
     (let (r, w') = transfer_request net reg (cl_server loc) 2 (enc_fetch k
            \<lparr>fm_id = unique_chunk_id filename (cl_id loc), fm_path = cl_path loc\<rparr>) w in
      (case r of
         None \<Rightarrow> []
       | Some s \<Rightarrow>
           (case parse_reply (dec_fetch_resp k) s of
              None \<Rightarrow> []
            | Some resp \<Rightarrow> if fr_ok resp then fr_data resp else []), w'))"

text \<open>Copying a chunk from a surviving server to a new one: the path at the target on success.\<close>

definition replicate_chunk_to_server ::
  "codec \<Rightarrow> 'w net \<Rightarrow> registry \<Rightarrow> string \<Rightarrow> int \<Rightarrow> string \<Rightarrow> string \<Rightarrow> string \<Rightarrow> 'w \<Rightarrow> string option \<times> 'w" where
  "replicate_chunk_to_server k net reg source chunk_id target filename source_path w =
     (let (data, w1) = read_chunk_from_server k net reg
            \<lparr>cl_id = chunk_id, cl_server = source, cl_path = source_path\<rparr> filename w in
      if data = [] then (None, w1)
      else repair_chunk_on_server k net reg
        \<lparr>cl_id = chunk_id, cl_server = target,
          cl_path = ''/tmp/chunks/'' @ target @ ''_'' @ unique_chunk_id filename chunk_id\<rparr> filename data w1)"

lemma send_is_repair:
  "send_chunk_to_server k net reg server i data f =
   repair_chunk_on_server k net reg \<lparr>cl_id = i, cl_server = server, cl_path = p\<rparr> f data"
  by (rule ext) (simp add: send_chunk_to_server_def repair_chunk_on_server_def)

end
