(* ===== verification/Health_Monitor.thy ===== *)
theory Health_Monitor
  imports Cxx_Prelude Complex_Main
begin

text \<open>
  The heartbeat monitor of \<^verbatim>\<open>src/common/include/dfg/health_monitor.hpp\<close>.  Clock readings are
  nanoseconds of the steady clock as integers; \<^verbatim>\<open>time_point{}\<close> is 0 and doubles as "never".
  The load figures are only copied, so a \<^verbatim>\<open>float\<close> is a rational.  A callback is the list of
  events an operation hands to it, and an operation is one step because it runs under the mutex.
  The counter \<^verbatim>\<open>missed_heartbeats\<close> is an unbounded integer here: overflowing it takes \<open>2 ^ 31\<close>
  checks without a heartbeat.
\<close>

record server_health =
  sh_id :: int
  sh_ip :: string
  sh_cpu :: rat
  sh_ram :: rat
  sh_disk :: rat
  sh_net_in :: string
  sh_net_out :: string
  sh_net_in_bps :: "64 word"
  sh_net_out_bps :: "64 word"
  sh_healthy :: bool
  sh_last :: int
  sh_missed :: int

definition default_health :: server_health where
  "default_health = \<lparr>sh_id = 0, sh_ip = [], sh_cpu = 0, sh_ram = 0, sh_disk = 0, sh_net_in = [],
     sh_net_out = [], sh_net_in_bps = 0, sh_net_out_bps = 0, sh_healthy = True, sh_last = 0,
     sh_missed = 0\<rparr>"

record monitor =
  tracked :: "(int \<times> server_health) list"
  heartbeat_timeout :: int
  max_missed :: int
  unhealthy_cb :: bool
  recovered_cb :: bool

datatype health_event = Unhealthy int server_health | Recovered int server_health

definition new_monitor :: "int \<Rightarrow> int \<Rightarrow> monitor" where
  "new_monitor timeout missed = \<lparr>tracked = [], heartbeat_timeout = timeout, max_missed = missed,
     unhealthy_cb = False, recovered_cb = False\<rparr>"

text \<open>\<^verbatim>\<open>duration_cast<seconds>\<close> truncates towards zero.\<close>

definition to_seconds :: "int \<Rightarrow> int" where
  "to_seconds ns = (if 0 \<le> ns then ns div 10 ^ 9 else - ((- ns) div 10 ^ 9))"

text \<open>\<^verbatim>\<open>servers_[server_id]\<close> value-initialises a missing record before it is read.\<close>

definition record_heartbeat ::
  "int \<Rightarrow> int \<Rightarrow> server_health \<Rightarrow> monitor \<Rightarrow> monitor \<times> health_event list" where
  "record_heartbeat now sid h m =
     (let old = (case map_of (tracked m) sid of None \<Rightarrow> default_health | Some r \<Rightarrow> r);
          was_unhealthy = (\<not> sh_healthy old \<and> sh_last old \<noteq> 0);
          new = h\<lparr>sh_healthy := True, sh_missed := 0, sh_last := now\<rparr>
      in (m\<lparr>tracked := omap_upd sid new (tracked m)\<rparr>,
          if was_unhealthy \<and> recovered_cb m then [Recovered sid new] else []))"

definition stale :: "int \<Rightarrow> int \<Rightarrow> server_health \<Rightarrow> bool" where
  "stale timeout now h \<longleftrightarrow> sh_last h \<noteq> 0 \<and> to_seconds (now - sh_last h) > timeout"

text \<open>The body of the loop of \<^verbatim>\<open>check_health\<close>: the new record, and whether it just became
  unhealthy.\<close>

definition check_entry :: "int \<Rightarrow> int \<Rightarrow> int \<Rightarrow> server_health \<Rightarrow> server_health \<times> bool" where
  "check_entry timeout maxm now h =
     (if stale timeout now h
      then (let h1 = h\<lparr>sh_missed := sh_missed h + 1\<rparr> in
            if sh_healthy h1 \<and> sh_missed h1 \<ge> maxm then (h1\<lparr>sh_healthy := False\<rparr>, True)
            else (h1, False))
      else (h, False))"

definition check_health :: "int \<Rightarrow> monitor \<Rightarrow> monitor \<times> health_event list" where
  "check_health now m =
     (let chk = check_entry (heartbeat_timeout m) (max_missed m) now in
      (m\<lparr>tracked := map (\<lambda>(sid, h). (sid, fst (chk h))) (tracked m)\<rparr>,
       [Unhealthy sid (fst (chk h)). (sid, h) \<leftarrow> tracked m, snd (chk h) \<and> unhealthy_cb m]))"

definition get_all_health :: "monitor \<Rightarrow> (int \<times> server_health) list" where
  "get_all_health m = tracked m"

definition healthy_count :: "monitor \<Rightarrow> int" where
  "healthy_count m = int (length (filter (\<lambda>(_, h). sh_healthy h) (tracked m)))"

definition total_count :: "monitor \<Rightarrow> int" where
  "total_count m = wrap_int (int (length (tracked m)))"

definition register_server :: "int \<Rightarrow> int \<Rightarrow> string \<Rightarrow> monitor \<Rightarrow> monitor" where
  "register_server now sid ip m =
     (if map_of (tracked m) sid = None
      then m\<lparr>tracked := omap_upd sid
               (default_health\<lparr>sh_id := sid, sh_ip := ip, sh_healthy := True, sh_last := now\<rparr>)
               (tracked m)\<rparr>
      else m)"

definition deregister_server :: "int \<Rightarrow> monitor \<Rightarrow> monitor" where
  "deregister_server sid m = m\<lparr>tracked := omap_del sid (tracked m)\<rparr>"

definition set_unhealthy_callback :: "bool \<Rightarrow> monitor \<Rightarrow> monitor" where
  "set_unhealthy_callback cb m = m\<lparr>unhealthy_cb := cb\<rparr>"


datatype monitor_cmd =
    Heartbeat int int server_health
  | Check int
  | Register int int string
  | Deregister int

fun monitor_exec :: "monitor_cmd \<Rightarrow> monitor \<Rightarrow> monitor \<times> health_event list" where
  "monitor_exec (Heartbeat now sid h) m = record_heartbeat now sid h m"
| "monitor_exec (Check now) m = check_health now m"
| "monitor_exec (Register now sid ip) m = (register_server now sid ip m, [])"
| "monitor_exec (Deregister sid) m = (deregister_server sid m, [])"

fun monitor_run :: "monitor_cmd list \<Rightarrow> monitor \<Rightarrow> monitor \<times> health_event list" where
  "monitor_run [] m = (m, [])"
| "monitor_run (c # cs) m =
     (let (m1, ev1) = monitor_exec c m; (m2, ev2) = monitor_run cs m1 in (m2, ev1 @ ev2))"

section \<open>Lookups\<close>

lemma fst_map_pair [simp]: "map fst (map (\<lambda>(k, v). (k, f v)) xs) = map fst xs"
  by (induction xs) auto

lemma omap_wf_map_val [simp]: "omap_wf (map (\<lambda>(k, v). (k, f v)) xs) \<longleftrightarrow> omap_wf xs"
  unfolding omap_wf_def fst_map_pair by simp

lemma map_of_check [simp]:
  "map_of (tracked (fst (check_health now m))) sid =
     map_option (\<lambda>h. fst (check_entry (heartbeat_timeout m) (max_missed m) now h)) (map_of (tracked m) sid)"
  by (simp add: check_health_def Let_def map_of_map)

lemma monitor_exec_wf [simp]: "omap_wf (tracked m) \<Longrightarrow> omap_wf (tracked (fst (monitor_exec c m)))"
  by (cases c) (simp_all add: record_heartbeat_def check_health_def register_server_def
      deregister_server_def Let_def)

lemma monitor_exec_config [simp]:
  "heartbeat_timeout (fst (monitor_exec c m)) = heartbeat_timeout m"
  "max_missed (fst (monitor_exec c m)) = max_missed m"
  "unhealthy_cb (fst (monitor_exec c m)) = unhealthy_cb m"
  "recovered_cb (fst (monitor_exec c m)) = recovered_cb m"
  by (cases c; simp add: record_heartbeat_def check_health_def register_server_def
      deregister_server_def Let_def)+

lemma monitor_run_config: "max_missed (fst (monitor_run cs m)) = max_missed m"
  by (induction cs arbitrary: m) (simp_all add: split_beta)

text \<open>The events of one server.\<close>

fun event_id :: "health_event \<Rightarrow> int" where
  "event_id (Unhealthy sid _) = sid"
| "event_id (Recovered sid _) = sid"

definition events_of :: "int \<Rightarrow> health_event list \<Rightarrow> health_event list" where
  "events_of sid evs = filter (\<lambda>e. event_id e = sid) evs"

lemma events_of_append [simp]: "events_of sid (a @ b) = events_of sid a @ events_of sid b"
  by (simp add: events_of_def)

lemma events_of_Nil [simp]: "events_of sid [] = []"
  by (simp add: events_of_def)

lemma events_of_absent:
  "sid \<notin> fst ` set xs \<Longrightarrow> events_of sid [Unhealthy k (f h). (k, h) \<leftarrow> xs, P h] = []"
  by (induction xs) (auto simp: events_of_def)

lemma events_of_check_aux:
  "distinct (map fst xs) \<Longrightarrow>
   events_of sid [Unhealthy k (f h). (k, h) \<leftarrow> xs, P h] =
     (case map_of xs sid of Some h \<Rightarrow> if P h then [Unhealthy sid (f h)] else [] | None \<Rightarrow> [])"
proof (induction xs)
  case (Cons x xs)
  obtain k h where x: "x = (k, h)" by fastforce
  show ?case
    using Cons events_of_absent [of k xs P f] by (cases "k = sid") (auto simp: x events_of_def)
qed simp

lemma events_of_check [simp]:
  assumes "omap_wf (tracked m)"
  shows "events_of sid (snd (check_health now m)) =
    (case map_of (tracked m) sid of
       Some h \<Rightarrow>
         (let (h', new) = check_entry (heartbeat_timeout m) (max_missed m) now h
          in if new \<and> unhealthy_cb m then [Unhealthy sid h'] else [])
     | None \<Rightarrow> [])"
  unfolding check_health_def Let_def
  by (simp add: events_of_check_aux omap_wf_distinct assms split_beta split: option.split)

section \<open>Notifications alternate\<close>







lemma check_entry_last [simp]: "sh_last (fst (check_entry timeout maxm now h)) = sh_last h"
  by (auto simp: check_entry_def Let_def)




section \<open>Detection\<close>

text \<open>A run of checks at the given times; how many of them find the last heartbeat too old; and
  whether that many misses leave a server healthy.\<close>

definition checks :: "int list \<Rightarrow> monitor_cmd list" where
  "checks ts = map Check ts"

definition stale_count :: "int \<Rightarrow> int \<Rightarrow> int list \<Rightarrow> nat" where
  "stale_count timeout hb ts = length (filter (\<lambda>t. to_seconds (t - hb) > timeout) ts)"

definition tolerated :: "int \<Rightarrow> nat \<Rightarrow> bool" where
  "tolerated maxm k \<longleftrightarrow> k = 0 \<or> int k < maxm"

lemma tolerated_mono: "tolerated maxm k \<Longrightarrow> j \<le> k \<Longrightarrow> tolerated maxm j"
  by (auto simp: tolerated_def)

lemma check_entry_count:
  assumes "sh_missed h = int n" "sh_healthy h \<longleftrightarrow> tolerated maxm n"
    and "k = (if stale timeout now h then Suc n else n)"
  shows "sh_missed (fst (check_entry timeout maxm now h)) = int k"
    and "sh_healthy (fst (check_entry timeout maxm now h)) \<longleftrightarrow> tolerated maxm k"
    and "snd (check_entry timeout maxm now h) \<longleftrightarrow> tolerated maxm n \<and> \<not> tolerated maxm k"
  using assms by (auto simp: check_entry_def Let_def tolerated_def split: if_splits)

lemma edge_telescope:
  "(b \<Longrightarrow> a) \<Longrightarrow> (c \<Longrightarrow> b) \<Longrightarrow>
   (if a \<and> \<not> b then 1 else 0) + (if b \<and> \<not> c then 1 else 0) = (if a \<and> \<not> c then 1 else (0::nat))"
  by (cases a; cases b; cases c) simp_all

text \<open>What holds of a tracked server after \<open>k\<close> misses.\<close>

definition counted :: "int \<Rightarrow> int \<Rightarrow> nat \<Rightarrow> monitor \<Rightarrow> bool" where
  "counted sid hb k m \<longleftrightarrow> omap_wf (tracked m) \<and> unhealthy_cb m \<and>
     (\<exists>h. map_of (tracked m) sid = Some h \<and> sh_last h = hb \<and> sh_missed h = int k \<and>
          (sh_healthy h \<longleftrightarrow> tolerated (max_missed m) k))"

lemma check_counted:
  assumes "counted sid hb k m" "hb \<noteq> 0"
    and k': "k' = k + stale_count (heartbeat_timeout m) hb [t]"
  shows "counted sid hb k' (fst (check_health t m)) \<and>
    length (events_of sid (snd (check_health t m))) =
      (if tolerated (max_missed m) k \<and> \<not> tolerated (max_missed m) k' then 1 else 0)"
proof -
  from assms(1) obtain h where h: "map_of (tracked m) sid = Some h" "sh_last h = hb"
    "sh_missed h = int k" "sh_healthy h \<longleftrightarrow> tolerated (max_missed m) k"
    and wf: "omap_wf (tracked m)" "unhealthy_cb m"
    by (auto simp: counted_def)
  have "k' = (if stale (heartbeat_timeout m) t h then Suc k else k)"
    using k' h(2) assms(2) by (auto simp: stale_count_def stale_def)
  note c = check_entry_count [OF h(3,4) this]
  show ?thesis
    using h wf c monitor_exec_config [of "Check t" m] monitor_exec_wf [of m "Check t"]
    by (simp add: counted_def split_beta)
qed

lemma checks_counted:
  assumes "counted sid hb k m" "hb \<noteq> 0"
  shows "counted sid hb (k + stale_count (heartbeat_timeout m) hb ts) (fst (monitor_run (checks ts) m)) \<and>
    length (events_of sid (snd (monitor_run (checks ts) m))) =
      (if tolerated (max_missed m) k \<and>
          \<not> tolerated (max_missed m) (k + stale_count (heartbeat_timeout m) hb ts) then 1 else 0)"
  using assms
proof (induction ts arbitrary: m k)
  case Nil
  then show ?case by (simp add: checks_def stale_count_def)
next
  case (Cons t ts)
  define k1 where "k1 = k + stale_count (heartbeat_timeout m) hb [t]"
  note step = check_counted [OF Cons.prems k1_def]
  have cfg: "heartbeat_timeout (fst (check_health t m)) = heartbeat_timeout m"
    "max_missed (fst (check_health t m)) = max_missed m"
    using monitor_exec_config [of "Check t" m] by simp_all
  have k1: "k + stale_count (heartbeat_timeout m) hb (t # ts) =
      k1 + stale_count (heartbeat_timeout m) hb ts" "k \<le> k1"
    by (simp_all add: k1_def stale_count_def)
  have mono: "tolerated (max_missed m) (k1 + stale_count (heartbeat_timeout m) hb ts) \<Longrightarrow>
      tolerated (max_missed m) k1" "tolerated (max_missed m) k1 \<Longrightarrow> tolerated (max_missed m) k"
    by (erule tolerated_mono, rule le_add1) (erule tolerated_mono, rule k1(2))
  have run: "monitor_run (checks (t # ts)) m = (fst (monitor_run (checks ts) (fst (check_health t m))),
      snd (check_health t m) @ snd (monitor_run (checks ts) (fst (check_health t m))))"
    by (simp add: checks_def split_beta)
  note ih = Cons.IH [OF step [THEN conjunct1] Cons.prems(2), unfolded cfg]
  show ?case
    unfolding k1(1) run fst_conv snd_conv events_of_append length_append
      ih [THEN conjunct2] step [THEN conjunct2]
    by (intro conjI ih [THEN conjunct1] edge_telescope [OF mono(2,1)])
qed

section \<open>Properties\<close>



text \<open>C11. Detection is exact.  After a heartbeat at time \<open>now\<close> and any checks with no further
  heartbeat, the server counts as unhealthy exactly when at least \<^verbatim>\<open>max_missed_heartbeats_\<close> of the
  checks (and at least one) came more than the timeout after the heartbeat; the unhealthy callback
  has then been called exactly once for it, and otherwise not at all.\<close>

theorem detection_exact:
  fixes ts :: "int list"
  assumes "omap_wf (tracked m)" "unhealthy_cb m" "now \<noteq> 0"
    and m': "m' = fst (record_heartbeat now sid h m)"
    and n: "n = stale_count (heartbeat_timeout m) now ts"
  shows "\<exists>h'. map_of (tracked (fst (monitor_run (checks ts) m'))) sid = Some h' \<and>
      (\<not> sh_healthy h' \<longleftrightarrow> 1 \<le> n \<and> max_missed m \<le> int n) \<and>
      length (events_of sid (snd (monitor_run (checks ts) m'))) = (if sh_healthy h' then 0 else 1)"
proof -
  have cfg: "heartbeat_timeout m' = heartbeat_timeout m" "max_missed m' = max_missed m"
    using monitor_exec_config [of "Heartbeat now sid h" m] by (simp_all add: m')
  have "counted sid now 0 m'"
    using assms(1,2) by (simp add: counted_def m' record_heartbeat_def Let_def tolerated_def)
  note c = checks_counted [OF this assms(3), of ts]
  have t: "tolerated (max_missed m) 0" by (simp add: tolerated_def)
  have max: "max_missed (fst (monitor_run (checks ts) m')) = max_missed m"
    by (rule trans [OF monitor_run_config cfg(2)])
  show ?thesis
    using c t unfolding counted_def cfg max n [symmetric] by (auto simp: tolerated_def)
qed

theorem detection_exact_witness:
  "\<exists>h'. map_of (tracked (fst (monitor_run (checks [10 ^ 11, 2 * 10 ^ 11, 3 * 10 ^ 11])
       (fst (record_heartbeat 1 7 default_health (set_unhealthy_callback True (new_monitor 60 3))))))) 7
       = Some h' \<and> \<not> sh_healthy h'"
  using detection_exact [of "set_unhealthy_callback True (new_monitor 60 3)" 1 _ 7 default_health 3
      "[10 ^ 11, 2 * 10 ^ 11, 3 * 10 ^ 11]"]
  by (auto simp: set_unhealthy_callback_def new_monitor_def stale_count_def to_seconds_def)

end
