(* ===== verification/Sha256.thy ===== *)
theory Sha256
  imports Cxx_Prelude
begin

text \<open>
  The incremental SHA-256 hasher of \<^verbatim>\<open>src/common/include/dfg/sha256.hpp\<close>.  The object's
  fields are the record \<open>sha\<close>; the eight state words are a tuple; the buffer \<^verbatim>\<open>data_\<close> is not
  initialised by the constructor, so a fresh object is \<open>sha_new junk\<close> for any 64 bytes
  \<open>junk\<close>.  The reference is FIPS 180-4: padding, message schedule by recursion on the index,
  rotations from the word library.  The main lemma \<open>sha_digest_stream\<close> says that feeding a
  message in any pieces gives the reference digest of the whole.
\<close>

unbundle bit_operations_syntax

type_synonym u32 = "32 word"
type_synonym u64 = "64 word"
type_synonym sha_words = "u32 \<times> u32 \<times> u32 \<times> u32 \<times> u32 \<times> u32 \<times> u32 \<times> u32"

record sha =
  data_buf :: "byte list"
  datalen :: nat
  bitlen :: u64
  words :: sha_words

definition sha_h0 :: sha_words where
  "sha_h0 = (0x6a09e667, 0xbb67ae85, 0x3c6ef372, 0xa54ff53a,
             0x510e527f, 0x9b05688c, 0x1f83d9ab, 0x5be0cd19)"

text \<open>The table \<^verbatim>\<open>k\<close>, row by row as the source lays it out.\<close>

definition sha_k :: "u32 list" where
  "sha_k = concat [
    [0x428a2f98, 0x71374491, 0xb5c0fbcf, 0xe9b5dba5, 0x3956c25b, 0x59f111f1, 0x923f82a4, 0xab1c5ed5],
    [0xd807aa98, 0x12835b01, 0x243185be, 0x550c7dc3, 0x72be5d74, 0x80deb1fe, 0x9bdc06a7, 0xc19bf174],
    [0xe49b69c1, 0xefbe4786, 0x0fc19dc6, 0x240ca1cc, 0x2de92c6f, 0x4a7484aa, 0x5cb0a9dc, 0x76f988da],
    [0x983e5152, 0xa831c66d, 0xb00327c8, 0xbf597fc7, 0xc6e00bf3, 0xd5a79147, 0x06ca6351, 0x14292967],
    [0x27b70a85, 0x2e1b2138, 0x4d2c6dfc, 0x53380d13, 0x650a7354, 0x766a0abb, 0x81c2c92e, 0x92722c85],
    [0xa2bfe8a1, 0xa81a664b, 0xc24b8b70, 0xc76c51a3, 0xd192e819, 0xd6990624, 0xf40e3585, 0x106aa070],
    [0x19a4c116, 0x1e376c08, 0x2748774c, 0x34b0bcb5, 0x391c0cb3, 0x4ed8aa4a, 0x5b9cca4f, 0x682e6ff3],
    [0x748f82ee, 0x78a5636f, 0x84c87814, 0x8cc70208, 0x90befffa, 0xa4506ceb, 0xbef9a3f7, 0xc67178f2]]"

definition rotr :: "u32 \<Rightarrow> nat \<Rightarrow> u32" where
  "rotr x n = (if n = 0 then x else drop_bit n x OR push_bit (32 - n) x)"

definition ch :: "u32 \<Rightarrow> u32 \<Rightarrow> u32 \<Rightarrow> u32" where
  "ch x y z = (x AND y) XOR (NOT x AND z)"

definition maj :: "u32 \<Rightarrow> u32 \<Rightarrow> u32 \<Rightarrow> u32" where
  "maj x y z = (x AND y) XOR (x AND z) XOR (y AND z)"

definition SIGMA0 :: "u32 \<Rightarrow> u32" where
  "SIGMA0 x = rotr x 2 XOR rotr x 13 XOR rotr x 22"

definition SIGMA1 :: "u32 \<Rightarrow> u32" where
  "SIGMA1 x = rotr x 6 XOR rotr x 11 XOR rotr x 25"

definition sigma0 :: "u32 \<Rightarrow> u32" where
  "sigma0 x = rotr x 7 XOR rotr x 18 XOR drop_bit 3 x"

definition sigma1 :: "u32 \<Rightarrow> u32" where
  "sigma1 x = rotr x 17 XOR rotr x 19 XOR drop_bit 10 x"

text \<open>\<^verbatim>\<open>transform\<close>: the first loop reads sixteen big-endian words, the second extends the array,
  the third runs the rounds.\<close>

definition load_be :: "byte list \<Rightarrow> nat \<Rightarrow> u32" where
  "load_be chunk j = push_bit 24 (ucast (chunk ! j)) OR push_bit 16 (ucast (chunk ! (j + 1)))
     OR push_bit 8 (ucast (chunk ! (j + 2))) OR ucast (chunk ! (j + 3))"

definition extend_m :: "u32 list \<Rightarrow> u32 list" where
  "extend_m m = (let i = length m in
     m @ [sigma1 (m ! (i - 2)) + m ! (i - 7) + sigma0 (m ! (i - 15)) + m ! (i - 16)])"

definition schedule :: "byte list \<Rightarrow> u32 list" where
  "schedule chunk = (extend_m ^^ 48) (map (\<lambda>i. load_be chunk (4 * i)) [0..<16])"

fun sha_round :: "u32 \<Rightarrow> u32 \<Rightarrow> sha_words \<Rightarrow> sha_words" where
  "sha_round ki mi (a, b, c, d, e, f, g, h) =
     (let t1 = h + SIGMA1 e + ch e f g + ki + mi;
          t2 = SIGMA0 a + maj a b c
      in (t1 + t2, a, b, c, d + t1, e, f, g))"

fun add_words :: "sha_words \<Rightarrow> sha_words \<Rightarrow> sha_words" where
  "add_words (a, b, c, d, e, f, g, h) (a', b', c', d', e', f', g', h') =
     (a + a', b + b', c + c', d + d', e + e', f + f', g + g', h + h')"

definition transform :: "byte list \<Rightarrow> sha_words \<Rightarrow> sha_words" where
  "transform chunk st =
     add_words st (fold (\<lambda>(ki, mi). sha_round ki mi) (zip sha_k (schedule chunk)) st)"

text \<open>\<^verbatim>\<open>reset\<close> and the constructor.\<close>

definition sha_reset :: "sha \<Rightarrow> sha" where
  "sha_reset s = s\<lparr>datalen := 0, bitlen := 0, words := sha_h0\<rparr>"

definition sha_new :: "byte list \<Rightarrow> sha" where
  "sha_new junk = sha_reset \<lparr>data_buf = junk, datalen = 0, bitlen = 0, words = sha_h0\<rparr>"

text \<open>\<^verbatim>\<open>memcpy(dst + off, src, n)\<close> inside one array.\<close>

definition memcpy_at :: "nat \<Rightarrow> byte list \<Rightarrow> byte list \<Rightarrow> byte list" where
  "memcpy_at off src dst = take off dst @ src @ drop (off + length src) dst"

function sha_full_blocks :: "byte list \<Rightarrow> nat \<Rightarrow> sha \<Rightarrow> nat \<times> sha" where
  "sha_full_blocks d off s =
     (if off + 64 \<le> length d
      then sha_full_blocks d (off + 64)
        (s\<lparr>words := transform (take 64 (drop off d)) (words s), bitlen := bitlen s + 512\<rparr>)
      else (off, s))"
  by pat_completeness auto
termination
  by (relation "measure (\<lambda>(d, off, s). length d - off)") auto

declare sha_full_blocks.simps [simp del]

definition sha_tail :: "byte list \<Rightarrow> nat \<times> sha \<Rightarrow> sha" where
  "sha_tail d p = (case p of (off, s) \<Rightarrow>
     if off < length d
     then s\<lparr>datalen := length d - off, data_buf := memcpy_at 0 (drop off d) (data_buf s)\<rparr>
     else s)"

definition sha_update :: "sha \<Rightarrow> byte list \<Rightarrow> sha" where
  "sha_update s d =
     (if d = [] then s
      else if datalen s > 0 then
        (let to_fill = 64 - datalen s in
         if length d < to_fill
         then s\<lparr>data_buf := memcpy_at (datalen s) d (data_buf s), datalen := datalen s + length d\<rparr>
         else
           (let buf = memcpy_at (datalen s) (take to_fill d) (data_buf s);
                s1 = s\<lparr>data_buf := buf, words := transform buf (words s),
                       bitlen := bitlen s + 512, datalen := 0\<rparr>
            in sha_tail d (sha_full_blocks d to_fill s1)))
      else sha_tail d (sha_full_blocks d 0 s))"

text \<open>\<^verbatim>\<open>finalize\<close>: \<^verbatim>\<open>while (i < n) data_[i++] = 0x00\<close> is \<open>zero_fill i n\<close>.\<close>

function zero_fill :: "nat \<Rightarrow> nat \<Rightarrow> byte list \<Rightarrow> byte list" where
  "zero_fill i n d = (if i < n then zero_fill (Suc i) n (d[i := 0]) else d)"
  by pat_completeness auto
termination
  by (relation "measure (\<lambda>(i, n, d). n - i)") auto

declare zero_fill.simps [simp del]

definition store_bitlen :: "u64 \<Rightarrow> byte list \<Rightarrow> byte list" where
  "store_bitlen n d = d[63 := ucast n, 62 := ucast (drop_bit 8 n), 61 := ucast (drop_bit 16 n),
     60 := ucast (drop_bit 24 n), 59 := ucast (drop_bit 32 n), 58 := ucast (drop_bit 40 n),
     57 := ucast (drop_bit 48 n), 56 := ucast (drop_bit 56 n)]"

definition hex_digit :: "nat \<Rightarrow> char" where
  "hex_digit n = (if n < 10 then char_of (48 + n) else char_of (87 + n))"

definition hex_byte :: "byte \<Rightarrow> string" where
  "hex_byte b = [hex_digit (unat b div 16), hex_digit (unat b mod 16)]"

definition word_bytes :: "u32 \<Rightarrow> byte list" where
  "word_bytes w = map (\<lambda>i. ucast (drop_bit (24 - i * 8) w AND 0x000000ff)) [0..<4]"

fun hash_bytes :: "sha_words \<Rightarrow> byte list" where
  "hash_bytes (a, b, c, d, e, f, g, h) =
     word_bytes a @ word_bytes b @ word_bytes c @ word_bytes d
     @ word_bytes e @ word_bytes f @ word_bytes g @ word_bytes h"

definition hash_hex :: "sha_words \<Rightarrow> string" where
  "hash_hex st = concat (map hex_byte (hash_bytes st))"

definition sha_finalize :: "sha \<Rightarrow> sha \<times> string" where
  "sha_finalize s =
     (let i = datalen s;
          s1 = (if i < 56
                then s\<lparr>data_buf := zero_fill (i + 1) 56 ((data_buf s)[i := 0x80])\<rparr>
                else
                  (let d = zero_fill (i + 1) 64 ((data_buf s)[i := 0x80])
                   in s\<lparr>words := transform d (words s), data_buf := zero_fill 0 56 d\<rparr>));
          n = bitlen s1 + of_nat (datalen s1) * 8;
          d = store_bitlen n (data_buf s1);
          s2 = s1\<lparr>bitlen := n, data_buf := d, words := transform d (words s1)\<rparr>
      in (s2, hash_hex (words s2)))"

definition sha_digest :: "sha \<Rightarrow> string" where
  "sha_digest s = snd (sha_finalize s)"

text \<open>\<^verbatim>\<open>sha256(const std::vector<char>&)\<close>; the buffer of the local object is any 64 bytes, fixed
  here to zeros, which \<open>sha_digest_stream\<close> shows to be immaterial.\<close>

definition sha256 :: "byte list \<Rightarrow> string" where
  "sha256 d = sha_digest (sha_update (sha_new (replicate 64 0)) d)"

text \<open>\<^verbatim>\<open>sha256(const std::string&)\<close>.\<close>

definition sha256_str :: "string \<Rightarrow> string" where
  "sha256_str s = sha256 (map of_char s)"

section \<open>The reference: FIPS 180-4\<close>

function fips_W :: "byte list \<Rightarrow> nat \<Rightarrow> u32" where
  "fips_W M t =
     (if t < 16 then load_be M (4 * t)
      else sigma1 (fips_W M (t - 2)) + fips_W M (t - 7) + sigma0 (fips_W M (t - 15)) + fips_W M (t - 16))"
  by pat_completeness auto
termination
  by (relation "measure snd") auto

declare fips_W.simps [simp del]

definition fips_compress :: "byte list \<Rightarrow> sha_words \<Rightarrow> sha_words" where
  "fips_compress M H =
     add_words H (fold (\<lambda>t. sha_round (sha_k ! t) (fips_W M t)) [0..<64] H)"

definition be_bytes64 :: "u64 \<Rightarrow> byte list" where
  "be_bytes64 n = map (\<lambda>i. ucast (drop_bit (56 - 8 * i) n)) [0..<8]"

definition fips_pad :: "byte list \<Rightarrow> byte list" where
  "fips_pad M = M @ [0x80] @ replicate ((119 - length M mod 64) mod 64) 0
     @ be_bytes64 (of_nat (8 * length M))"

fun blocks64 :: "byte list \<Rightarrow> byte list list" where
  "blocks64 M = (if length M < 64 then [] else take 64 M # blocks64 (drop 64 M))"

declare blocks64.simps [simp del]

definition fips_sha256 :: "byte list \<Rightarrow> string" where
  "fips_sha256 M = hash_hex (fold fips_compress (blocks64 (fips_pad M)) sha_h0)"

section \<open>The compression function is the reference one\<close>

lemma rotr_word_rotr: "n < 32 \<Longrightarrow> rotr x n = word_rotr n x"
proof (rule bit_word_eqI)
  fix i :: nat
  assume n: "n < 32" and i: "i < LENGTH(32)"
  have m: "(i + n) mod 32 = (if i + n < 32 then i + n else i + n - 32)"
    using n i by (simp add: mod_if)
  have l: "LENGTH(32) = (32 :: nat)" by simp
  show "bit (rotr x n) i = bit (word_rotr n x) i"
  proof (cases "n = 0")
    case False
    have "bit (word_rotr n x) i = bit x ((i + n) mod 32)"
      using i by (simp only: bit_word_rotr_iff l) simp
    moreover have "bit (rotr x n) i = (bit x (i + n) \<or> (32 - n \<le> i \<and> bit x (i - (32 - n))))"
      using False i by (simp add: rotr_def bit_or_iff bit_drop_bit_eq bit_push_bit_iff add.commute)
    moreover have "\<not> i + n < 32 \<Longrightarrow> \<not> bit x (i + n)"
      using bit_imp_le_length [of x "i + n"] by auto
    ultimately show ?thesis using n i by (auto simp: m)
  qed (use i in \<open>simp add: rotr_def bit_word_rotr_iff\<close>)
qed

lemma length_extend_m [simp]: "length (extend_m m) = Suc (length m)"
  by (simp add: extend_m_def Let_def)

lemma extend_m_fips:
  "(extend_m ^^ j) (map (fips_W M) [0..<16]) = map (fips_W M) [0..<16 + j]"
proof (induction j)
  case (Suc j)
  have "fips_W M (16 + j) = sigma1 (fips_W M (14 + j)) + fips_W M (9 + j)
      + sigma0 (fips_W M (1 + j)) + fips_W M j"
    by (subst fips_W.simps) (simp add: add.commute)
  then have "extend_m (map (fips_W M) [0..<16 + j]) = map (fips_W M) [0..<16 + j] @ [fips_W M (16 + j)]"
    by (simp add: extend_m_def Let_def add.commute)
  moreover have "[0..<16 + Suc j] = [0..<16 + j] @ [16 + j]" by (simp flip: upt_Suc_append)
  ultimately show ?case using Suc by simp
qed simp

lemma schedule_fips: "schedule M = map (fips_W M) [0..<64]"
proof -
  have "map (\<lambda>i. load_be M (4 * i)) [0..<16] = map (fips_W M) [0..<16]"
    by (auto simp: fips_W.simps)
  then show ?thesis
    unfolding schedule_def using extend_m_fips [of 48 M] by (simp del: map_eq_conv)
qed

lemma length_sha_k [simp]: "length sha_k = 64"
  by (simp add: sha_k_def)

lemma transform_fips: "transform = fips_compress"
proof (intro ext)
  fix M st
  have "zip sha_k (schedule M) = map (\<lambda>t. (sha_k ! t, fips_W M t)) [0..<64]"
    by (rule nth_equalityI) (simp_all add: schedule_fips)
  then show "transform M st = fips_compress M st"
    by (simp add: transform_def fips_compress_def fold_map comp_def)
qed

section \<open>Block structure\<close>

lemma blocks64_short [simp]: "length M < 64 \<Longrightarrow> blocks64 M = []"
  by (subst blocks64.simps) simp

lemma blocks64_Cons: "length b = 64 \<Longrightarrow> blocks64 (b @ M) = b # blocks64 M"
  by (subst blocks64.simps) simp

lemma blocks64_single [simp]: "length b = 64 \<Longrightarrow> blocks64 b = [b]"
  using blocks64_Cons [of b "[]"] by simp

lemma blocks64_append: "length M mod 64 = 0 \<Longrightarrow> blocks64 (M @ N) = blocks64 M @ blocks64 N"
proof (induction M rule: blocks64.induct)
  case (1 M)
  show ?case
  proof (cases "length M < 64")
    case True
    with "1.prems" show ?thesis by simp
  next
    case False
    with "1.prems" have "length (drop 64 M) mod 64 = 0" by (simp add: mod_if)
    with "1.IH" False have IH: "blocks64 (drop 64 M @ N) = blocks64 (drop 64 M) @ blocks64 N"
      by simp
    have "blocks64 (M @ N) = blocks64 (take 64 M @ (drop 64 M @ N))"
      by (simp only: append.assoc [symmetric] append_take_drop_id)
    also have "\<dots> = take 64 M # blocks64 (drop 64 M @ N)"
      using False by (intro blocks64_Cons) simp
    also have "\<dots> = blocks64 (take 64 M @ drop 64 M) @ blocks64 N"
      using False by (subst (2) blocks64_Cons) (simp_all add: IH)
    finally show ?thesis by simp
  qed
qed

text \<open>The part of a message that has gone through the compression function, and the rest.\<close>

definition full_part :: "byte list \<Rightarrow> byte list" where
  "full_part M = take (64 * (length M div 64)) M"

definition rest_part :: "byte list \<Rightarrow> byte list" where
  "rest_part M = drop (64 * (length M div 64)) M"

lemma full_rest [simp]: "full_part M @ rest_part M = M"
  by (simp add: full_part_def rest_part_def)

lemma length_full [simp]: "length (full_part M) = 64 * (length M div 64)"
  unfolding full_part_def length_take by (rule min_absorb2) (rule times_div_less_eq_dividend)

lemma length_rest [simp]: "length (rest_part M) = length M mod 64"
  unfolding rest_part_def length_drop by (rule minus_mult_div_eq_mod)

lemma full_rest_unique:
  assumes "length F mod 64 = 0" "length R < 64"
  shows "full_part (F @ R) = F" "rest_part (F @ R) = R"
proof -
  obtain k where "length F = 64 * k" using assms(1) by (auto elim: dvdE simp: mod_eq_0_iff_dvd)
  then have "64 * ((length F + length R) div 64) = length F" using assms(2) by simp
  then show "full_part (F @ R) = F" "rest_part (F @ R) = R"
    by (simp_all add: full_part_def rest_part_def)
qed

text \<open>What an object that has consumed the message \<open>M\<close> looks like: a refinement relation.\<close>

definition sha_abs :: "sha \<Rightarrow> byte list \<Rightarrow> bool" where
  "sha_abs s M \<longleftrightarrow> length (data_buf s) = 64 \<and> datalen s = length M mod 64
     \<and> take (datalen s) (data_buf s) = rest_part M
     \<and> words s = fold transform (blocks64 (full_part M)) sha_h0
     \<and> bitlen s = of_nat (512 * (length M div 64))"

lemma sha_abs_new: "length junk = 64 \<Longrightarrow> sha_abs (sha_new junk) []"
  by (simp add: sha_abs_def sha_new_def sha_reset_def full_part_def rest_part_def)

text \<open>The three ways \<open>sha_update\<close> moves the object: a short piece goes into the buffer, whole
  blocks go through the compression function, the tail goes into the empty buffer.\<close>

lemma sha_abs_buffer:
  assumes "sha_abs s M" "datalen s + length d < 64"
  shows "sha_abs (s\<lparr>data_buf := memcpy_at (datalen s) d (data_buf s),
    datalen := datalen s + length d\<rparr>) (M @ d)"
proof -
  let ?R = "rest_part M @ d"
  have R: "length ?R < 64" using assms by (simp add: sha_abs_def)
  have eq: "M @ d = full_part M @ ?R" by (metis append.assoc full_rest)
  have fr: "full_part (M @ d) = full_part M" "rest_part (M @ d) = ?R"
    unfolding eq using R by (simp_all add: full_rest_unique)
  then have len: "length (M @ d) div 64 = length M div 64" "length (M @ d) mod 64 = length ?R"
    by (metis length_full mult_cancel1 zero_neq_numeral, metis length_rest)
  show ?thesis
    using assms fr len by (auto simp: sha_abs_def memcpy_at_def)
qed

lemma sha_abs_block:
  assumes "sha_abs s M" "datalen s = 0" "length b = 64"
  shows "sha_abs (s\<lparr>words := transform b (words s), bitlen := bitlen s + 512\<rparr>) (M @ b)"
proof -
  from assms have M: "length M mod 64 = 0" by (simp add: sha_abs_def)
  then have F: "full_part M = M" "full_part (M @ b) = M @ b" "rest_part (M @ b) = []"
    using assms(3) full_rest_unique [of M "[]"] full_rest_unique [of "M @ b" "[]"] by simp_all
  have "length (M @ b) div 64 = length M div 64 + 1" "length (M @ b) mod 64 = 0"
    using M assms(3) by simp_all
  moreover have "blocks64 (M @ b) = blocks64 M @ [b]"
    using M assms(3) by (simp add: blocks64_append)
  ultimately show ?thesis
    using assms F by (simp add: sha_abs_def algebra_simps)
qed

lemma sha_abs_full_blocks:
  assumes "sha_abs s (M @ take off d)" "datalen s = 0" "off \<le> length d"
    "sha_full_blocks d off s = (off', s')"
  shows "sha_abs s' (M @ take off' d) \<and> datalen s' = 0 \<and> off' \<le> length d \<and> length d - off' < 64"
  using assms
proof (induction d off s rule: sha_full_blocks.induct)
  case (1 d off s)
  show ?case
  proof (cases "off + 64 \<le> length d")
    case True
    let ?b = "take 64 (drop off d)"
    let ?s = "s\<lparr>words := transform ?b (words s), bitlen := bitlen s + 512\<rparr>"
    have "sha_abs ?s ((M @ take off d) @ ?b)"
      using "1.prems" True by (intro sha_abs_block) simp_all
    then have "sha_abs ?s (M @ take (off + 64) d)" by (simp add: take_add)
    then show ?thesis
      using "1.IH" [OF True] "1.prems" True by (simp add: sha_full_blocks.simps [of d off])
  next
    case False
    then show ?thesis using "1.prems" by (simp add: sha_full_blocks.simps [of d off])
  qed
qed

lemma sha_abs_tail:
  assumes "sha_abs s (M @ take off d)" "datalen s = 0" "off \<le> length d" "length d - off < 64"
  shows "sha_abs (sha_tail d (off, s)) (M @ d)"
proof (cases "off < length d")
  case True
  have "sha_abs (s\<lparr>data_buf := memcpy_at (datalen s) (drop off d) (data_buf s),
      datalen := datalen s + length (drop off d)\<rparr>) ((M @ take off d) @ drop off d)"
    using assms by (intro sha_abs_buffer) simp_all
  moreover have "sha_tail d (off, s) = s\<lparr>data_buf := memcpy_at (datalen s) (drop off d) (data_buf s),
      datalen := datalen s + length (drop off d)\<rparr>"
    using True assms(2) by (simp add: sha_tail_def)
  ultimately show ?thesis by simp
next
  case False
  with assms show ?thesis by (simp add: sha_tail_def)
qed

lemma sha_abs_fill:
  assumes "sha_abs s M" "datalen s > 0" "n = 64 - datalen s" "n \<le> length d"
    "buf = memcpy_at (datalen s) (take n d) (data_buf s)"
  shows "sha_abs (s\<lparr>data_buf := buf, words := transform buf (words s),
    bitlen := bitlen s + 512, datalen := 0\<rparr>) (M @ take n d)"
proof -
  have dl: "datalen s < 64" using assms(1) by (simp add: sha_abs_def)
  have b: "buf = rest_part M @ take n d" and lb: "length buf = 64"
    using assms dl by (auto simp: sha_abs_def memcpy_at_def)
  let ?s = "s\<lparr>data_buf := buf, datalen := 0\<rparr>"
  have "sha_abs ?s (full_part M)"
    using assms(1) lb full_rest_unique [of "full_part M" "[]"] by (simp add: sha_abs_def)
  then have "sha_abs (?s\<lparr>words := transform buf (words ?s), bitlen := bitlen ?s + 512\<rparr>) (full_part M @ buf)"
    using lb by (intro sha_abs_block) simp_all
  moreover have "full_part M @ buf = M @ take n d" unfolding b by (metis append.assoc full_rest)
  ultimately show ?thesis by (simp add: sha_abs_def)
qed

lemma sha_abs_finish:
  assumes "sha_abs s (M @ take n d)" "datalen s = 0" "n \<le> length d"
  shows "sha_abs (sha_tail d (sha_full_blocks d n s)) (M @ d)"
proof -
  obtain off' s' where r: "sha_full_blocks d n s = (off', s')" by (cases "sha_full_blocks d n s")
  show ?thesis
    using sha_abs_full_blocks [OF assms r] by (auto simp: r intro: sha_abs_tail)
qed

lemma sha_abs_update:
  assumes abs: "sha_abs s M"
  shows "sha_abs (sha_update s d) (M @ d)"
proof -
  consider (short) "d = []" | (empty) "d \<noteq> []" "datalen s = 0"
    | (buffer) "d \<noteq> []" "datalen s > 0" "length d < 64 - datalen s"
    | (fill) "d \<noteq> []" "datalen s > 0" "64 - datalen s \<le> length d"
    by linarith
  then show ?thesis
  proof cases
    case short
    then show ?thesis using abs by (simp add: sha_update_def)
  next
    case empty
    then show ?thesis
      using abs sha_abs_finish [of s M 0 d] by (simp add: sha_update_def)
  next
    case buffer
    then show ?thesis
      using sha_abs_buffer [OF abs, of d] by (simp add: sha_update_def)
  next
    case fill
    then show ?thesis
      using sha_abs_finish [OF sha_abs_fill [OF abs fill(2) refl fill(3) refl]]
      by (simp add: sha_update_def Let_def)
  qed
qed

lemma sha_abs_stream: "sha_abs s M \<Longrightarrow> sha_abs (foldl sha_update s ds) (M @ concat ds)"
proof (induction ds arbitrary: s M)
  case (Cons d ds)
  from Cons.IH [OF sha_abs_update [OF Cons.prems, of d]] show ?case by simp
qed simp

section \<open>Padding\<close>

lemma zero_fill_eq:
  "i \<le> n \<Longrightarrow> n \<le> length d \<Longrightarrow> zero_fill i n d = take i d @ replicate (n - i) 0 @ drop n d"
proof (induction i n d rule: zero_fill.induct)
  case (1 i n d)
  show ?case
  proof (cases "i < n")
    case True
    then have "zero_fill i n d = zero_fill (Suc i) n (d[i := 0])" by (simp add: zero_fill.simps [of i])
    also have "\<dots> = take (Suc i) (d[i := 0]) @ replicate (n - Suc i) 0 @ drop n (d[i := 0])"
      using True "1.prems" by (intro "1.IH") simp_all
    also have "take (Suc i) (d[i := 0]) = take i d @ [0]"
      using True "1.prems" by (simp add: take_Suc_conv_app_nth)
    finally show ?thesis
      using True "1.prems" by (simp add: drop_update_cancel Suc_diff_le flip: replicate_Suc)
  next
    case False
    with "1.prems" show ?thesis by (subst zero_fill.simps) simp
  qed
qed

lemma length_8_cases:
  "length xs = 8 \<Longrightarrow> \<exists>x0 x1 x2 x3 x4 x5 x6 x7. xs = [x0, x1, x2, x3, x4, x5, x6, x7]"
  by (auto simp: numeral_eq_Suc length_Suc_conv)

lemma store_bitlen_eq:
  assumes "length d = 64"
  shows "store_bitlen n d = take 56 d @ be_bytes64 n"
proof -
  have l: "length (take 56 d) = 56" "length (drop 56 d) = 8" using assms by simp_all
  then obtain x0 x1 x2 x3 x4 x5 x6 x7 where x: "drop 56 d = [x0, x1, x2, x3, x4, x5, x6, x7]"
    using length_8_cases by blast
  have d: "d = take 56 d @ [x0, x1, x2, x3, x4, x5, x6, x7]" using x by (metis append_take_drop_id)
  have e: "be_bytes64 n = [ucast (drop_bit 56 n), ucast (drop_bit 48 n), ucast (drop_bit 40 n),
    ucast (drop_bit 32 n), ucast (drop_bit 24 n), ucast (drop_bit 16 n), ucast (drop_bit 8 n), ucast n]"
    by (simp add: be_bytes64_def upt_rec)
  show ?thesis
    unfolding e store_bitlen_def by (subst d) (simp add: list_update_append assms)
qed

lemma sha_pad_block:
  assumes "length buf = 64" "dl < m" "m \<le> 64"
  shows "zero_fill (dl + 1) m (buf[dl := 0x80]) = take dl buf @ [0x80] @ replicate (m - dl - 1) 0 @ drop m buf"
proof -
  have "take (dl + 1) (buf[dl := 0x80]) = take dl buf @ [0x80]"
    using assms by (simp add: take_Suc_conv_app_nth)
  then show ?thesis
    using assms by (subst zero_fill_eq) (simp_all add: drop_update_cancel)
qed

lemma sha_digest_abs:
  assumes abs: "sha_abs s M"
  shows "sha_digest s = fips_sha256 M"
proof -
  define dl where "dl = datalen s"
  define R where "R = rest_part M"
  define n :: u64 where "n = of_nat (8 * length M)"
  have buf: "length (data_buf s) = 64" "take dl (data_buf s) = R" "dl = length M mod 64" "dl < 64"
    and w: "words s = fold transform (blocks64 (full_part M)) sha_h0"
    using abs unfolding sha_abs_def dl_def R_def by auto
  have "length M = 64 * (length M div 64) + length M mod 64" by simp
  then have "8 * length M = 512 * (length M div 64) + (length M mod 64) * 8" by linarith
  then have n: "bitlen s + of_nat dl * 8 = n"
    using abs unfolding n_def sha_abs_def dl_def by (simp only: of_nat_add of_nat_mult) simp
  have M: "fips_pad M = full_part M @ R @ [0x80] @ replicate ((119 - dl) mod 64) 0 @ be_bytes64 n"
    unfolding fips_pad_def R_def n_def buf(3) by (metis append.assoc full_rest)
  have hash: "fips_sha256 M = hash_hex (fold transform (blocks64 B) (words s))"
    if "fips_pad M = full_part M @ B" for B
    using that by (simp add: fips_sha256_def blocks64_append w transform_fips)
  have be [simp]: "length (be_bytes64 n) = 8" by (simp add: be_bytes64_def)
  have lR: "length R = dl" by (simp add: R_def buf(3))
  show ?thesis
  proof (cases "dl < 56")
    case True
    define X :: "byte list" where "X = R @ [0x80] @ replicate (55 - dl) 0"
    define d where "d = X @ be_bytes64 n"
    have lX: "length X = 56" using True by (simp add: X_def lR)
    have "zero_fill (dl + 1) 56 ((data_buf s)[dl := 0x80]) = X @ drop 56 (data_buf s)"
      using sha_pad_block [OF buf(1) True] buf(2) by (simp add: X_def)
    then have "store_bitlen n (zero_fill (dl + 1) 56 ((data_buf s)[dl := 0x80])) = d"
      using buf(1) lX by (simp add: store_bitlen_eq d_def)
    then have "sha_digest s = hash_hex (transform d (words s))"
      using True n by (simp add: sha_digest_def sha_finalize_def Let_def dl_def)
    moreover have "(119 - dl) mod 64 = 55 - dl" using True by (simp add: mod_if)
    then have "fips_pad M = full_part M @ d" by (simp add: M d_def X_def)
    moreover have "length d = 64" by (simp add: d_def lX)
    ultimately show ?thesis using hash [of d] by simp
  next
    case False
    define d1 where "d1 = R @ [0x80] @ replicate (63 - dl) 0"
    define d2 where "d2 = replicate 56 0 @ be_bytes64 n"
    have len: "length d1 = 64" "length d2 = 64" using False buf(4) by (simp_all add: d1_def d2_def lR)
    have z: "zero_fill (dl + 1) 64 ((data_buf s)[dl := 0x80]) = d1"
      using sha_pad_block [OF buf(1) buf(4)] buf(1,2) by (simp add: d1_def)
    have "store_bitlen n (zero_fill 0 56 d1) = d2"
      using len(1) by (subst store_bitlen_eq) (simp_all add: zero_fill_eq d2_def)
    then have "sha_digest s = hash_hex (transform d2 (transform d1 (words s)))"
      using False n z by (simp add: sha_digest_def sha_finalize_def Let_def dl_def)
    moreover have "(119 - dl) mod 64 = (63 - dl) + 56" using False buf(4) by (simp add: mod_if)
    then have "replicate ((119 - dl) mod 64) (0::byte) = replicate (63 - dl) 0 @ replicate 56 0"
      by (simp only: replicate_add)
    then have "fips_pad M = full_part M @ d1 @ d2"
      by (simp only: M d1_def d2_def append.assoc)
    ultimately show ?thesis
      using hash [of "d1 @ d2"] len by (simp add: blocks64_Cons)
  qed
qed

lemma sha_digest_stream:
  "length junk = 64 \<Longrightarrow> sha_digest (foldl sha_update (sha_new junk) ds) = fips_sha256 (concat ds)"
  using sha_abs_stream [OF sha_abs_new, of junk ds] by (simp add: sha_digest_abs)

lemma sha256_fips: "sha256 d = fips_sha256 d"
  using sha_digest_stream [of "replicate 64 0" "[d]"] by (simp add: sha256_def)

lemma hex_digit_mem: "n < 16 \<Longrightarrow> hex_digit n \<in> set ''0123456789abcdef''"
proof -
  assume "n < 16"
  then have "n \<in> set [0..<16]" by simp
  moreover have "\<forall>n \<in> set [0..<16]. hex_digit n \<in> set ''0123456789abcdef''" by code_simp
  ultimately show ?thesis by blast
qed

lemma hex_byte_mem: "set (hex_byte b) \<subseteq> set ''0123456789abcdef''"
proof -
  have "unat b < 256" using unsigned_less [of b, where ?'a = nat] by simp
  then have "unat b div 16 < 16" "unat b mod 16 < 16" by auto
  then have "\<forall>c \<in> set (hex_byte b). c \<in> set ''0123456789abcdef''"
    using hex_digit_mem unfolding hex_byte_def by (metis empty_iff list.set set_ConsD)
  then show ?thesis by blast
qed

lemma length_hash_bytes: "length (hash_bytes st) = 32"
  by (cases st rule: hash_bytes.cases) (simp add: word_bytes_def)

lemma length_hex_bytes: "length (concat (map hex_byte bs)) = 2 * length bs"
  by (induction bs) (simp_all add: hex_byte_def)

lemma sha256_hash_hex: "\<exists>st. sha256 d = hash_hex st"
  unfolding sha256_fips fips_sha256_def by blast

lemma sha256_length [simp]: "length (sha256 d) = 64"
proof -
  obtain st where "sha256 d = hash_hex st" using sha256_hash_hex by blast
  then show ?thesis by (simp add: hash_hex_def length_hex_bytes length_hash_bytes)
qed

lemma sha256_hex: "set (sha256 d) \<subseteq> set ''0123456789abcdef''"
proof -
  obtain st where "sha256 d = hash_hex st" using sha256_hash_hex by blast
  moreover have "set (hash_hex st) \<subseteq> set ''0123456789abcdef''"
    unfolding hash_hex_def using hex_byte_mem by (simp only: set_concat set_map) blast
  ultimately show ?thesis by simp
qed

lemma sha256_word_ok [simp]: "word_ok (sha256 d)"
proof -
  have "\<forall>c \<in> set ''0123456789abcdef''. \<not> is_space c" by code_simp
  then show ?thesis
    using sha256_hex [of d] sha256_length [of d] unfolding word_ok_def by fastforce
qed

section \<open>The hasher contract\<close>

text \<open>
  What the upload and download paths rely on: a hash object fed in pieces gives the hash of the
  concatenation.  The consequences they use are proved once for any hasher.
\<close>

locale incremental_hasher =
  fixes new :: 'h and upd :: "'h \<Rightarrow> 'd list \<Rightarrow> 'h" and dig :: "'h \<Rightarrow> string"
    and hash :: "'d list \<Rightarrow> string"
  assumes digest_stream: "dig (foldl upd new ds) = hash (concat ds)"
begin

lemma digest_single: "dig (upd new d) = hash d"
  using digest_stream [of "[d]"] by simp

lemma digest_rechunk: "concat ds = concat es \<Longrightarrow> dig (foldl upd new ds) = dig (foldl upd new es)"
  by (simp add: digest_stream)

end

interpretation sha: incremental_hasher "sha_new (replicate 64 0)" sha_update sha_digest sha256
  by unfold_locales (simp add: sha_digest_stream sha256_fips)

section \<open>Properties\<close>

text \<open>C2. Feeding a hasher any sequence of buffers, of any lengths, and asking for the digest gives
  the FIPS 180-4 digest of the concatenated buffers, whatever the uninitialised buffer held.\<close>

theorem sha_stream_is_fips:
  assumes "length junk = 64"
  shows "sha_digest (foldl sha_update (sha_new junk) ds) = fips_sha256 (concat ds)"
  using assms by (rule sha_digest_stream)

theorem sha_stream_is_fips_witness:
  "sha_digest (foldl sha_update (sha_new (replicate 64 7)) [[0x61], [], [0x62, 0x63]])
     = fips_sha256 [0x61, 0x62, 0x63]"
  using sha_stream_is_fips [of "replicate 64 7" "[[0x61], [], [0x62, 0x63]]"] by simp

text \<open>A digest is always 64 lower-case hexadecimal characters, so it survives the
  whitespace-separated metadata format and the space-separated wire headers.\<close>

theorem sha256_is_hex_word:
  "length (sha256 d) = 64 \<and> set (sha256 d) \<subseteq> set ''0123456789abcdef'' \<and> word_ok (sha256 d)"
  using sha256_length [of d] sha256_hex [of d] sha256_word_ok [of d] by blast

end
