(* ===== verification/File_Upload.thy ===== *)
theory File_Upload
  imports Head_Transfer Health_Monitor Sha256
begin

text \<open>
  Uploads, \<^verbatim>\<open>src/head_server/file_upload.cpp\<close>: the choice of servers for a chunk, the transfers to
  them, the metadata entry, and the protocol with the client (\<^verbatim>\<open>handle_client_upload\<close>).  A transfer
  is run when it is submitted to the pool; the world \<open>'w\<close> is threaded in that order.  An uncaught
  exception is \<open>Inl\<close>.
\<close>

type_synonym health_map = "(int \<times> server_health) list"

record 'w head_env =
  he_codec :: codec
  he_net :: "'w net"
  he_sort :: "health_map \<Rightarrow> string list \<Rightarrow> string list"
  he_config_servers :: "(string \<times> int) list"
  he_registry :: registry
  he_monitor :: monitor
  he_replication :: int
  he_chunk_size :: nat

section \<open>Placement\<close>

definition load_cluster_servers :: "(string \<times> int) list \<Rightarrow> string list" where
  "load_cluster_servers entries =
     (let s = map (\<lambda>(host, port). host @ '':'' @ show_int port) entries in
      if s = [] then [''127.0.0.1:8080'', ''127.0.0.1:8081'', ''127.0.0.1:8082''] else s)"

definition is_of :: "string \<Rightarrow> server_health \<Rightarrow> bool" where
  "is_of srv h \<longleftrightarrow> sh_ip h = fst (parse_address 8080 srv) \<or> sh_ip h = srv"

text \<open>A server is usable when the first health record of its address is healthy, or there is none.\<close>

definition usable :: "health_map \<Rightarrow> string \<Rightarrow> bool" where
  "usable hm srv = (case find (\<lambda>(_, h). is_of srv h) hm of None \<Rightarrow> True | Some (_, h) \<Rightarrow> sh_healthy h)"

definition disk_of :: "health_map \<Rightarrow> string \<Rightarrow> rat" where
  "disk_of hm srv = fold (\<lambda>(_, h) d. if is_of srv h then sh_disk h else d) hm 100"

definition less_disk :: "health_map \<Rightarrow> string \<Rightarrow> string \<Rightarrow> bool" where
  "less_disk hm a b \<longleftrightarrow> disk_of hm a < disk_of hm b"

definition select_servers_for_chunk :: "'w head_env \<Rightarrow> int \<Rightarrow> string list" where
  "select_servers_for_chunk env replication_factor =
     (let hm = get_all_health (he_monitor env);
          registered = get_addresses (he_registry env);
          servers_copy = (if registered = [] then load_cluster_servers (he_config_servers env) else registered);
          healthy_servers = filter (usable hm) servers_copy;
          candidates = he_sort env hm (if healthy_servers \<noteq> [] then healthy_servers else servers_copy);
          count = min replication_factor (wrap_int (int (length candidates)))
      in take (nat count) candidates)"

section \<open>Transfers\<close>

record transfer =
  tr_chunk :: int
  tr_server :: string
  tr_checksum :: string
  tr_size :: nat
  tr_outcome :: "string option"

fun run_transfers ::
  "'w head_env \<Rightarrow> string list \<Rightarrow> int \<Rightarrow> byte list \<Rightarrow> string \<Rightarrow> string \<Rightarrow> 'w \<Rightarrow> transfer list \<times> 'w" where
  "run_transfers env [] chunk_id data filename checksum w = ([], w)"
| "run_transfers env (server # targets) chunk_id data filename checksum w =
     (let (r, w1) = send_chunk_to_server (he_codec env) (he_net env) (he_registry env) server chunk_id data filename w;
          (ts, w2) = run_transfers env targets chunk_id data filename checksum w1
      in (\<lparr>tr_chunk = chunk_id, tr_server = server, tr_checksum = checksum, tr_size = length data,
           tr_outcome = r\<rparr> # ts, w2))"

definition submit_chunk_transfers ::
  "'w head_env \<Rightarrow> int \<Rightarrow> byte list \<Rightarrow> string \<Rightarrow> string \<Rightarrow> transfer list \<Rightarrow> 'w \<Rightarrow> transfer list \<times> 'w" where
  "submit_chunk_transfers env chunk_id data filename checksum pending w =
     (let (ts, w') = run_transfers env (select_servers_for_chunk env (he_replication env)) chunk_id data filename checksum w
      in (pending @ ts, w'))"

record chunk_info =
  ci_id :: int
  ci_server :: string
  ci_path :: string
  ci_size :: nat
  ci_checksum :: string
  ci_replicas :: int

definition collect_transfers :: "string \<Rightarrow> transfer list \<Rightarrow> chunk_info list" where
  "collect_transfers filename pending =
     (let counts = count_keys tr_chunk (filter (\<lambda>t. tr_outcome t \<noteq> None) pending) in
      map (\<lambda>t. \<lparr>ci_id = tr_chunk t, ci_server = tr_server t,
          ci_path = (case tr_outcome t of
             Some (c # cs) \<Rightarrow> c # cs
           | _ \<Rightarrow> ''/tmp/chunks/'' @ tr_server t @ ''_'' @ filename @ ''_chunk_'' @ show_int (tr_chunk t)),
          ci_size = tr_size t, ci_checksum = tr_checksum t,
          ci_replicas = (case map_of counts (tr_chunk t) of None \<Rightarrow> 0 | Some n \<Rightarrow> n)\<rparr>)
        (filter (\<lambda>t. tr_outcome t \<noteq> None) pending))"

definition info_line :: "chunk_info \<Rightarrow> string" where
  "info_line c = show_int (ci_id c) @ '' '' @ ci_server c @ '' '' @ ci_path c @ '' ''
     @ ci_checksum c @ '' '' @ show_int (ci_replicas c) @ [nl]"

definition store_metadata :: "'w head_env \<Rightarrow> string \<Rightarrow> chunk_info list \<Rightarrow> string \<Rightarrow> mstore \<Rightarrow> mstore" where
  "store_metadata env filename chunks file_hash st =
     create_entry (filename @ [nl] @ ''TTL=3600'' @ [nl] @ ''HASH='' @ file_hash @ [nl]
       @ ''REPLICAS='' @ show_int (he_replication env) @ [nl] @ concat (map info_line chunks)) st"

section \<open>The client protocol\<close>

text \<open>\<^verbatim>\<open>read_line\<close>: up to a newline or the end of the stream.\<close>

fun read_line :: "byte list \<Rightarrow> string \<times> byte list" where
  "read_line [] = ([], [])"
| "read_line (b # s) =
     (if b = 10 then ([], s) else (let (l, r) = read_line s in (char_of (unat b) # l, r)))"

lemma read_line_shorter: "fst (read_line s) \<noteq> [] \<Longrightarrow> length (snd (read_line s)) < length s"
proof -
  have le: "length (snd (read_line s)) \<le> length s" for s
    by (induction s) (simp_all add: Let_def case_prod_unfold)
  assume "fst (read_line s) \<noteq> []"
  then show ?thesis by (cases s) (use le in \<open>auto simp: Let_def case_prod_unfold less_Suc_eq_le\<close>)
qed

definition parse_chunk_header :: "string \<Rightarrow> (int \<times> nat \<times> string) option" where
  "parse_chunk_header s =
     (case read_int s of
        None \<Rightarrow> None
      | Some (chunk_id, s1) \<Rightarrow>
          (case read_size s1 of
             None \<Rightarrow> None
           | Some (chunk_size, s2) \<Rightarrow>
               (case read_word s2 of None \<Rightarrow> None | Some (h, _) \<Rightarrow> Some (chunk_id, chunk_size, h))))"

text \<open>How the receive loop ends: the connection is given up after the text sent, an exception leaves
  the handler, or all chunks are in.\<close>

datatype rx_result =
    Rx_closed string
  | Rx_thrown cxx_exn
  | Rx_done "transfer list" sha nat

text \<open>A \<^verbatim>\<open>std::vector\<close> of more than \<open>2 ^ 63 - 1\<close> bytes cannot be made.\<close>

definition max_vector :: nat where
  "max_vector = 2 ^ 63 - 1"

function receive_chunks ::
  "'w head_env \<Rightarrow> string \<Rightarrow> nat \<Rightarrow> nat \<Rightarrow> transfer list \<Rightarrow> sha \<Rightarrow> byte list \<Rightarrow> 'w \<Rightarrow> rx_result \<times> 'w" where
  "receive_chunks env filename num_chunks received pending hasher input w =
     (if \<not> received < num_chunks then (Rx_done pending hasher received, w)
      else
        (let line = fst (read_line input); rest = snd (read_line input) in
         if line = [] then (Rx_closed [], w)
         else if starts_with ''CHUNK '' line then
           (case parse_chunk_header (drop 6 line) of
              None \<Rightarrow> (Rx_closed (''ERROR: Malformed CHUNK header: '' @ line @ [nl]), w)
            | Some (chunk_id, chunk_size, client_hash) \<Rightarrow>
                if chunk_size > max_vector then (Rx_thrown Length_error, w)
                else if length rest < chunk_size then (Rx_closed [], w)
                else
                  (let data = take chunk_size rest; calc_hash = sha256 data in
                   if calc_hash \<noteq> client_hash
                   then (Rx_closed (''ERROR: Chunk checksum mismatch for chunk '' @ show_int chunk_id @ [nl]), w)
                   else
                     (let r = submit_chunk_transfers env chunk_id data filename calc_hash pending w in
                      receive_chunks env filename num_chunks (Suc received) (fst r)
                        (sha_update hasher data) (drop chunk_size rest) (snd r))))
         else if line = ''EOF'' then (Rx_done pending hasher received, w)
         else (Rx_closed (''ERROR: Expected CHUNK header, got: '' @ line @ [nl]), w)))"
  by pat_completeness auto
termination
  by (relation "measure (\<lambda>(_, _, _, _, _, _, input, _). length input)")
    (auto simp: less_imp_diff_less read_line_shorter)

declare receive_chunks.simps [simp del]

text \<open>The request line; \<open>None\<close> is the format error, a number that cannot be read throws.  The
  arithmetic is on \<^verbatim>\<open>size_t\<close>, and a configured chunk size of zero divides by zero.\<close>

record upload_request =
  ur_file :: string
  ur_size :: nat
  ur_chunks :: nat
  ur_hash :: string

definition parse_upload :: "nat \<Rightarrow> string \<Rightarrow> cxx_exn + upload_request option" where
  "parse_upload chunk_size req =
     (let tokens = words_of req in
      if length tokens \<ge> 5 \<and> tokens ! 0 = ''UPLOAD'' then
        (case stoull (tokens ! 2) of
           Inl x \<Rightarrow> Inl x
         | Inr sz \<Rightarrow>
             (case stoull (tokens ! 3) of
                Inl x \<Rightarrow> Inl x
              | Inr n \<Rightarrow> Inr (Some \<lparr>ur_file = tokens ! 1, ur_size = sz, ur_chunks = n, ur_hash = tokens ! 4\<rparr>)))
      else if length tokens = 4 \<and> tokens ! 0 = ''UPLOAD'' then
        (case stoull (tokens ! 2) of
           Inl x \<Rightarrow> Inl x
         | Inr sz \<Rightarrow>
             if sz \<noteq> 0 \<and> chunk_size = 0 then Inl Sigfpe
             else Inr (Some \<lparr>ur_file = tokens ! 1, ur_size = sz,
               ur_chunks = (if sz = 0 then 0 else (sz + chunk_size - 1) mod 2 ^ 64 div chunk_size),
               ur_hash = tokens ! 3\<rparr>))
      else Inr None)"

definition handle_client_upload ::
  "'w head_env \<Rightarrow> string \<Rightarrow> byte list \<Rightarrow> mstore \<Rightarrow> 'w \<Rightarrow> cxx_exn + string \<times> mstore \<times> 'w" where
  "handle_client_upload env req input st w =
     (case parse_upload (he_chunk_size env) req of
        Inl x \<Rightarrow> Inl x
      | Inr None \<Rightarrow>
          Inr (''ERROR: Invalid upload request format. Expected: UPLOAD <filename> <size> [chunks] <sha256>'' @ [nl], st, w)
      | Inr (Some u) \<Rightarrow>
          (let ready = ''READY'' @ [nl] in
           if ur_size u = 0 then
             (let empty_hash = (if ur_hash u \<noteq> [] then ur_hash u else sha256 [])
              in Inr (ready @ ''SUCCESS'' @ [nl], store_metadata env (ur_file u) [] empty_hash st, w))
           else
             (case receive_chunks env (ur_file u) (ur_chunks u) 0 [] (sha_new (replicate 64 0)) input w of
                (Rx_closed out, w') \<Rightarrow> Inr (ready @ out, st, w')
              | (Rx_thrown x, w') \<Rightarrow> Inl x
              | (Rx_done pending hasher received, w') \<Rightarrow>
                  (let chunks = collect_transfers (ur_file u) pending; computed = sha_digest hasher in
                   if ur_hash u \<noteq> [] \<and> computed \<noteq> ur_hash u
                   then Inr (ready @ ''ERROR: SHA256 checksum mismatch'' @ [nl], st, w')
                   else if chunks = []
                   then Inr (ready @ ''ERROR: Failed to store chunk replicas across cluster servers'' @ [nl], st, w')
                   else Inr (ready @ ''SUCCESS'' @ [nl], store_metadata env (ur_file u) chunks computed st, w')))))"

section \<open>Lemmas\<close>

lemma of_char_newline: "(of_char c :: byte) = 10 \<longleftrightarrow> c = nl"
proof
  assume "(of_char c :: byte) = 10"
  then have "c = char_of (unat (10 :: byte))" by (metis char_of_byte)
  moreover have "char_of (10 :: nat) = nl" by code_simp
  ultimately show "c = nl" by simp
qed (simp add: nl_def)

lemma read_line_text: "nl \<notin> set l \<Longrightarrow> read_line (str_bytes (l @ [nl]) @ s) = (l, s)"
proof (induction l)
  case (Cons c l)
  then have "read_line (str_bytes (l @ [nl]) @ s) = (l, s)" by simp
  then show ?case using Cons.prems by (auto simp: str_bytes_def of_char_newline)
qed (simp add: str_bytes_def of_char_newline)

text \<open>A chunk as a client sends it.\<close>

definition chunk_header :: "int \<Rightarrow> byte list \<Rightarrow> string" where
  "chunk_header i d = ''CHUNK '' @ show_int i @ '' '' @ show_int (int (length d)) @ '' '' @ sha256 d"

definition chunk_frame :: "int \<times> byte list \<Rightarrow> byte list" where
  "chunk_frame c = str_bytes (chunk_header (fst c) (snd c) @ [nl]) @ snd c"

lemma word_ok_no_nl: "word_ok w \<Longrightarrow> nl \<notin> set w"
  by (auto simp: word_ok_def is_space_def nl_def)

lemma chunk_header_nl: "nl \<notin> set (chunk_header i d)"
proof -
  have "nl \<notin> set (show_int j)" for j using word_ok_no_nl [OF word_ok_show_int] .
  moreover have "nl \<notin> set (sha256 d)" using word_ok_no_nl [OF sha256_word_ok] .
  ultimately show ?thesis by (simp add: chunk_header_def) (simp add: nl_def)
qed

lemma blank_not_digit [simp]: "\<not> is_digit (CHR '' '')"
  by (simp add: is_digit_def)

lemma parse_chunk_header_text:
  assumes "in_int i" "length d \<le> max_vector"
  shows "parse_chunk_header (drop 6 (chunk_header i d)) = Some (i, length d, sha256 d)"
proof -
  have a: "read_int (show_int i @ '' '' @ show_int (int (length d)) @ '' '' @ sha256 d) =
      Some (i, '' '' @ show_int (int (length d)) @ '' '' @ sha256 d)"
    by (rule read_int_show_int [OF assms(1)]) simp
  have b: "parse_number ('' '' @ show_int (int (length d)) @ '' '' @ sha256 d) = Some (int (length d), '' '' @ sha256 d)"
    using parse_number_show_int [of "'' '' @ sha256 d" "int (length d)"] by (simp add: parse_number_blank)
  have "int (length d) < 2 ^ 63" using assms(2) by (simp add: max_vector_def)
  then have "read_size ('' '' @ show_int (int (length d)) @ '' '' @ sha256 d) = Some (length d, '' '' @ sha256 d)"
    unfolding read_size_def b by simp
  moreover have "read_word ('' '' @ sha256 d) = Some (sha256 d, [])"
    using read_word_word [OF sha256_word_ok, of "[]"] by (simp add: read_word_blank)
  ultimately show ?thesis
    using a by (simp add: parse_chunk_header_def chunk_header_def)
qed

lemma receive_frame:
  assumes "r < n" "in_int i" "length d \<le> max_vector"
  shows "receive_chunks env f n r p h (chunk_frame (i, d) @ s) w =
    (let t = submit_chunk_transfers env i d f (sha256 d) p w
     in receive_chunks env f n (Suc r) (fst t) (sha_update h d) s (snd t))"
proof -
  have l: "read_line (chunk_frame (i, d) @ s) = (chunk_header i d, d @ s)"
    using read_line_text [OF chunk_header_nl, of i d "d @ s"] by (simp add: chunk_frame_def)
  have "starts_with ''CHUNK '' (chunk_header i d)" "chunk_header i d \<noteq> []"
    by (simp_all add: chunk_header_def starts_with_def)
  then show ?thesis
    using assms parse_chunk_header_text [OF assms(2,3)]
    by (subst receive_chunks.simps) (simp add: l Let_def)
qed

text \<open>The transfers of a sequence of chunks.\<close>

fun submit_all ::
  "'w head_env \<Rightarrow> string \<Rightarrow> (int \<times> byte list) list \<Rightarrow> transfer list \<Rightarrow> 'w \<Rightarrow> transfer list \<times> 'w" where
  "submit_all env f [] p w = (p, w)"
| "submit_all env f ((i, d) # rx) p w =
     (let t = submit_chunk_transfers env i d f (sha256 d) p w in submit_all env f rx (fst t) (snd t))"

lemma receive_frames:
  assumes "\<forall>(i, d) \<in> set rx. in_int i \<and> length d \<le> max_vector" "r + length rx = n"
  shows "receive_chunks env f n r p h (concat (map chunk_frame rx) @ s) w =
    (Rx_done (fst (submit_all env f rx p w)) (foldl sha_update h (map snd rx)) n, snd (submit_all env f rx p w))"
  using assms
proof (induction rx arbitrary: r p h w)
  case Nil
  then show ?case by (subst receive_chunks.simps) simp
next
  case (Cons c rx)
  obtain i d where c: "c = (i, d)" by force
  have "receive_chunks env f n r p h (chunk_frame (i, d) @ concat (map chunk_frame rx) @ s) w =
    (let t = submit_chunk_transfers env i d f (sha256 d) p w
     in receive_chunks env f n (Suc r) (fst t) (sha_update h d) (concat (map chunk_frame rx) @ s) (snd t))"
    using Cons.prems c by (intro receive_frame) auto
  then show ?case using Cons.prems Cons.IH [of "Suc r"] by (simp add: c Let_def)
qed

text \<open>Whatever the client sends, the chunks that reach the servers are the ones that were hashed.\<close>

lemma receive_done:
  "receive_chunks env f n r p h input w = (Rx_done q h' m, w') \<Longrightarrow>
   \<exists>rx. submit_all env f rx p w = (q, w') \<and> h' = foldl sha_update h (map snd rx) \<and> m = r + length rx \<and> (r \<le> n \<longrightarrow> m \<le> n)"
proof (induction env f n r p h input w arbitrary: q h' m w' rule: receive_chunks.induct)
  case (1 env f n r p h input w)
  let ?line = "fst (read_line input)" and ?rest = "snd (read_line input)"
  have stop: ?case if "(Rx_done p h r, w) = (Rx_done q h' m, w')"
    using that by (intro exI [of _ "[]"]) simp
  note run = 1(2) [unfolded receive_chunks.simps [of env f n r p h input w] Let_def]
  show ?case
  proof (cases "r < n \<and> ?line \<noteq> [] \<and> starts_with ''CHUNK '' ?line")
    case False
    then show ?thesis using run stop by (simp split: if_splits)
  next
    case True
    obtain i sz ch where hd: "parse_chunk_header (drop 6 ?line) = Some (i, sz, ch)"
      using run True by (auto simp: Let_def split: option.splits)
    have ok: "\<not> sz > max_vector" "\<not> length ?rest < sz" "sha256 (take sz ?rest) = ch"
      using run True hd by (auto simp: Let_def split: if_splits)
    let ?d = "take sz ?rest"
    let ?t = "submit_chunk_transfers env i ?d f (sha256 ?d) p w"
    have "receive_chunks env f n (Suc r) (fst ?t) (sha_update h ?d) (drop sz ?rest) (snd ?t) = (Rx_done q h' m, w')"
      using run True hd ok by (simp add: Let_def)
    from 1(1) [OF _ refl refl _ _ hd refl refl _ _ refl refl _ refl this] True ok
    obtain rx where "submit_all env f rx (fst ?t) (snd ?t) = (q, w')"
      "h' = foldl sha_update (sha_update h ?d) (map snd rx)" "m = Suc r + length rx" "Suc r \<le> n \<longrightarrow> m \<le> n"
      by auto
    then show ?thesis
      using True by (intro exI [of _ "(i, ?d) # rx"]) (simp add: Let_def)
  qed
qed

lemma receive_closed:
  "receive_chunks env f n r p h input w = (Rx_closed out, w') \<Longrightarrow> out = [] \<or> hd out = CHR ''E''"
proof (induction env f n r p h input w arbitrary: out w' rule: receive_chunks.induct)
  case (1 env f n r p h input w)
  let ?line = "fst (read_line input)" and ?rest = "snd (read_line input)"
  note run = 1(2) [unfolded receive_chunks.simps [of env f n r p h input w] Let_def]
  show ?case
  proof (cases "parse_chunk_header (drop 6 ?line)")
    case None
    then show ?thesis using run by (simp split: if_splits) (auto split: if_splits)
  next
    case (Some x)
    obtain i sz ch where x: "x = (i, sz, ch)" by (cases x) auto
    let ?d = "take sz ?rest"
    let ?t = "submit_chunk_transfers env i ?d f (sha256 ?d) p w"
    show ?thesis
    proof (cases "r < n \<and> ?line \<noteq> [] \<and> starts_with ''CHUNK '' ?line \<and> \<not> sz > max_vector \<and> \<not> length ?rest < sz \<and> sha256 ?d = ch")
      case True
      then have "receive_chunks env f n (Suc r) (fst ?t) (sha_update h ?d) (drop sz ?rest) (snd ?t) = (Rx_closed out, w')"
        using run Some x by simp
      from 1(1) [OF _ refl refl _ _ Some [unfolded x] refl refl _ _ refl refl _ refl this] True
      show ?thesis by auto
    next
      case False
      then show ?thesis using run Some x by (auto split: if_splits)
    qed
  qed
qed

text \<open>What \<^verbatim>\<open>collect_transfers\<close> reports, as the records of the metadata store.\<close>

definition info_record :: "chunk_info \<Rightarrow> chunk_record" where
  "info_record c = \<lparr>cr_id = ci_id c, cr_server = ci_server c, cr_path = ci_path c, cr_checksum = ci_checksum c,
     cr_replicas = ci_replicas c\<rparr>"

lemma store_metadata_request:
  "store_metadata env f cs h st = create_entry (entry_request f h (he_replication env) (map info_record cs)) st"
proof -
  have "info_line c = entry_line (info_record c) @ [CHR 0x0A]" for c
    by (simp add: info_line_def entry_line_def info_record_def nl_def)
  then have "concat (map info_line cs) = concat (map (\<lambda>l. l @ [CHR 0x0A]) (map entry_line (map info_record cs)))"
    by (induction cs) simp_all
  then show ?thesis by (simp add: store_metadata_def entry_request_def nl_def)
qed

lemma collect_counted: "counted_chunks (map info_record (collect_transfers f ts))"
proof -
  let ?ok = "filter (\<lambda>t. tr_outcome t \<noteq> None) ts"
  have n: "length (filter (\<lambda>c. cr_id c = i) (map info_record (collect_transfers f ts))) =
      length (filter (\<lambda>t. tr_chunk t = i) ?ok)" for i
    by (simp add: collect_transfers_def info_record_def Let_def filter_map o_def)
  have "cr_replicas c = int (length (filter (\<lambda>t. tr_chunk t = cr_id c) ?ok))"
    if "c \<in> set (map info_record (collect_transfers f ts))" for c
    using that by (auto simp: collect_transfers_def info_record_def Let_def map_of_count_keys filter_empty_conv)
  then show ?thesis unfolding counted_chunks_def count_at_counts n by blast
qed

lemma collect_empty: "collect_transfers f ts = [] \<longleftrightarrow> (\<forall>t \<in> set ts. tr_outcome t = None)"
  by (auto simp: collect_transfers_def Let_def filter_empty_conv)

lemma sha_start_digest: "sha_digest (foldl sha_update (sha_new (replicate 64 0)) ds) = sha256 (concat ds)"
  by (simp add: sha_digest_stream sha256_fips)

definition ready_success :: string where
  "ready_success = ''READY'' @ [nl] @ ''SUCCESS'' @ [nl]"

lemma ready_success_hd: "x = [] \<or> hd x = CHR ''E'' \<Longrightarrow> ''READY'' @ [nl] @ x \<noteq> ready_success"
  by (cases x) (auto simp: ready_success_def)

text \<open>The request line of a client.\<close>

definition upload_line :: "string \<Rightarrow> nat \<Rightarrow> nat \<Rightarrow> string \<Rightarrow> string" where
  "upload_line f sz n h = ''UPLOAD '' @ f @ '' '' @ show_int (int sz) @ '' '' @ show_int (int n) @ '' '' @ h"

lemma stoull_show_int [cxx_string]: "n < 2 ^ 64 \<Longrightarrow> stoull (show_int (int n)) = Inr n"
  by (simp add: stoull_def parse_number_show_int_end)

lemma parse_upload_text:
  assumes "word_ok f" "word_ok h" "sz < 2 ^ 64" "n < 2 ^ 64"
  shows "parse_upload cs (upload_line f sz n h) = Inr (Some \<lparr>ur_file = f, ur_size = sz, ur_chunks = n, ur_hash = h\<rparr>)"
proof -
  have u: "word_ok ''UPLOAD''" by (simp add: word_ok_def is_space_def)
  have "words_of (upload_line f sz n h) =
      words_of (''UPLOAD'' @ CHR '' '' # f @ CHR '' '' # show_int (int sz) @ CHR '' '' # show_int (int n) @ CHR '' '' # h)"
    by (simp add: upload_line_def)
  also have "\<dots> = [''UPLOAD'', f, show_int (int sz), show_int (int n), h]"
    using assms(1,2) u by (simp only: words_of_word word_ok_show_int words_of_last)
  finally show ?thesis using assms(3,4) by (simp add: parse_upload_def stoull_show_int)
qed

lemma parse_upload_throws:
  assumes "word_ok f" "word_ok x" "word_ok y" "word_ok h" "parse_number x = None"
  shows "parse_upload cs (''UPLOAD '' @ f @ '' '' @ x @ '' '' @ y @ '' '' @ h) = Inl Invalid_argument"
proof -
  have u: "word_ok ''UPLOAD''" by (simp add: word_ok_def is_space_def)
  have "words_of (''UPLOAD '' @ f @ '' '' @ x @ '' '' @ y @ '' '' @ h) =
      words_of (''UPLOAD'' @ CHR '' '' # f @ CHR '' '' # x @ CHR '' '' # y @ CHR '' '' # h)" by simp
  also have "\<dots> = [''UPLOAD'', f, x, y, h]"
    using assms(1-4) u by (simp only: words_of_word words_of_last)
  finally show ?thesis using assms(5) by (simp add: parse_upload_def stoull_def)
qed

lemma upload_done:
  assumes "parse_upload (he_chunk_size env) req = Inr (Some u)" "ur_size u \<noteq> 0"
    and "receive_chunks env (ur_file u) (ur_chunks u) 0 [] (sha_new (replicate 64 0)) input w = (Rx_done p h n, w')"
    and "sha_digest h = ur_hash u" "collect_transfers (ur_file u) p \<noteq> []"
  shows "handle_client_upload env req input st w =
    Inr (ready_success, store_metadata env (ur_file u) (collect_transfers (ur_file u) p) (ur_hash u) st, w')"
  using assms by (simp add: handle_client_upload_def ready_success_def Let_def)

text \<open>Transfers whose records the metadata format can carry.\<close>

definition transfer_ok :: "transfer \<Rightarrow> bool" where
  "transfer_ok t \<longleftrightarrow> word_ok (tr_server t) \<and> word_ok (tr_checksum t) \<and> in_int (tr_chunk t) \<and>
     (case tr_outcome t of None \<Rightarrow> True | Some p \<Rightarrow> p = [] \<or> word_ok p)"

lemma collect_ok:
  assumes "word_ok f" "\<forall>t \<in> set ts. transfer_ok t"
  shows "\<forall>c \<in> set (map info_record (collect_transfers f ts)). chunk_ok c"
proof -
  have path: "word_ok (''/tmp/chunks/'' @ tr_server t @ ''_'' @ f @ ''_chunk_'' @ show_int (tr_chunk t))"
    if "transfer_ok t" for t
  proof -
    have "\<forall>c \<in> set (tr_server t) \<union> set f \<union> set (show_int (tr_chunk t)). \<not> is_space c"
      using that word_ok_nospace [OF word_ok_show_int, of "tr_chunk t"] word_ok_nospace [OF assms(1)]
        word_ok_nospace [of "tr_server t"] by (auto simp: transfer_ok_def)
    moreover have "\<forall>c \<in> set ''_chunk_''. \<not> is_space c" by code_simp
    moreover have "word_ok ''/tmp/chunks/''" by code_simp
    ultimately show ?thesis by (intro word_ok_append) auto
  qed
  have "chunk_ok (info_record c)" if "c \<in> set (collect_transfers f ts)" for c
    using that assms(2) path
    by (auto simp: collect_transfers_def Let_def chunk_ok_def info_record_def transfer_ok_def
        in_int_in_llong split: option.splits list.splits)
  then show ?thesis by auto
qed

section \<open>Properties\<close>

text \<open>C4. Whatever a client sends after a well-formed request that announces a non-empty file, either the metadata is
  unchanged and the client is not told of success, or the metadata entry describes transfers of chunks
  whose concatenation has the announced SHA-256, and at least one replica was acknowledged.  A request that announces
  size 0 is committed at once, without chunks and with whatever hash it announces, which nothing verifies.\<close>

theorem upload_commits_verified:
  assumes "parse_upload (he_chunk_size env) req = Inr (Some u)"
    and "handle_client_upload env req input st w = Inr (out, st', w')"
  shows "if ur_size u = 0 then out = ready_success \<and> w' = w \<and>
      st' = store_metadata env (ur_file u) [] (if ur_hash u \<noteq> [] then ur_hash u else sha256 []) st
    else (st' = st \<and> out \<noteq> ready_success) \<or>
    (\<exists>rx pending. out = ready_success \<and> submit_all env (ur_file u) rx [] w = (pending, w') \<and>
       length rx \<le> ur_chunks u \<and> (ur_hash u \<noteq> [] \<longrightarrow> sha256 (concat (map snd rx)) = ur_hash u) \<and>
       (\<exists>t \<in> set pending. tr_outcome t \<noteq> None) \<and>
       st' = store_metadata env (ur_file u) (collect_transfers (ur_file u) pending) (sha256 (concat (map snd rx))) st)"
proof (cases "ur_size u = 0")
  case True
  then show ?thesis using assms by (simp add: handle_client_upload_def Let_def ready_success_def split: if_splits)
next
  case size: False
  obtain res w1 where res: "receive_chunks env (ur_file u) (ur_chunks u) 0 [] (sha_new (replicate 64 0)) input w = (res, w1)"
    by force
  note run = assms(2) [unfolded handle_client_upload_def assms(1) Let_def sum.case option.case res prod.case]
  show ?thesis
  proof (cases res)
    case (Rx_closed o')
    have "''READY'' @ [nl] @ o' \<noteq> ready_success"
      by (rule ready_success_hd) (rule receive_closed [OF res [unfolded Rx_closed]])
    then show ?thesis using run size Rx_closed by auto
  next
    case (Rx_thrown x)
    then show ?thesis using run size by simp
  next
    case (Rx_done q h m)
    obtain rx where rx: "submit_all env (ur_file u) rx [] w = (q, w1)" "length rx \<le> ur_chunks u"
      "sha_digest h = sha256 (concat (map snd rx))"
      using receive_done [OF res [unfolded Rx_done]] sha_start_digest by auto
    note fail = ready_success_hd [of "''ERROR: SHA256 checksum mismatch'' @ [nl]"]
      ready_success_hd [of "''ERROR: Failed to store chunk replicas across cluster servers'' @ [nl]"]
    show ?thesis
    proof (cases "out = ready_success")
      case True
      then have "collect_transfers (ur_file u) q \<noteq> []" "ur_hash u \<noteq> [] \<longrightarrow> sha_digest h = ur_hash u"
        "w' = w1" "st' = store_metadata env (ur_file u) (collect_transfers (ur_file u) q) (sha_digest h) st"
        using run size Rx_done fail by (auto split: if_splits)
      then show ?thesis using rx True size by (auto simp: collect_empty)
    next
      case False
      then show ?thesis using run size Rx_done by (auto simp: ready_success_def split: if_splits)
    qed
  qed
qed

lemma upload_stores:
  assumes "word_ok f" "concat (map snd rx) \<noteq> []" "length (concat (map snd rx)) < 2 ^ 64" "length rx < 2 ^ 64"
    and "\<forall>(i, d) \<in> set rx. in_int i \<and> length d \<le> max_vector"
    and "submit_all env f rx [] w = (pending, w')" "\<exists>t \<in> set pending. tr_outcome t \<noteq> None"
    and "\<forall>t \<in> set pending. transfer_ok t" "int (length pending) \<le> int_max" "in_int (he_replication env)"
    and "umap_wf (files st)"
  shows "\<exists>st'. handle_client_upload env (upload_line f (length (concat (map snd rx))) (length rx) (sha256 (concat (map snd rx))))
      (concat (map chunk_frame rx) @ after) st w = Inr (ready_success, st', w') \<and>
    query_metadata f st' = \<lparr>fr_hash = sha256 (concat (map snd rx)),
      fr_replicas = stored_count (he_replication env) (map info_record (collect_transfers f pending)),
      fr_chunks = map info_record (collect_transfers f pending)\<rparr> \<and>
    (\<forall>g. g \<noteq> f \<longrightarrow> query_metadata g st' = query_metadata g st)"
proof -
  let ?h = "sha256 (concat (map snd rx))" and ?cs = "map info_record (collect_transfers f pending)"
  define st' where "st' = store_metadata env f (collect_transfers f pending) ?h st"
  have p: "parse_upload (he_chunk_size env) (upload_line f (length (concat (map snd rx))) (length rx) ?h) =
      Inr (Some \<lparr>ur_file = f, ur_size = length (concat (map snd rx)), ur_chunks = length rx, ur_hash = ?h\<rparr>)"
    using assms(1,3,4) by (intro parse_upload_text) simp_all
  have r: "receive_chunks env f (length rx) 0 [] (sha_new (replicate 64 0)) (concat (map chunk_frame rx) @ after) w =
      (Rx_done pending (foldl sha_update (sha_new (replicate 64 0)) (map snd rx)) (length rx), w')"
    using receive_frames [OF assms(5), of 0 "length rx" env f "[]" "sha_new (replicate 64 0)" after w] assms(6) by simp
  have "collect_transfers f pending \<noteq> []" using assms(7) by (auto simp: collect_empty)
  then have run: "handle_client_upload env (upload_line f (length (concat (map snd rx))) (length rx) ?h)
      (concat (map chunk_frame rx) @ after) st w = Inr (ready_success, st', w')"
    using upload_done [OF p] assms(2) r by (simp only: upload_request.simps st'_def) (simp add: sha_start_digest)
  have "length ?cs \<le> length pending" by (simp add: collect_transfers_def Let_def)
  then have "int (length ?cs) \<le> int_max" using assms(9) by simp
  then have "st' = md_put f \<lparr>fr_hash = ?h, fr_replicas = stored_count (he_replication env) ?cs, fr_chunks = ?cs\<rparr> st"
    unfolding st'_def store_metadata_request md_put_def
    using assms(1,10) collect_ok [OF assms(1,8)] collect_counted by (intro create_entry_request) simp_all
  then have "map_of (files st') g = (if g = f then Some \<lparr>fr_hash = ?h,
      fr_replicas = stored_count (he_replication env) ?cs, fr_chunks = ?cs\<rparr> else map_of (files st) g)" for g
    using mdb.lookup_put [OF assms(11)] by simp
  moreover have "f \<noteq> []" using assms(1) by (simp add: word_ok_def)
  ultimately show ?thesis
    using run by (intro exI [of _ st']) (simp add: query_metadata_def get_chunks_def at_file_def)
qed

text \<open>C33. An upload by a client that follows the protocol (whatever it sends after the last chunk) succeeds as soon as one replica of one chunk was
  acknowledged: afterwards the metadata has the file's SHA-256 and one record for every acknowledged
  replica, with the checksum of its chunk and the number of replicas of that chunk, and the entries of all
  other files are as before.\<close>

theorem upload_accepts:
  assumes "word_ok f" "concat (map snd rx) \<noteq> []" "length (concat (map snd rx)) < 2 ^ 64" "length rx < 2 ^ 64"
    and "\<forall>(i, d) \<in> set rx. in_int i \<and> length d \<le> max_vector"
    and "submit_all env f rx [] w = (pending, w')" "\<exists>t \<in> set pending. tr_outcome t \<noteq> None"
    and "\<forall>t \<in> set pending. transfer_ok t" "int (length pending) \<le> int_max" "in_int (he_replication env)"
    and "umap_wf (files st)"
  shows "\<exists>st'. handle_client_upload env (upload_line f (length (concat (map snd rx))) (length rx) (sha256 (concat (map snd rx))))
      (concat (map chunk_frame rx) @ after) st w = Inr (ready_success, st', w') \<and>
    query_metadata f st' = \<lparr>fr_hash = sha256 (concat (map snd rx)),
      fr_replicas = stored_count (he_replication env) (map info_record (collect_transfers f pending)),
      fr_chunks = map info_record (collect_transfers f pending)\<rparr> \<and>
    (\<forall>g. g \<noteq> f \<longrightarrow> query_metadata g st' = query_metadata g st)"
  using assms by (rule upload_stores)

text \<open>A head server whose storage servers acknowledge every chunk.\<close>

definition sample_ack :: chunk_resp where
  "sample_ack = \<lparr>xr_ok = True, xr_id = [], xr_error = [], xr_path = ''/p''\<rparr>"

definition sample_head :: "unit head_env" where
  "sample_head = \<lparr>he_codec = field_codec,
     he_net = (\<lambda>ip port bs w. (Some (reply_frame (enc_chunk_resp field_codec sample_ack)), w)),
     he_sort = (\<lambda>hm xs. xs), he_config_servers = [(''a'', 1)], he_registry = new_registry,
     he_monitor = new_monitor 60 10, he_replication = 1, he_chunk_size = 4\<rparr>"

lemma sample_servers_selected: "select_servers_for_chunk sample_head 1 = [''a:1'']"
  by (simp add: select_servers_for_chunk_def sample_head_def get_all_health_def new_monitor_def get_addresses_def
      new_registry_def load_cluster_servers_def usable_def show_int_def show_nat.simps [of "Suc 0"] digit_char_def
      in_int_def int_min_def int_max_def Let_def) code_simp

lemma sample_submit:
  "submit_all sample_head ''f'' [(0, [7])] [] () =
     ([\<lparr>tr_chunk = 0, tr_server = ''a:1'', tr_checksum = sha256 [7], tr_size = 1, tr_outcome = Some ''/p''\<rparr>], ())"
proof -
  have "sendable (enc_chunk_resp field_codec sample_ack)"
    by (simp add: sendable_def field_codec_def enc_fields_def enc_field_def str_bytes_def bool_bytes_def sample_ack_def)
  moreover have "dec_chunk_resp field_codec (enc_chunk_resp field_codec sample_ack) = Some sample_ack"
    using field_codec_ok by (simp add: codec_ok_def)
  ultimately have "send_chunk_to_server field_codec (he_net sample_head) reg srv i d f () = (Some ''/p'', ())" for reg srv i d f
    by (simp add: send_chunk_to_server_def transfer_request_def sample_head_def sample_ack_def case_prod_unfold)
  moreover have "he_codec sample_head = field_codec" "he_replication sample_head = 1" by (simp_all add: sample_head_def)
  ultimately show ?thesis
    using sample_servers_selected by (simp add: submit_chunk_transfers_def Let_def)
qed

lemma sample_upload_ok:
  "word_ok ''f''" "word_ok ''a:1''" "word_ok ''/p''" "in_int 0" "in_int 1" "length [7 :: byte] \<le> max_vector"
  by (simp_all add: word_ok_def is_space_def in_int_def int_min_def int_max_def max_vector_def)

theorem upload_accepts_witness:
  "\<exists>st'. handle_client_upload sample_head (upload_line ''f'' 1 1 (sha256 [7])) (chunk_frame (0, [7])) (open_store None True) ()
      = Inr (ready_success, st', ()) \<and> fr_hash (query_metadata ''f'' st') = sha256 [7]"
proof -
  have t: "transfer_ok \<lparr>tr_chunk = 0, tr_server = ''a:1'', tr_checksum = sha256 [7], tr_size = 1, tr_outcome = Some ''/p''\<rparr>"
    using sample_upload_ok by (simp add: transfer_ok_def)
  have "umap_wf (files (open_store None True))" by (simp add: umap_wf_def open_store_def load_from_disk_def)
  from upload_accepts [OF sample_upload_ok(1) _ _ _ _ sample_submit _ _ _ _ this, of "[]"] t sample_upload_ok(4-6)
  show ?thesis by (fastforce simp: sample_head_def int_max_def)
qed

theorem upload_commits_verified_witness:
  "fst (snd (projr (handle_client_upload sample_head (upload_line ''f'' 1 1 ''bad'') (chunk_frame (0, [7])) (open_store None True) ())))
     = open_store None True"
proof -
  let ?run = "handle_client_upload sample_head (upload_line ''f'' 1 1 ''bad'') (chunk_frame (0, [7])) (open_store None True) ()"
  have p: "parse_upload (he_chunk_size sample_head) (upload_line ''f'' 1 1 ''bad'') =
      Inr (Some \<lparr>ur_file = ''f'', ur_size = 1, ur_chunks = 1, ur_hash = ''bad''\<rparr>)"
    by (rule parse_upload_text) (simp_all add: word_ok_def is_space_def)
  have r: "receive_chunks sample_head ''f'' 1 0 [] (sha_new (replicate 64 0)) (chunk_frame (0, [7])) () =
      (Rx_done (fst (submit_all sample_head ''f'' [(0, [7])] [] ())) (foldl sha_update (sha_new (replicate 64 0)) [[7]]) 1, ())"
    using receive_frames [of "[(0, [7])]" 0 1 sample_head "''f''" "[]" "sha_new (replicate 64 0)" "[]" "()"] sample_upload_ok
    by simp
  have bad: "sha256 d \<noteq> ''bad''" for d
  proof
    assume "sha256 d = ''bad''"
    then have "length (sha256 d) = 3" by simp
    then show False by simp
  qed
  have "\<exists>x. ?run = Inr x"
    unfolding handle_client_upload_def p sum.case option.case Let_def upload_request.simps r prod.case rx_result.case
    by (cases "sha_digest (foldl sha_update (sha_new (replicate 64 0)) [[7]]) = ''bad''") (simp_all split: if_split)
  then obtain out st' w' where run: "?run = Inr (out, st', w')" by (metis surj_pair)
  from upload_commits_verified [OF p run] have "st' = open_store None True" using bad by auto
  then show ?thesis unfolding run by simp
qed

text \<open>C34. Placement: with a replication factor \<open>n\<close>, a chunk goes to \<open>n\<close> of the known servers, or to all that
  qualify if there are fewer; when any known server is usable, only usable ones are chosen, even if they are fewer
  than \<open>n\<close>, and when none is, any known server may be; and no qualifying server that was passed over has less of its disk in use than one that was chosen.\<close>

theorem placement:
  assumes "std_sort_ok (less_disk hm) (he_sort env hm)" "hm = get_all_health (he_monitor env)"
    and "known = (if get_addresses (he_registry env) = [] then load_cluster_servers (he_config_servers env)
           else get_addresses (he_registry env))"
    and "ok = (if \<exists>s \<in> set known. usable hm s then filter (usable hm) known else known)"
    and "0 \<le> n" "int (length known) \<le> int_max"
  shows "length (select_servers_for_chunk env n) = min (nat n) (length ok) \<and>
    set (select_servers_for_chunk env n) \<subseteq> set ok \<and>
    (\<forall>s \<in> set (select_servers_for_chunk env n). \<forall>t \<in> set ok - set (select_servers_for_chunk env n).
       disk_of hm s \<le> disk_of hm t)"
proof -
  let ?c = "he_sort env hm ok"
  have len: "length ?c = length ok" by (rule std_sort_length [OF assms(1)])
  have "filter (usable hm) known \<noteq> [] \<longleftrightarrow> (\<exists>s \<in> set known. usable hm s)" by (auto simp: filter_empty_conv)
  then have ok: "(if filter (usable hm) known \<noteq> [] then filter (usable hm) known else known) = ok"
    using assms(4) by simp
  have "length ok \<le> length known" using assms(4) by simp
  then have "in_int (int (length ?c))" using assms(6) len by (simp add: in_int_def int_min_def)
  then have sel: "select_servers_for_chunk env n = take (nat (min n (int (length ?c)))) ?c"
    unfolding select_servers_for_chunk_def Let_def assms(2,3) [symmetric] ok by simp
  define m where "m = nat (min n (int (length ?c)))"
  have "sorted_wrt (\<lambda>a b. \<not> less_disk hm b a) (take m ?c @ drop m ?c)"
    using assms(1) by (simp add: std_sort_ok_def)
  then have "\<forall>s \<in> set (take m ?c). \<forall>t \<in> set (drop m ?c). \<not> less_disk hm t s"
    unfolding sorted_wrt_append by blast
  moreover have "set ?c = set ok" by (rule std_sort_set [OF assms(1)])
  then have "set ok - set (take m ?c) \<subseteq> set (drop m ?c)" "set (take m ?c) \<subseteq> set ok"
    using set_append [of "take m ?c" "drop m ?c"] set_take_subset [of m ?c] by auto
  moreover have "length (take m ?c) = min (nat n) (length ok)" using assms(5) len by (simp add: m_def)
  ultimately show ?thesis unfolding sel m_def [symmetric] by (auto simp: less_disk_def not_less)
qed

theorem placement_witness:
  "length (select_servers_for_chunk (sample_head\<lparr>he_sort := \<lambda>hm. sort_key (disk_of hm)\<rparr>) 3) = 1"
proof -
  let ?env = "sample_head\<lparr>he_sort := \<lambda>hm. sort_key (disk_of hm)\<rparr>"
  have s: "std_sort_ok (less_disk hm) (he_sort ?env hm)" for hm
    using std_sort_ok_sort_key [of "disk_of hm"] by (simp add: less_disk_def [abs_def])
  have l: "load_cluster_servers (he_config_servers ?env) = [''a:'' @ show_int 1]"
    by (simp add: load_cluster_servers_def sample_head_def)
  have r: "get_addresses (he_registry ?env) = []" by (simp add: sample_head_def get_addresses_def new_registry_def)
  have "int (length [''a:'' @ show_int 1]) \<le> int_max" by (simp add: int_max_def)
  then show ?thesis
    using placement [OF s refl refl refl, of 3] unfolding r l by simp
qed

end
