(* ===== verification/Client.thy ===== *)
theory Client
  imports File_Upload
begin

text \<open>
  The command-line client, \<^verbatim>\<open>src/client/client.cpp\<close>: upload, download, list, delete, the self test and the
  dispatch of \<^verbatim>\<open>main\<close>.  A connection that only answers is the function \<open>dial\<close> from address and request to the
  stream the peer sends until it closes (\<open>None\<close>: no socket, an address that cannot be parsed, or no connection).
  A request of one line is sent whole.  The upload talks in turns: the peer answers the request with a line, and
  what follows with another; there the model follows every \<^verbatim>\<open>send\<close>.
  Threads of a download finish in any order, given by the parameter \<open>sched\<close>; \<open>Inl\<close> is an exception that leaves a
  thread or the process, which ends it.  The local files are a map.
\<close>

type_synonym 'w dial = "string \<Rightarrow> int \<Rightarrow> string \<Rightarrow> 'w \<Rightarrow> byte list option \<times> 'w"
type_synonym local_files = "string \<Rightarrow> byte list option"

section \<open>Delete and list\<close>

text \<open>The reply is what one \<^verbatim>\<open>recv\<close> of at most 255 bytes returns.\<close>

definition file_delete :: "'w dial \<Rightarrow> string \<Rightarrow> int \<Rightarrow> string \<Rightarrow> 'w \<Rightarrow> int \<times> 'w" where
  "file_delete dial ip port file_name w =
     (let (r, w') = dial ip port (''DELETE '' @ file_name @ [nl]) w in
      (case r of
         None \<Rightarrow> 1
       | Some resp \<Rightarrow> if contains ''SUCCESS'' (bytes_str (take 255 resp)) then 0 else 1, w'))"

text \<open>\<open>Inl\<close>: the server reports an error.\<close>

function list_lines :: "byte list \<Rightarrow> string + string list" where
  "list_lines s =
     (let line = fst (read_line s) in
      if line = [] \<or> line = ''EOF'' then Inr []
      else if starts_with ''ERROR:'' line then Inl line
      else map_sum id (Cons line) (list_lines (snd (read_line s))))"
  by pat_completeness auto
termination
  by (relation "measure length") (auto simp: read_line_shorter)

declare list_lines.simps [simp del]

definition file_list :: "'w dial \<Rightarrow> string \<Rightarrow> int \<Rightarrow> 'w \<Rightarrow> int \<times> string list \<times> 'w" where
  "file_list dial ip port w =
     (let (r, w') = dial ip port (''LIST'' @ [nl]) w in
      case r of
        None \<Rightarrow> (1, [], w')
      | Some s \<Rightarrow> (case list_lines s of Inl e \<Rightarrow> (1, [], w') | Inr fs \<Rightarrow> (0, fs, w')))"

section \<open>Download\<close>

record remote_chunk =
  rc_id :: int
  rc_ip :: string
  rc_port :: int
  rc_hash :: string

definition parse_chunk_loc :: "string \<Rightarrow> remote_chunk option" where
  "parse_chunk_loc s =
     (case read_int s of
        None \<Rightarrow> None
      | Some (i, s1) \<Rightarrow>
          (case read_word s1 of
             None \<Rightarrow> None
           | Some (ip, s2) \<Rightarrow>
               (case read_int s2 of
                  None \<Rightarrow> None
                | Some (port, s3) \<Rightarrow>
                    (case read_word s3 of
                       None \<Rightarrow> None
                     | Some (h, _) \<Rightarrow> Some \<lparr>rc_id = i, rc_ip = ip, rc_port = port, rc_hash = h\<rparr>))))"

text \<open>The loop over the lines of the head server: the last file hash and the chunks, or \<open>None\<close> where the client
  gives up.  A line it does not know is skipped.\<close>

function head_lines :: "string \<Rightarrow> remote_chunk list \<Rightarrow> byte list \<Rightarrow> (string \<times> remote_chunk list) option" where
  "head_lines file_hash chunks s =
     (let line = fst (read_line s); rest = snd (read_line s) in
      if line = [] then None
      else if starts_with ''ERROR:'' line then None
      else if starts_with ''FILE_HASH '' line then head_lines (drop 10 line) chunks rest
      else if starts_with ''CHUNKS '' line then head_lines file_hash chunks rest
      else if starts_with ''CHUNK_LOC '' line then
        (case parse_chunk_loc (drop 10 line) of
           None \<Rightarrow> None
         | Some c \<Rightarrow> head_lines file_hash (chunks @ [c]) rest)
      else if line = ''EOF'' then Some (file_hash, chunks)
      else head_lines file_hash chunks rest)"
  by pat_completeness auto
termination
  by (relation "measure (\<lambda>(_, _, s). length s)") (auto simp: read_line_shorter)

declare head_lines.simps [simp del]

text \<open>One download thread: failed, or the verified bytes.\<close>

definition fetch_chunk :: "'w dial \<Rightarrow> string \<Rightarrow> remote_chunk \<Rightarrow> 'w \<Rightarrow> (cxx_exn + byte list option) \<times> 'w" where
  "fetch_chunk dial file_name c w =
     (let (r, w') = dial (rc_ip c) (rc_port c) (''GET_CHUNK '' @ show_int (rc_id c) @ '' '' @ file_name @ [nl]) w in
      (case r of
         None \<Rightarrow> Inr None
       | Some s \<Rightarrow>
           (let resp = fst (read_line s); rest = snd (read_line s) in
            if \<not> starts_with ''CHUNK_SIZE '' resp then Inr None
            else
              (case stoull (drop 11 resp) of
                 Inl x \<Rightarrow> Inl x
               | Inr sz \<Rightarrow>
                   if sz > max_vector then Inl Length_error
                   else if length rest < sz then Inr None
                   else if sha256 (take sz rest) \<noteq> rc_hash c then Inr None
                   else Inr (Some (take sz rest)))), w'))"

text \<open>The threads in the order in which they finish: an exception, or whether an error occurred and the chunks
  stored.\<close>

fun fetch_chunks ::
  "'w dial \<Rightarrow> string \<Rightarrow> remote_chunk list \<Rightarrow> bool \<times> (int \<times> byte list) list \<Rightarrow> 'w \<Rightarrow>
   (cxx_exn + bool \<times> (int \<times> byte list) list) \<times> 'w" where
  "fetch_chunks dial file_name [] acc w = (Inr acc, w)"
| "fetch_chunks dial file_name (c # cs) (err, data) w =
     (case fetch_chunk dial file_name c w of
        (Inl x, w') \<Rightarrow> (Inl x, w')
      | (Inr None, w') \<Rightarrow> fetch_chunks dial file_name cs (True, data) w'
      | (Inr (Some d), w') \<Rightarrow> fetch_chunks dial file_name cs (err, omap_upd (rc_id c) d data) w')"

text \<open>The chunks \<open>0, 1, \<dots>\<close> as the output loop reads them: \<^verbatim>\<open>chunk_data[i]\<close> of an absent chunk is empty.\<close>

definition assemble :: "nat \<Rightarrow> (int \<times> byte list) list \<Rightarrow> byte list list" where
  "assemble n data = map (\<lambda>i. case map_of data (int i) of None \<Rightarrow> [] | Some d \<Rightarrow> d) [0..<n]"

type_synonym schedule = "remote_chunk list \<Rightarrow> remote_chunk list"

text \<open>The local disk: \<^const>\<open>None\<close> if a file cannot be opened for writing, \<open>Some k\<close> if it can, and then of the bytes
  \<open>b\<close> written to it the file holds \<open>k b\<close>: the code never looks at the outcome of a write or of the close, so a full
  disk may leave any part of them.\<close>

type_synonym local_disk = "string \<Rightarrow> (byte list \<Rightarrow> byte list) option"

definition file_download ::
  "'w dial \<Rightarrow> schedule \<Rightarrow> local_disk \<Rightarrow> string \<Rightarrow> int \<Rightarrow> string \<Rightarrow> string \<Rightarrow> local_files \<Rightarrow> 'w \<Rightarrow>
   (cxx_exn + int \<times> local_files) \<times> 'w" where
  "file_download dial sched ldisk ip port file_name output_path fs w =
     (let (r, w1) = dial ip port (''DOWNLOAD '' @ file_name @ [nl]) w in
      case r of
        None \<Rightarrow> (Inr (1, fs), w1)
      | Some s \<Rightarrow>
          (case head_lines [] [] s of
             None \<Rightarrow> (Inr (1, fs), w1)
           | Some (file_hash, chunks) \<Rightarrow>
               (case fetch_chunks dial file_name (sched chunks) (False, []) w1 of
                  (Inl x, w2) \<Rightarrow> (Inl x, w2)
                | (Inr (err, data), w2) \<Rightarrow>
                    if err then (Inr (1, fs), w2)
                    else
                      (case ldisk output_path of
                         None \<Rightarrow> (Inr (1, fs), w2)
                       | Some k \<Rightarrow>
                           (let parts = assemble (length chunks) data;
                                h = sha_digest (foldl sha_update (sha_new (replicate 64 0)) parts)
                            in if file_hash \<noteq> [] \<and> h \<noteq> file_hash
                               then (Inr (1, fs(output_path := None)), w2)
                               else (Inr (0, fs(output_path := Some (k (concat parts)))), w2))))))"

section \<open>Upload\<close>

definition DEFAULT_CHUNK_SIZE :: nat where
  "DEFAULT_CHUNK_SIZE = 64 * 1024 * 1024"

text \<open>The pieces in which the file is read for hashing, and the loop over the chunks: each is what is left, at most
  the chunk size.\<close>

function pieces :: "nat \<Rightarrow> byte list \<Rightarrow> byte list list" where
  "pieces n xs = (if xs = [] \<or> n = 0 then [] else take n xs # pieces n (drop n xs))"
  by pat_completeness auto
termination
  by (relation "measure (\<lambda>(n, xs). length xs)") auto

declare pieces.simps [simp del]

fun chunks_from :: "nat \<Rightarrow> nat \<Rightarrow> byte list \<Rightarrow> byte list list" where
  "chunks_from cs 0 xs = []"
| "chunks_from cs (Suc n) xs = take (min cs (length xs)) xs # chunks_from cs n (drop (min cs (length xs)) xs)"

definition num_chunks :: "nat \<Rightarrow> nat \<Rightarrow> nat" where
  "num_chunks cs file_size = (if file_size = 0 then 0 else (file_size + cs - 1) div cs)"

text \<open>Sending: a line with one \<^verbatim>\<open>send\<close>, which may take only a part of it, and data in a loop that retries after a
  signal (\<open>Again\<close>).  The result is the flag, the bytes on the wire and the results of the later calls.\<close>

fun send_line :: "byte list \<Rightarrow> io_res list \<Rightarrow> (bool \<times> byte list \<times> io_res list) option" where
  "send_line p [] = None"
| "send_line p (Ready n # rs) = Some (True, take n p, rs)"
| "send_line p (Again rc # rs) = Some (False, [], rs)"
| "send_line p (Fail # rs) = Some (False, [], rs)"

fun send_data :: "byte list \<Rightarrow> io_res list \<Rightarrow> (bool \<times> byte list \<times> io_res list) option" where
  "send_data p rs =
     (if p = [] then Some (True, [], rs)
      else case rs of
        [] \<Rightarrow> None
      | Ready n # rs' \<Rightarrow>
          (let k = min n (length p) in
           if k = 0 then Some (False, [], rs')
           else map_option (\<lambda>(ok, b, r). (ok, take k p @ b, r)) (send_data (drop k p) rs'))
      | Again rc # rs' \<Rightarrow> send_data p rs'
      | Fail # rs' \<Rightarrow> Some (False, [], rs'))"

declare send_data.simps [simp del]

fun send_chunks :: "nat \<Rightarrow> byte list list \<Rightarrow> io_res list \<Rightarrow> (bool \<times> byte list \<times> io_res list) option" where
  "send_chunks i [] rs = Some (True, [], rs)"
| "send_chunks i (d # ds) rs =
     (case send_line (str_bytes (chunk_header (int i) d @ [nl])) rs of
        None \<Rightarrow> None
      | Some (False, b, rs1) \<Rightarrow> Some (False, b, rs1)
      | Some (True, b, rs1) \<Rightarrow>
          (case send_data d rs1 of
             None \<Rightarrow> None
           | Some (False, c, rs2) \<Rightarrow> Some (False, b @ c, rs2)
           | Some (True, c, rs2) \<Rightarrow> map_option (\<lambda>(ok, e, r). (ok, b @ c @ e, r)) (send_chunks (Suc i) ds rs2)))"

text \<open>A peer in turns: the line it answers to the request, and the line it answers to the bytes that follow.\<close>

type_synonym 'w session = "string \<times> (byte list \<Rightarrow> 'w \<Rightarrow> string \<times> 'w)"
type_synonym 'w talk = "string \<Rightarrow> int \<Rightarrow> byte list \<Rightarrow> 'w \<Rightarrow> 'w session option \<times> 'w"

definition upload_request_line :: "string \<Rightarrow> byte list \<Rightarrow> string" where
  "upload_request_line file_name content =
     upload_line file_name (length content) (num_chunks DEFAULT_CHUNK_SIZE (length content))
       (sha_digest (foldl sha_update (sha_new (replicate 64 0)) (pieces (64 * 1024) content)))"

definition file_upload ::
  "'w talk \<Rightarrow> io_res list \<Rightarrow> string \<Rightarrow> int \<Rightarrow> string \<Rightarrow> string \<Rightarrow> local_files \<Rightarrow> 'w \<Rightarrow> (int \<times> 'w) option" where
  "file_upload talk rs ip port file_path file_name fs w =
     (case fs file_path of
        None \<Rightarrow> Some (1, w)
      | Some content \<Rightarrow>
          (case send_line (str_bytes (upload_request_line file_name content @ [nl])) rs of
             None \<Rightarrow> None
           | Some (ok, req, rs1) \<Rightarrow>
               (case talk ip port req w of
                  (None, w1) \<Rightarrow> Some (1, w1)
                | (Some (ready, session), w1) \<Rightarrow>
                    if \<not> ok then Some (1, w1)
                    else if \<not> starts_with ''READY'' ready then Some (1, w1)
                    else
                      (case send_chunks 0 (chunks_from DEFAULT_CHUNK_SIZE
                              (num_chunks DEFAULT_CHUNK_SIZE (length content)) content) rs1 of
                         None \<Rightarrow> None
                       | Some (False, sent, rs2) \<Rightarrow> Some (1, snd (session sent w1))
                       | Some (True, sent, rs2) \<Rightarrow>
                           (case send_line (str_bytes (''EOF'' @ [nl])) rs2 of
                              None \<Rightarrow> None
                            | Some (_, e, rs3) \<Rightarrow>
                                (let (final, w2) = session (sent @ e) w1
                                 in Some (if starts_with ''SUCCESS'' final then 0 else 1, w2)))))))"

section \<open>Command line\<close>

text \<open>The environment as \<^verbatim>\<open>getenv\<close>.\<close>

definition get_default_server_ip :: "(string \<Rightarrow> string option) \<Rightarrow> string" where
  "get_default_server_ip getenv =
     (case getenv ''DFG_HEAD_HOST'' of
        Some v \<Rightarrow> v
      | None \<Rightarrow> (case getenv ''DFG_SERVER_HOST'' of Some v \<Rightarrow> v | None \<Rightarrow> ''127.0.0.1''))"

definition get_default_server_port :: "(string \<Rightarrow> string option) \<Rightarrow> int" where
  "get_default_server_port getenv =
     (case (case getenv ''DFG_HEAD_PORT'' of Some v \<Rightarrow> Some v | None \<Rightarrow> getenv ''DFG_SERVER_PORT'') of
        None \<Rightarrow> 9669
      | Some v \<Rightarrow> (case stoi v of Inl x \<Rightarrow> 9669 | Inr p \<Rightarrow> if p > 0 \<and> p \<le> 65535 then p else 9669))"

text \<open>\<^verbatim>\<open>find_last_of("/\\")\<close>.\<close>

definition extract_filename :: "string \<Rightarrow> string" where
  "extract_filename path = rev (takeWhile (\<lambda>c. c \<noteq> CHR ''/'' \<and> c \<noteq> CHR 0x5C) (rev path))"

definition validate_port :: "int \<Rightarrow> bool" where
  "validate_port port \<longleftrightarrow> \<not> (port \<le> 0 \<or> port > 65535)"

text \<open>What the argument parser found of an option: given or not, and the value with its default.\<close>

record 'a arg =
  is_used :: bool
  arg_value :: 'a

definition resolve_server_target ::
  "string arg \<Rightarrow> int arg \<Rightarrow> string arg \<Rightarrow> int arg \<Rightarrow> string \<times> int" where
  "resolve_server_target sub_ip sub_port parent_ip parent_port =
     (if is_used sub_ip then arg_value sub_ip else if is_used parent_ip then arg_value parent_ip else arg_value sub_ip,
      if is_used sub_port then arg_value sub_port else if is_used parent_port then arg_value parent_port
      else arg_value sub_port)"

text \<open>The subcommand with its own options, and the options of the program.\<close>

datatype subcommand =
    Help_cmd | Version_cmd
  | Delete_cmd string
  | Upload_cmd string string
  | Download_cmd string string "string arg"
  | List_cmd | Test_cmd

record cmdline =
  cmd_sub :: "(subcommand \<times> string arg \<times> int arg) option"
  cmd_ip :: "string arg"
  cmd_port :: "int arg"
  cmd_list :: bool
  cmd_test :: bool
  cmd_upload :: "string option"
  cmd_download :: "string option"
  cmd_downlaod :: "string option"
  cmd_output :: "string arg"

datatype action =
    Exit int
  | Do_delete string int string
  | Do_upload string int string string
  | Do_download string int string string
  | Do_list string int
  | Do_test string int

definition on_server :: "string \<times> int \<Rightarrow> (string \<Rightarrow> int \<Rightarrow> action) \<Rightarrow> action" where
  "on_server target act = (if \<not> validate_port (snd target) then Exit 1 else act (fst target) (snd target))"

fun run_subcommand :: "string \<times> int \<Rightarrow> subcommand \<Rightarrow> action" where
  "run_subcommand target Help_cmd = Exit 0"
| "run_subcommand target Version_cmd = Exit 0"
| "run_subcommand target (Delete_cmd f) = on_server target (\<lambda>ip port. Do_delete ip port f)"
| "run_subcommand target (Upload_cmd path name) =
     on_server target (\<lambda>ip port. Do_upload ip port path (if name = [] then extract_filename path else name))"
| "run_subcommand target (Download_cmd f out opt) =
     on_server target (\<lambda>ip port.
       let path = (if out = [] \<and> is_used opt then arg_value opt else out)
       in Do_download ip port f (if path = [] then f else path))"
| "run_subcommand target List_cmd = on_server target Do_list"
| "run_subcommand target Test_cmd = on_server target Do_test"

text \<open>The flags of the program, without a subcommand.\<close>

definition run_flags :: "cmdline \<Rightarrow> string \<Rightarrow> int \<Rightarrow> action" where
  "run_flags c ip port =
     (if cmd_list c then Do_list ip port
      else if cmd_test c then Do_test ip port
      else
        (case cmd_upload c of
           Some path \<Rightarrow> Do_upload ip port path (extract_filename path)
         | None \<Rightarrow>
             (let f = (case cmd_download c of
                         Some d \<Rightarrow> d
                       | None \<Rightarrow> (case cmd_downlaod c of Some d \<Rightarrow> d | None \<Rightarrow> []))
              in if f \<noteq> []
                 then Do_download ip port f (if is_used (cmd_output c) then arg_value (cmd_output c) else f)
                 else Exit 1)))"

text \<open>\<^verbatim>\<open>main\<close>; \<open>None\<close> is a command line the argument parser rejects or that is empty.\<close>

definition client_main :: "cmdline option \<Rightarrow> action" where
  "client_main cl =
     (case cl of
        None \<Rightarrow> Exit 1
      | Some c \<Rightarrow>
          (case cmd_sub c of
             Some (sub, ip, port) \<Rightarrow> run_subcommand (resolve_server_target ip port (cmd_ip c) (cmd_port c)) sub
           | None \<Rightarrow> on_server (arg_value (cmd_ip c), arg_value (cmd_port c)) (run_flags c)))"

text \<open>The self test: what it writes, uploads, downloads and compares.\<close>

definition test_content :: string where
  "test_content = ''This is a test file for the distributed storage system.'' @ [nl] @
     concat (map (\<lambda>i. ''Line '' @ show_nat i @ '': Lorem ipsum dolor sit amet.'' @ [nl]) [0..<1000])"

definition run_client_test ::
  "'w talk \<Rightarrow> io_res list \<Rightarrow> 'w dial \<Rightarrow> schedule \<Rightarrow> local_disk \<Rightarrow> string \<Rightarrow> int \<Rightarrow> local_files \<Rightarrow> 'w \<Rightarrow>
   ((cxx_exn + int \<times> local_files) \<times> 'w) option" where
  "run_client_test talk rs dial sched ldisk ip port fs w =
     (let test_file = ''/tmp/dfg_test_file.txt''; download_path = ''/tmp/dfg_downloaded_test.txt'';
          fs1 = (case ldisk test_file of None \<Rightarrow> fs | Some k \<Rightarrow> fs(test_file := Some (k (str_bytes test_content))))
      in case file_upload talk rs ip port test_file ''test_file.txt'' fs1 w of
           None \<Rightarrow> None
         | Some (rc, w1) \<Rightarrow>
             if rc \<noteq> 0 then Some (Inr (-1, fs1), w1)
             else
               (case file_download dial sched ldisk ip port ''test_file.txt'' download_path fs1 w1 of
                  (Inl x, w2) \<Rightarrow> Some (Inl x, w2)
                | (Inr (rc, fs2), w2) \<Rightarrow>
                    Some (Inr (if rc \<noteq> 0 then -1
                               else if fs2 test_file = None \<or> fs2 download_path = None then -1
                               else if fs2 test_file = fs2 download_path then 0 else -1, fs2), w2)))"

section \<open>Lemmas\<close>

lemma pieces_concat: "n > 0 \<Longrightarrow> concat (pieces n xs) = xs"
proof (induction n xs rule: pieces.induct)
  case (1 n xs)
  then show ?case by (subst pieces.simps) auto
qed

lemma chunks_from_concat: "length xs \<le> n * cs \<Longrightarrow> concat (chunks_from cs n xs) = xs"
proof (induction n arbitrary: xs)
  case (Suc n)
  then have "concat (chunks_from cs n (drop (min cs (length xs)) xs)) = drop (min cs (length xs)) xs"
    by (intro Suc.IH) (auto simp: min_def)
  then show ?case by simp
qed simp

lemma num_chunks_covers: "cs > 0 \<Longrightarrow> n \<le> num_chunks cs n * cs"
proof -
  assume cs: "cs > 0"
  have "n \<le> (n + cs - 1) div cs * cs" if "n > 0"
    using cs that div_mult_mod_eq [of "n + cs - 1" cs] mod_less_divisor [OF cs, of "n + cs - 1"] by linarith
  then show ?thesis by (simp add: num_chunks_def)
qed

lemma length_chunks_from [simp]: "length (chunks_from cs n xs) = n"
  by (induction n arbitrary: xs) simp_all

lemma chunks_from_bound: "d \<in> set (chunks_from cs n xs) \<Longrightarrow> length d \<le> cs"
  by (induction n arbitrary: xs) auto

lemma upload_request_line_eq:
  "upload_request_line f content =
     upload_line f (length content) (num_chunks DEFAULT_CHUNK_SIZE (length content)) (sha256 content)"
  by (simp add: upload_request_line_def sha_start_digest pieces_concat)

subsection \<open>What an upload puts on the wire\<close>

text \<open>Calls that take at least \<open>n\<close> bytes, or all they are given.\<close>

definition taking :: "nat \<Rightarrow> io_res list \<Rightarrow> bool" where
  "taking n rs \<longleftrightarrow> (\<forall>r \<in> set rs. \<exists>m \<ge> n. r = Ready m)"

lemma taking_simps [simp]: "taking n []" "taking n (r # rs) \<longleftrightarrow> (\<exists>m \<ge> n. r = Ready m) \<and> taking n rs"
  by (auto simp: taking_def)

lemma send_line_taking:
  assumes "taking n rs" "rs \<noteq> []" "length p \<le> n"
  obtains rs' where "send_line p rs = Some (True, p, rs')" "taking n rs'" "length rs = Suc (length rs')"
  using assms by (cases rs) auto

lemma send_data_taking:
  "taking n rs \<Longrightarrow> n > 0 \<Longrightarrow> length p \<le> length rs \<Longrightarrow>
   \<exists>rs'. send_data p rs = Some (True, p, rs') \<and> taking n rs' \<and> length rs \<le> length rs' + length p"
proof (induction rs arbitrary: p)
  case Nil
  then show ?case by (subst send_data.simps) simp
next
  case (Cons r rs)
  obtain m where r: "r = Ready m" "m \<ge> n" using Cons.prems(1) by auto
  let ?k = "min m (length p)"
  show ?case
  proof (cases "p = []")
    case True
    then show ?thesis using Cons.prems by (subst send_data.simps) simp
  next
    case False
    then have k: "?k > 0" using r(2) Cons.prems(2) by auto
    then have "length (drop ?k p) \<le> length rs" using Cons.prems(3) by auto
    then obtain rs' where "send_data (drop ?k p) rs = Some (True, drop ?k p, rs')" "taking n rs'"
      "length rs \<le> length rs' + length (drop ?k p)"
      using Cons.IH [of "drop ?k p"] Cons.prems by auto
    moreover have "?k \<ge> 1" "?k \<le> length p" using k by linarith+
    then have "Suc (length rs) \<le> length rs' + length p" using calculation(3) unfolding length_drop by linarith
    ultimately show ?thesis using False r k by (subst send_data.simps) (auto simp: Let_def)
  qed
qed

definition indexed :: "nat \<Rightarrow> byte list list \<Rightarrow> (int \<times> byte list) list" where
  "indexed i ds = zip (map int [i..<i + length ds]) ds"

lemma indexed_simps [simp]: "indexed i [] = []" "indexed i (d # ds) = (int i, d) # indexed (Suc i) ds"
  by (simp_all add: indexed_def upt_conv_Cons del: upt_Suc)

lemma map_snd_indexed [simp]: "map snd (indexed i ds) = ds" "length (indexed i ds) = length ds"
  by (simp_all add: indexed_def)

lemma map_fst_indexed: "map fst (indexed i ds) = map int [i..<i + length ds]"
  by (simp add: indexed_def)

lemma send_chunks_taking:
  assumes "taking n rs" "n > 0" "\<forall>(j, d) \<in> set (indexed i ds). length (chunk_header j d) < n"
    and "length ds + length (concat ds) \<le> length rs"
  shows "\<exists>rs'. send_chunks i ds rs = Some (True, concat (map chunk_frame (indexed i ds)), rs') \<and> taking n rs' \<and>
    length rs \<le> length rs' + length ds + length (concat ds)"
  using assms
proof (induction ds arbitrary: i rs)
  case (Cons d ds)
  let ?l = "str_bytes (chunk_header (int i) d @ [nl])"
  have "length ?l \<le> n" using Cons.prems(3) by (simp add: str_bytes_def)
  moreover have "rs \<noteq> []" using Cons.prems(4) by auto
  ultimately obtain rs1 where 1: "send_line ?l rs = Some (True, ?l, rs1)" "taking n rs1" "length rs = Suc (length rs1)"
    using send_line_taking [OF Cons.prems(1)] by metis
  have "length d \<le> length rs1" using Cons.prems(4) 1(3) by simp
  then obtain rs2 where 2: "send_data d rs1 = Some (True, d, rs2)" "taking n rs2" "length rs1 \<le> length rs2 + length d"
    using send_data_taking [OF 1(2) Cons.prems(2)] by blast
  have "length ds + length (concat ds) \<le> length rs2" using Cons.prems(4) 1(3) 2(3) by simp
  then obtain rs3 where 3: "send_chunks (Suc i) ds rs2 = Some (True, concat (map chunk_frame (indexed (Suc i) ds)), rs3)"
    "taking n rs3" "length rs2 \<le> length rs3 + length ds + length (concat ds)"
    using Cons.IH [OF 2(2) Cons.prems(2)] Cons.prems(3) by auto
  moreover have "chunk_frame (int i, d) = ?l @ d" by (simp add: chunk_frame_def)
  ultimately show ?case using 1 2 by simp
qed simp

text \<open>The protocol of an upload: what the peer is sent, and the exit code.\<close>

definition client_chunks :: "byte list \<Rightarrow> byte list list" where
  "client_chunks content =
     chunks_from DEFAULT_CHUNK_SIZE (num_chunks DEFAULT_CHUNK_SIZE (length content)) content"

lemma client_chunks_concat: "concat (client_chunks content) = content"
  unfolding client_chunks_def by (intro chunks_from_concat num_chunks_covers) (simp add: DEFAULT_CHUNK_SIZE_def)

definition upload_body :: "byte list \<Rightarrow> byte list" where
  "upload_body content = concat (map chunk_frame (indexed 0 (client_chunks content))) @ str_bytes (''EOF'' @ [nl])"

lemma file_upload_protocol:
  assumes "fs path = Some content" "taking n rs"
    and "length (upload_request_line f content) < n" "3 < n"
    and "\<forall>(j, d) \<in> set (indexed 0 (client_chunks content)). length (chunk_header j d) < n"
    and "length content + length (client_chunks content) + 2 \<le> length rs"
  shows "file_upload talk rs ip port path f fs w =
    (case talk ip port (str_bytes (upload_request_line f content @ [nl])) w of
       (None, w1) \<Rightarrow> Some (1, w1)
     | (Some (ready, session), w1) \<Rightarrow>
         if \<not> starts_with ''READY'' ready then Some (1, w1)
         else (let (final, w2) = session (upload_body content) w1 in Some (if starts_with ''SUCCESS'' final then 0 else 1, w2)))"
proof -
  let ?l = "str_bytes (upload_request_line f content @ [nl])" and ?e = "str_bytes (''EOF'' @ [nl])"
  have "length ?l \<le> n" "rs \<noteq> []" using assms(3,6) by (auto simp: str_bytes_def)
  then obtain rs1 where 1: "send_line ?l rs = Some (True, ?l, rs1)" "taking n rs1" "length rs = Suc (length rs1)"
    using send_line_taking [OF assms(2)] by metis
  have len: "length (client_chunks content) + length (concat (client_chunks content)) \<le> length rs1"
    using assms(6) 1(3) by (simp add: client_chunks_concat)
  have "n > 0" using assms(4) by simp
  then obtain rs2 where 2: "send_chunks 0 (client_chunks content) rs1 =
      Some (True, concat (map chunk_frame (indexed 0 (client_chunks content))), rs2)" "taking n rs2"
    "length rs1 \<le> length rs2 + length (client_chunks content) + length (concat (client_chunks content))"
    using send_chunks_taking [OF 1(2) _ assms(5) len] by blast
  have "length ?e \<le> n" "rs2 \<noteq> []" using assms(4,6) 1(3) 2(3) by (auto simp: str_bytes_def client_chunks_concat)
  then obtain rs3 where 3: "send_line ?e rs2 = Some (True, ?e, rs3)"
    using send_line_taking [OF 2(2)] by metis
  show ?thesis
    unfolding file_upload_def assms(1) option.case 1(1) client_chunks_def [symmetric] 2(1) 3 prod.case upload_body_def
    by (auto simp: 3 2(1) split: prod.split option.split)
qed

subsection \<open>What a download accepts\<close>

lemma fetch_chunk_verified: "fetch_chunk dial f c w = (Inr (Some d), w') \<Longrightarrow> sha256 d = rc_hash c"
  by (auto simp: fetch_chunk_def Let_def split: prod.splits option.splits if_splits sum.splits)

text \<open>The chunks stored by the threads: every one asked for is there and has the hash it was announced with.\<close>

lemma fetch_chunks_verified:
  "fetch_chunks dial f cs (err, data) w = (Inr (False, data'), w') \<Longrightarrow> distinct (map rc_id cs) \<Longrightarrow>
   \<not> err \<and> (\<forall>c \<in> set cs. \<exists>d. map_of data' (rc_id c) = Some d \<and> sha256 d = rc_hash c) \<and>
   (\<forall>i. i \<notin> rc_id ` set cs \<longrightarrow> map_of data' i = map_of data i)"
proof (induction cs arbitrary: err data w)
  case (Cons c cs)
  obtain r w1 where f: "fetch_chunk dial f c w = (r, w1)" by force
  note run = Cons.prems(1) [unfolded fetch_chunks.simps f prod.case]
  show ?case
  proof (cases r)
    case (Inr o')
    show ?thesis
    proof (cases o')
      case None
      then show ?thesis using Cons.IH [of True data w1] run Inr Cons.prems(2) by simp
    next
      case (Some d)
      then have "fetch_chunks dial f cs (err, omap_upd (rc_id c) d data) w1 = (Inr (False, data'), w')"
        using run Inr by simp
      from Cons.IH [OF this] show ?thesis
        using fetch_chunk_verified [of dial f c w d w1] f Inr Some Cons.prems(2) by auto
    qed
  qed (use run in simp)
qed simp

text \<open>C3. A download that reports success has received bytes with the announced SHA-256 (if the head server announced
  one), whatever the storage servers answer and in whatever order the threads finish.  The check is made on the bytes
  in memory: the output file holds what the disk kept of them, which is the verified file only if the disk kept
  everything, because the outcome of the writes is not tested.  No other local file changes.  If the announced chunks
  are numbered \<open>0, \<dots>, n - 1\<close>, the bytes are the concatenation of parts with the announced hashes.\<close>

theorem client_download_verified:
  assumes "file_download dial sched ldisk ip port f out fs w = (Inr (0, fs'), w')"
    and "\<And>cs. mset (sched cs) = mset cs"
  shows "\<exists>s w1 file_hash chunks parts k.
    dial ip port (''DOWNLOAD '' @ f @ [nl]) w = (Some s, w1) \<and> head_lines [] [] s = Some (file_hash, chunks) \<and>
    (file_hash \<noteq> [] \<longrightarrow> sha256 (concat parts) = file_hash) \<and>
    ldisk out = Some k \<and> fs' = fs(out := Some (k (concat parts))) \<and> length parts = length chunks \<and>
    (set (map rc_id chunks) = set (map int [0..<length chunks]) \<longrightarrow>
       (\<forall>c \<in> set chunks. sha256 (parts ! nat (rc_id c)) = rc_hash c))"
proof -
  obtain r w1 where d: "dial ip port (''DOWNLOAD '' @ f @ [nl]) w = (r, w1)" by force
  note run = assms(1) [unfolded file_download_def d Let_def prod.case]
  obtain s where r: "r = Some s" using run by (cases r) simp_all
  obtain file_hash chunks where h: "head_lines [] [] s = Some (file_hash, chunks)"
    using run r by (cases "head_lines [] [] s") auto
  obtain res w2 where t: "fetch_chunks dial f (sched chunks) (False, []) w1 = (res, w2)" by force
  note run2 = run [unfolded r option.case h prod.case t]
  obtain data where res: "res = Inr (False, data)"
    using run2 by (cases res) (auto split: if_splits prod.splits)
  obtain k where k: "ldisk out = Some k" using run2 unfolding res by (cases "ldisk out") simp_all
  let ?parts = "assemble (length chunks) data"
  have fs: "fs' = fs(out := Some (k (concat ?parts)))" "file_hash \<noteq> [] \<longrightarrow> sha256 (concat ?parts) = file_hash"
    using run2 unfolding res by (auto simp: k sha_start_digest split: if_splits)
  have "sha256 (?parts ! nat (rc_id c)) = rc_hash c"
    if ids: "set (map rc_id chunks) = set (map int [0..<length chunks])" and c: "c \<in> set chunks" for c
  proof -
    have "card (set (map int [0..<length chunks])) = length chunks" by (subst distinct_card) (simp_all add: distinct_map)
    then have "card (set (map rc_id chunks)) = length (map rc_id chunks)" unfolding ids by simp
    then have "distinct (map rc_id chunks)" by (rule card_distinct)
    moreover have "mset (map rc_id (sched chunks)) = mset (map rc_id chunks)" using assms(2) by simp
    ultimately have "distinct (map rc_id (sched chunks))" by (metis mset_eq_imp_distinct_iff)
    moreover have "c \<in> set (sched chunks)" using assms(2) c by (metis mset_eq_setD)
    ultimately obtain x where x: "map_of data (rc_id c) = Some x" "sha256 x = rc_hash c"
      using fetch_chunks_verified [OF t [unfolded res]] by blast
    have "rc_id c \<in> set (map int [0..<length chunks])" using ids c by auto
    then show ?thesis using x by (auto simp: assemble_def)
  qed
  then show ?thesis using d r h fs k by (auto simp: assemble_def)
qed

subsection \<open>Reading the announcement\<close>

lemma head_lines_hash: "nl \<notin> set h \<Longrightarrow> head_lines h0 cs (str_bytes (''FILE_HASH '' @ h @ [nl]) @ s) = head_lines h cs s"
  using read_line_text [of "''FILE_HASH '' @ h" s]
  by (subst head_lines.simps) (simp add: starts_with_def nl_def)

lemma head_lines_count: "head_lines h cs (str_bytes (''CHUNKS '' @ show_int n @ [nl]) @ s) = head_lines h cs s"
  using read_line_text [of "''CHUNKS '' @ show_int n" s] word_ok_no_nl [OF word_ok_show_int [of n]]
  by (subst head_lines.simps) (simp add: starts_with_def nl_def)

lemma head_lines_eof: "head_lines h cs (str_bytes (''EOF'' @ [nl])) = Some (h, cs)"
  using read_line_text [of "''EOF''" "[]"] by (subst head_lines.simps) (simp add: starts_with_def nl_def)

definition loc_line :: "remote_chunk \<Rightarrow> string" where
  "loc_line c = show_int (rc_id c) @ '' '' @ rc_ip c @ '' '' @ show_int (rc_port c) @ '' '' @ rc_hash c"

definition remote_ok :: "remote_chunk \<Rightarrow> bool" where
  "remote_ok c \<longleftrightarrow> in_int (rc_id c) \<and> word_ok (rc_ip c) \<and> in_int (rc_port c) \<and> word_ok (rc_hash c)"

lemma read_int_blank: "read_int (CHR '' '' # s) = read_int s"
  by (simp add: read_int_def parse_number_blank)

lemma parse_chunk_loc_line: "remote_ok c \<Longrightarrow> parse_chunk_loc (loc_line c) = Some c"
proof -
  assume c: "remote_ok c"
  have sp: "is_space (CHR '' '')" by (simp add: is_space_def)
  let ?h = "CHR '' '' # rc_hash c"
  have 1: "read_int (show_int (rc_id c) @ CHR '' '' # rc_ip c @ CHR '' '' # show_int (rc_port c) @ ?h) =
      Some (rc_id c, CHR '' '' # rc_ip c @ CHR '' '' # show_int (rc_port c) @ ?h)"
    using c by (intro read_int_show_int) (simp_all add: remote_ok_def)
  have 2: "read_word (CHR '' '' # rc_ip c @ CHR '' '' # show_int (rc_port c) @ ?h) = Some (rc_ip c, CHR '' '' # show_int (rc_port c) @ ?h)"
    unfolding read_word_blank using c sp by (intro read_word_word) (simp_all add: remote_ok_def)
  have 3: "read_int (CHR '' '' # show_int (rc_port c) @ ?h) = Some (rc_port c, ?h)"
    unfolding read_int_blank using c by (intro read_int_show_int) (simp_all add: remote_ok_def)
  have 4: "read_word ?h = Some (rc_hash c, [])"
    using read_word_word [of "rc_hash c" "[]"] c by (simp add: read_word_blank remote_ok_def)
  show ?thesis by (simp add: parse_chunk_loc_def loc_line_def 1 2 3 4)
qed

lemma head_lines_loc:
  "remote_ok c \<Longrightarrow> head_lines h cs (str_bytes (''CHUNK_LOC '' @ loc_line c @ [nl]) @ s) = head_lines h (cs @ [c]) s"
proof -
  assume c: "remote_ok c"
  then have "nl \<notin> set (loc_line c)"
    using word_ok_no_nl [of "rc_ip c"] word_ok_no_nl [of "rc_hash c"] word_ok_no_nl [OF word_ok_show_int [of "rc_id c"]]
      word_ok_no_nl [OF word_ok_show_int [of "rc_port c"]]
    by (simp add: loc_line_def remote_ok_def nl_def)
  then have "read_line (str_bytes (''CHUNK_LOC '' @ loc_line c @ [nl]) @ s) = (''CHUNK_LOC '' @ loc_line c, s)"
    using read_line_text [of "''CHUNK_LOC '' @ loc_line c" s] by (simp add: nl_def)
  then show ?thesis using parse_chunk_loc_line [OF c] by (subst head_lines.simps) (simp add: starts_with_def)
qed

lemma str_bytes_append: "str_bytes (a @ b) = str_bytes a @ str_bytes b"
  by (simp add: str_bytes_def)

lemma head_lines_locs:
  "\<forall>c \<in> set cs. remote_ok c \<Longrightarrow>
   head_lines h cs0 (str_bytes (concat (map (\<lambda>c. ''CHUNK_LOC '' @ loc_line c @ [nl]) cs)) @ s) = head_lines h (cs0 @ cs) s"
proof (induction cs arbitrary: cs0)
  case (Cons c cs)
  have "head_lines h cs0 (str_bytes (''CHUNK_LOC '' @ loc_line c @ [nl])
        @ str_bytes (concat (map (\<lambda>c. ''CHUNK_LOC '' @ loc_line c @ [nl]) cs)) @ s) = head_lines h (cs0 @ c # cs) s"
    using Cons head_lines_loc [of c h cs0] by simp
  then show ?case by (simp only: list.map concat.simps str_bytes_append append_assoc)
qed (simp add: str_bytes_def)

text \<open>The announcement of a file.\<close>

definition announcement :: "string \<Rightarrow> remote_chunk list \<Rightarrow> string" where
  "announcement h cs = ''FILE_HASH '' @ h @ [nl] @ ''CHUNKS '' @ show_int (int (length cs)) @ [nl]
     @ concat (map (\<lambda>c. ''CHUNK_LOC '' @ loc_line c @ [nl]) cs) @ ''FILE_HASH '' @ h @ [nl] @ ''EOF'' @ [nl]"

lemma head_lines_announcement:
  assumes "nl \<notin> set h" "\<forall>c \<in> set cs. remote_ok c"
  shows "head_lines [] [] (str_bytes (announcement h cs)) = Some (h, cs)"
proof -
  have "str_bytes (announcement h cs) = str_bytes (''FILE_HASH '' @ h @ [nl]) @ str_bytes (''CHUNKS '' @ show_int (int (length cs)) @ [nl])
     @ str_bytes (concat (map (\<lambda>c. ''CHUNK_LOC '' @ loc_line c @ [nl]) cs))
     @ str_bytes (''FILE_HASH '' @ h @ [nl]) @ str_bytes (''EOF'' @ [nl])"
    by (simp only: announcement_def str_bytes_append append_assoc)
  then show ?thesis
    using head_lines_locs [OF assms(2), of h "[]"]
    by (simp only: head_lines_hash [OF assms(1)] head_lines_count head_lines_eof append_Nil)
qed

text \<open>The reply to a request for a chunk.\<close>

definition chunk_reply :: "byte list \<Rightarrow> byte list" where
  "chunk_reply d = str_bytes (''CHUNK_SIZE '' @ show_int (int (length d)) @ [nl]) @ d"

lemma fetch_chunk_reply:
  assumes "dial (rc_ip c) (rc_port c) (''GET_CHUNK '' @ show_int (rc_id c) @ '' '' @ f @ [nl]) w = (Some (chunk_reply d), w')"
    and "length d \<le> max_vector" "sha256 d = rc_hash c"
  shows "fetch_chunk dial f c w = (Inr (Some d), w')"
proof -
  have "read_line (chunk_reply d) = (''CHUNK_SIZE '' @ show_int (int (length d)), d)"
    using read_line_text [of "''CHUNK_SIZE '' @ show_int (int (length d))" d] word_ok_no_nl [OF word_ok_show_int [of "int (length d)"]]
    by (simp add: chunk_reply_def nl_def)
  moreover have "length d < 2 ^ 64" using assms(2) by (simp add: max_vector_def)
  ultimately show ?thesis
    using assms unfolding fetch_chunk_def assms(1) Let_def prod.case by (simp add: stoull_show_int starts_with_def)
qed

subsection \<open>Downloads that succeed\<close>

text \<open>In the worlds \<open>I\<close> every request for the chunk is answered with its bytes.\<close>

definition served :: "('w \<Rightarrow> bool) \<Rightarrow> 'w dial \<Rightarrow> string \<Rightarrow> (remote_chunk \<Rightarrow> byte list) \<Rightarrow> remote_chunk \<Rightarrow> bool" where
  "served I dial f g c \<longleftrightarrow> length (g c) \<le> max_vector \<and> sha256 (g c) = rc_hash c \<and>
     (\<forall>w. I w \<longrightarrow> (\<exists>w'. I w' \<and>
        dial (rc_ip c) (rc_port c) (''GET_CHUNK '' @ show_int (rc_id c) @ '' '' @ f @ [nl]) w = (Some (chunk_reply (g c)), w')))"

lemma fetch_chunks_served:
  "\<forall>c \<in> set cs. served I dial f g c \<Longrightarrow> I w \<Longrightarrow>
   \<exists>w'. I w' \<and> fetch_chunks dial f cs (err, data) w = (Inr (err, fold (\<lambda>c. omap_upd (rc_id c) (g c)) cs data), w')"
proof (induction cs arbitrary: data w)
  case (Cons c cs)
  have c: "served I dial f g c" using Cons.prems by simp
  then obtain w1 where w1: "I w1"
    "dial (rc_ip c) (rc_port c) (''GET_CHUNK '' @ show_int (rc_id c) @ '' '' @ f @ [nl]) w = (Some (chunk_reply (g c)), w1)"
    using Cons.prems(2) unfolding served_def by blast
  then have "fetch_chunk dial f c w = (Inr (Some (g c)), w1)" using c unfolding served_def by (intro fetch_chunk_reply) auto
  then show ?case using Cons.IH [of w1 "omap_upd (rc_id c) (g c) data"] Cons.prems w1(1) by simp
qed simp

lemma fold_chunks_lookup:
  "distinct (map rc_id cs) \<Longrightarrow> c \<in> set cs \<Longrightarrow> map_of (fold (\<lambda>c. omap_upd (rc_id c) (g c)) cs data) (rc_id c) = Some (g c)"
proof (induction cs arbitrary: data)
  case (Cons a cs)
  have "map_of (fold (\<lambda>c. omap_upd (rc_id c) (g c)) xs m) i = map_of m i" if "i \<notin> rc_id ` set xs" for xs i m
    using that by (induction xs arbitrary: m) auto
  then show ?case using Cons by auto
qed simp

lemma assemble_chunks:
  assumes "map rc_id chunks = map int [0..<length chunks]" "mset cs = mset chunks"
  shows "assemble (length chunks) (fold (\<lambda>c. omap_upd (rc_id c) (g c)) cs []) = map g chunks"
proof (rule nth_equalityI)
  fix i assume i: "i < length (assemble (length chunks) (fold (\<lambda>c. omap_upd (rc_id c) (g c)) cs []))"
  then have i': "i < length chunks" by (simp add: assemble_def)
  have "distinct (map rc_id chunks)" unfolding assms(1) by (simp add: distinct_map)
  moreover have "mset (map rc_id cs) = mset (map rc_id chunks)" using assms(2) by simp
  ultimately have "distinct (map rc_id cs)" by (metis mset_eq_imp_distinct_iff)
  moreover have "chunks ! i \<in> set cs" using i' assms(2) by (metis mset_eq_setD nth_mem)
  moreover have "rc_id (chunks ! i) = int i" using arg_cong [OF assms(1), of "\<lambda>xs. xs ! i"] i' by simp
  ultimately show "assemble (length chunks) (fold (\<lambda>c. omap_upd (rc_id c) (g c)) cs []) ! i = map g chunks ! i"
    using fold_chunks_lookup [of cs "chunks ! i" g "[]"] i' by (simp add: assemble_def)
qed (simp add: assemble_def)

lemma file_download_served:
  assumes "dial ip port (''DOWNLOAD '' @ f @ [nl]) w = (Some (str_bytes (announcement (sha256 (concat (map g chunks))) chunks)), w1)"
    and "I w1" "\<forall>c \<in> set chunks. remote_ok c \<and> served I dial f g c" "map rc_id chunks = map int [0..<length chunks]"
    and "mset (sched chunks) = mset chunks" "ldisk out = Some k" "k (concat (map g chunks)) = concat (map g chunks)"
  shows "\<exists>w'. I w' \<and> file_download dial sched ldisk ip port f out fs w = (Inr (0, fs(out := Some (concat (map g chunks)))), w')"
proof -
  let ?h = "sha256 (concat (map g chunks))"
  have h: "head_lines [] [] (str_bytes (announcement ?h chunks)) = Some (?h, chunks)"
    using assms(3) word_ok_no_nl [OF sha256_word_ok] by (intro head_lines_announcement) auto
  have "\<forall>c \<in> set (sched chunks). served I dial f g c" using assms(3,5) by (metis mset_eq_setD)
  then obtain w' where "I w'" and t: "fetch_chunks dial f (sched chunks) (False, []) w1 =
      (Inr (False, fold (\<lambda>c. omap_upd (rc_id c) (g c)) (sched chunks) []), w')"
    using fetch_chunks_served [of "sched chunks" I dial f g w1 False "[]"] assms(2) by blast
  then show ?thesis
    unfolding file_download_def Let_def assms(1)
    by (simp only: prod.case option.case h t sum.case assms(6,7) assemble_chunks [OF assms(4,5)] sha_start_digest, simp add: assms(7))
qed

subsection \<open>The witnesses\<close>

text \<open>A head server and a storage server in one: the one chunk of file \<^verbatim>\<open>f\<close> is the byte 7.\<close>

definition sample_remote :: remote_chunk where
  "sample_remote = \<lparr>rc_id = 0, rc_ip = ''a'', rc_port = 2, rc_hash = sha256 [7]\<rparr>"

definition sample_dial :: "unit dial" where
  "sample_dial ip port req w =
     (if port = 1 then (Some (str_bytes (announcement (sha256 [7]) [sample_remote])), w) else (Some (chunk_reply [7]), w))"

lemma sample_remote_ok: "remote_ok sample_remote" "served (\<lambda>w. True) sample_dial f (\<lambda>c. [7]) sample_remote"
  using sha256_word_ok
  by (simp_all add: remote_ok_def served_def sample_remote_def sample_dial_def max_vector_def in_int_def int_min_def
      int_max_def word_ok_def is_space_def)

lemma sample_download:
  "file_download sample_dial id (\<lambda>p. Some id) ''h'' 1 ''f'' ''o'' Map.empty () = (Inr (0, Map.empty(''o'' := Some [7])), ())"
  using file_download_served [of sample_dial "''h''" 1 "''f''" "()" "\<lambda>c. [7]" "[sample_remote]" "()" "\<lambda>w. True" id "\<lambda>p. Some id" "''o''" id Map.empty]
    sample_remote_ok by (auto simp: sample_dial_def sample_remote_def)

theorem client_download_verified_witness:
  "\<exists>s w1 file_hash chunks parts k. sample_dial ''h'' 1 (''DOWNLOAD f'' @ [nl]) () = (Some s, w1) \<and>
     head_lines [] [] s = Some (file_hash, chunks) \<and> k = id \<and> concat parts = [7] \<and>
     (file_hash \<noteq> [] \<longrightarrow> sha256 (concat parts) = file_hash)"
proof -
  have m: "mset (id cs) = mset cs" for cs :: "remote_chunk list" by simp
  obtain s w1 file_hash chunks parts k where p: "sample_dial ''h'' 1 (''DOWNLOAD f'' @ [nl]) () = (Some s, w1)"
    "head_lines [] [] s = Some (file_hash, chunks)"
    "(Map.empty :: local_files)(''o'' := Some [7]) = Map.empty(''o'' := Some (k (concat parts)))" "Some (id :: byte list \<Rightarrow> byte list) = Some k"
    "file_hash \<noteq> [] \<longrightarrow> sha256 (concat parts) = file_hash"
    using client_download_verified [OF sample_download m] unfolding append.simps by blast
  have "concat parts = [7]" "k = id" using fun_cong [OF p(3), of "''o''"] p(4) by simp_all
  with p(1,2,5) show ?thesis by blast
qed

subsection \<open>Listing and dispatch\<close>

definition listable :: "string \<Rightarrow> bool" where
  "listable f \<longleftrightarrow> f \<noteq> [] \<and> nl \<notin> set f \<and> f \<noteq> ''EOF'' \<and> \<not> starts_with ''ERROR:'' f"

lemma list_lines_names:
  "\<forall>f \<in> set fs. listable f \<Longrightarrow> list_lines (str_bytes (concat (map (\<lambda>f. f @ [nl]) fs) @ ''EOF'' @ [nl])) = Inr fs"
proof (induction fs)
  case Nil
  show ?case using read_line_text [of "''EOF''" "[]"] by (subst list_lines.simps) (simp add: nl_def)
next
  case (Cons f fs)
  let ?r = "str_bytes (concat (map (\<lambda>f. f @ [nl]) fs) @ ''EOF'' @ [nl])"
  have "read_line (str_bytes (f @ [nl]) @ ?r) = (f, ?r)" using Cons.prems by (intro read_line_text) (simp add: listable_def)
  moreover have "str_bytes (concat (map (\<lambda>f. f @ [nl]) (f # fs)) @ ''EOF'' @ [nl]) = str_bytes (f @ [nl]) @ ?r"
    by (simp only: list.map concat.simps str_bytes_append append_assoc)
  ultimately show ?case using Cons by (subst list_lines.simps) (simp add: listable_def)
qed

fun action_port :: "action \<Rightarrow> int option" where
  "action_port (Exit rc) = None"
| "action_port (Do_delete ip port f) = Some port"
| "action_port (Do_upload ip port path f) = Some port"
| "action_port (Do_download ip port f out) = Some port"
| "action_port (Do_list ip port) = Some port"
| "action_port (Do_test ip port) = Some port"

lemma on_server_port:
  assumes "action_port (on_server target act) = Some port" "\<And>ip port. action_port (act ip port) \<in> {None, Some port}"
  shows "0 < port \<and> port \<le> 65535"
  using assms(1) assms(2) [of "fst target" "snd target"] by (auto simp: on_server_def validate_port_def split: if_splits)

lemma run_flags_port: "action_port (run_flags c ip port) \<in> {None, Some port}"
  by (simp add: run_flags_def Let_def split: option.split)

lemma run_subcommand_port: "action_port (run_subcommand t s) = Some port \<Longrightarrow> 0 < port \<and> port \<le> 65535"
  by (cases s) (auto simp: Let_def elim!: on_server_port)

definition sample_cmd :: cmdline where
  "sample_cmd = \<lparr>cmd_sub = Some (List_cmd, \<lparr>is_used = False, arg_value = ''h''\<rparr>, \<lparr>is_used = True, arg_value = 7\<rparr>),
     cmd_ip = \<lparr>is_used = True, arg_value = ''g''\<rparr>, cmd_port = \<lparr>is_used = True, arg_value = 70000\<rparr>, cmd_list = False,
     cmd_test = False, cmd_upload = None, cmd_download = None, cmd_downlaod = None,
     cmd_output = \<lparr>is_used = False, arg_value = []\<rparr>\<rparr>"

text \<open>Whatever the command line and the environment say, the client never contacts a server on a port outside
  1 to 65535, so the conversion of the port to 16 bits loses nothing.\<close>

theorem client_port_range:
  assumes "action_port (client_main cl) = Some port"
  shows "0 < port \<and> port \<le> 65535"
  using assms unfolding client_main_def
  by (auto dest: on_server_port [OF _ run_flags_port] run_subcommand_port split: option.splits)

theorem client_port_range_witness:
  "action_port (client_main (Some sample_cmd)) = Some 7 \<and> 0 < (7 :: int) \<and> (7 :: int) \<le> 65535"
proof -
  have "action_port (client_main (Some sample_cmd)) = Some 7"
    by (simp add: sample_cmd_def client_main_def resolve_server_target_def on_server_def validate_port_def)
  then show ?thesis using client_port_range [of "Some sample_cmd" 7] by simp
qed

end
