(* ===== verification/Download.thy ===== *)
theory Download
  imports Head_Transfer "HOL-Library.Product_Lexorder"
begin

text \<open>
  Serving a download and a deletion, \<^verbatim>\<open>stream_file_to_client\<close> and \<^verbatim>\<open>handle_client_delete\<close> of
  \<^verbatim>\<open>src/head_server/head_server.cpp\<close>.  A download asks every replica of every chunk for its hash,
  takes the most frequent hash of each chunk and sends the client the least loaded server that
  reported it.  The hash requests run in a pool of threads; the model makes them in the order in which
  they are submitted, which is the order in which the results are consumed.  The call of
  \<^verbatim>\<open>std::sort\<close> is the parameter \<open>srt\<close>.
\<close>

fun query_hashes ::
  "codec \<Rightarrow> 'w net \<Rightarrow> registry \<Rightarrow> string \<Rightarrow> chunk_location list \<Rightarrow> 'w \<Rightarrow> (chunk_location \<times> hash_resp) list \<times> 'w" where
  "query_hashes k net reg filename [] w = ([], w)"
| "query_hashes k net reg filename (loc # locs) w =
     (let (resp, w1) = get_chunk_hash k net reg loc filename w;
          (rs, w2) = query_hashes k net reg filename locs w1
      in ((loc, resp) # rs, w2))"

text \<open>The votes of the replicas that answered, as a \<^verbatim>\<open>std::map\<close> from hashes to counts, and the first hash
  with the highest count in its order.\<close>

definition votes :: "(chunk_location \<times> hash_resp) list \<Rightarrow> (string \<times> int) list" where
  "votes rs = count_keys (\<lambda>(l, r). hr_hash r) (filter (\<lambda>(l, r). hr_ok r) rs)"

definition majority :: "(string \<times> int) list \<Rightarrow> string" where
  "majority hash_counts =
     snd (fold (\<lambda>(hash, count) (max_count, best). if count > max_count then (count, hash) else (max_count, best))
            hash_counts (0, []))"

definition less_loaded :: "chunk_location \<times> hash_resp \<Rightarrow> chunk_location \<times> hash_resp \<Rightarrow> bool" where
  "less_loaded a b =
     (if hr_active (snd a) \<noteq> hr_active (snd b) then hr_active (snd a) < hr_active (snd b)
      else hr_load (snd a) < hr_load (snd b))"

record fetch_plan =
  fp_chunk :: int
  fp_server :: chunk_location
  fp_hash :: string

type_synonym sorter = "(chunk_location \<times> hash_resp) list \<Rightarrow> (chunk_location \<times> hash_resp) list"

definition plan_chunk :: "sorter \<Rightarrow> int \<Rightarrow> (chunk_location \<times> hash_resp) list \<Rightarrow> fetch_plan option" where
  "plan_chunk srt chunk_id rs =
     (let hash_counts = votes rs in
      if hash_counts = [] then None
      else
        (let h = majority hash_counts;
             majority_servers = srt (filter (\<lambda>(l, r). hr_ok r \<and> hr_hash r = h) rs)
         in Some \<lparr>fp_chunk = chunk_id, fp_server = fst (hd majority_servers), fp_hash = h\<rparr>))"

text \<open>The plans of all chunks; \<open>Inl\<close> is the first chunk without an answer.\<close>

fun make_plans :: "sorter \<Rightarrow> (int \<times> (chunk_location \<times> hash_resp) list) list \<Rightarrow> int + fetch_plan list" where
  "make_plans srt [] = Inr []"
| "make_plans srt ((chunk_id, rs) # cs) =
     (case plan_chunk srt chunk_id rs of
        None \<Rightarrow> Inl chunk_id
      | Some p \<Rightarrow> (case make_plans srt cs of Inl i \<Rightarrow> Inl i | Inr ps \<Rightarrow> Inr (p # ps)))"

definition public_port_of :: "registry \<Rightarrow> string \<Rightarrow> int" where
  "public_port_of reg server =
     (case find (\<lambda>s. address s = server) (get_all reg) of None \<Rightarrow> 8080 | Some s \<Rightarrow> se_public_port s)"

definition ip_only :: "string \<Rightarrow> string" where
  "ip_only server = (case find_char (CHR '':'') server of None \<Rightarrow> server | Some p \<Rightarrow> take p server)"

definition loc_msg :: "registry \<Rightarrow> fetch_plan \<Rightarrow> string" where
  "loc_msg reg p =
     ''CHUNK_LOC '' @ show_int (fp_chunk p) @ '' '' @ ip_only (cl_server (fp_server p)) @ '' ''
     @ show_int (public_port_of reg (cl_server (fp_server p))) @ '' '' @ fp_hash p @ [nl]"

text \<open>The returned flag, the text sent to the client, and the world.\<close>

definition stream_file_to_client ::
  "codec \<Rightarrow> 'w net \<Rightarrow> sorter \<Rightarrow> registry \<Rightarrow> mstore \<Rightarrow> string \<Rightarrow> 'w \<Rightarrow> bool \<times> string \<times> 'w" where
  "stream_file_to_client k net srt reg st filename w =
     (let (locs, file_hash) = get_chunk_locations_from_metadata filename st in
      if locs = [] then
        (if file_hash \<noteq> [] then (True, ''FILE_HASH '' @ file_hash @ [nl] @ ''EOF'' @ [nl], w)
         else (False, ''ERROR: No chunks found for file'' @ [nl], w))
      else
        (let replicas = group_keys cl_id locs;
             header = ''FILE_HASH '' @ file_hash @ [nl] @ ''CHUNKS '' @ show_int (int (length replicas)) @ [nl];
             (results, w') = query_hashes k net reg filename (concat (map snd replicas)) w in
         case make_plans srt (group_keys (\<lambda>(l, r). cl_id l) results) of
           Inl i \<Rightarrow> (False, header @ ''ERROR: Could not verify hashes for chunk '' @ show_int i @ [nl], w')
         | Inr plans \<Rightarrow>
             (True, header @ concat (map (loc_msg reg) plans) @ ''FILE_HASH '' @ file_hash @ [nl] @ ''EOF'' @ [nl], w')))"

definition handle_client_download ::
  "codec \<Rightarrow> 'w net \<Rightarrow> sorter \<Rightarrow> registry \<Rightarrow> mstore \<Rightarrow> string \<Rightarrow> 'w \<Rightarrow> string \<times> 'w" where
  "handle_client_download k net srt reg st filename w = snd (stream_file_to_client k net srt reg st filename w)"

section \<open>Deletion\<close>

text \<open>A command on the base port of a storage server: \<open>None\<close> when the connect fails, otherwise what one
  \<^verbatim>\<open>recv\<close> returned, empty on an error or end of file.\<close>

type_synonym 'w ctl = "string \<Rightarrow> int \<Rightarrow> string \<Rightarrow> 'w \<Rightarrow> string option \<times> 'w"

definition delete_replica :: "'w ctl \<Rightarrow> string \<Rightarrow> chunk_location \<Rightarrow> 'w \<Rightarrow> bool \<times> 'w" where
  "delete_replica ctl filename loc w =
     (let (ip, port) = parse_address 8080 (cl_server loc);
          (r, w') = ctl ip port (''DELETE_CHUNK '' @ unique_chunk_id filename (cl_id loc) @ [nl]) w
      in (case r of None \<Rightarrow> False | Some resp \<Rightarrow> contains ''SUCCESS'' resp, w'))"

fun delete_replicas :: "'w ctl \<Rightarrow> string \<Rightarrow> chunk_location list \<Rightarrow> 'w \<Rightarrow> bool \<times> 'w" where
  "delete_replicas ctl filename [] w = (True, w)"
| "delete_replicas ctl filename (loc # locs) w =
     (let (ok, w1) = delete_replica ctl filename loc w;
          (all_deleted, w2) = delete_replicas ctl filename locs w1
      in (ok \<and> all_deleted, w2))"

definition handle_client_delete :: "'w ctl \<Rightarrow> string \<Rightarrow> mstore \<Rightarrow> 'w \<Rightarrow> mstore \<times> string \<times> 'w" where
  "handle_client_delete ctl filename st w =
     (let (locs, file_hash) = get_chunk_locations_from_metadata filename st in
      if locs = [] then (st, ''ERROR: File not found'' @ [nl], w)
      else
        (let (all_deleted, w') = delete_replicas ctl filename locs w in
         if all_deleted then (delete_entry filename st, ''SUCCESS'' @ [nl], w')
         else (st, ''ERROR: Could not delete chunks'' @ [nl], w')))"

section \<open>Lemmas\<close>

lemma irreflp_less_loaded: "irreflp less_loaded"
  by (simp add: irreflp_def less_loaded_def)

lemma less_loaded_key:
  "less_loaded = (\<lambda>a b. (hr_active (snd a), hr_load (snd a)) < (hr_active (snd b), hr_load (snd b)))"
  by (intro ext) (auto simp: less_loaded_def less_prod_def)

definition vote_count :: "(chunk_location \<times> hash_resp) list \<Rightarrow> string \<Rightarrow> int" where
  "vote_count rs h = int (length (filter (\<lambda>(l, r). hr_ok r \<and> hr_hash r = h) rs))"

lemma votes_mem: "(h, n) \<in> set (votes rs) \<longleftrightarrow> n = vote_count rs h \<and> n > 0"
proof -
  let ?ok = "filter (\<lambda>(l, r). hr_ok r) rs"
  have eq: "length (filter (\<lambda>x. (case x of (l, r) \<Rightarrow> hr_hash r) = h) ?ok) =
      length (filter (\<lambda>(l, r). hr_ok r \<and> hr_hash r = h) rs)"
    unfolding filter_filter by (rule arg_cong [of _ _ length], rule filter_cong) auto
  have "h \<in> (\<lambda>(l, r). hr_hash r) ` set ?ok \<longleftrightarrow> vote_count rs h > 0"
    by (force simp: vote_count_def filter_empty_conv)
  moreover have "(h, n) \<in> set (votes rs) \<longleftrightarrow> n = vote_count rs h \<and> h \<in> (\<lambda>(l, r). hr_hash r) ` set ?ok"
    unfolding votes_def count_keys_mem eq vote_count_def by (rule refl)
  ultimately show ?thesis by auto
qed

text \<open>The scan for the maximum.\<close>

lemma majority_fold:
  fixes m :: "(string \<times> int) list"
  assumes "\<forall>(h, c) \<in> set m. c > 0"
  shows "let (mx, best) = fold (\<lambda>(hash, count) (max_count, best). if count > max_count then (count, hash) else (max_count, best)) m (a, b)
    in a \<le> mx \<and> (\<forall>(h, c) \<in> set m. c \<le> mx) \<and> ((mx, best) = (a, b) \<or> (best, mx) \<in> set m)"
  using assms
proof (induction m arbitrary: a b)
  case (Cons x m)
  obtain h c where x: "x = (h, c)" by force
  show ?case
    using Cons.IH [of c h] Cons.IH [of a b] Cons.prems by (auto simp: x Let_def case_prod_unfold)
qed simp

lemma majority_max:
  fixes m :: "(string \<times> int) list"
  assumes "m \<noteq> []" "\<forall>(h, c) \<in> set m. c > 0"
  shows "\<exists>c. (majority m, c) \<in> set m \<and> (\<forall>(h', c') \<in> set m. c' \<le> c)"
proof -
  let ?r = "fold (\<lambda>(hash, count) (max_count, best). if count > max_count then (count, hash) else (max_count, best)) m (0, [])"
  have r: "(\<forall>(h, c) \<in> set m. c \<le> fst ?r) \<and> (?r = (0, []) \<or> (snd ?r, fst ?r) \<in> set m)"
    using majority_fold [OF assms(2), of 0 "[]"] by (simp add: case_prod_unfold Let_def prod_eq_iff)
  have "?r \<noteq> (0, [])"
  proof
    assume "?r = (0, [])"
    then have "\<forall>(h, c) \<in> set m. c \<le> 0" using r by simp
    then show False using assms by (cases m) auto
  qed
  then show ?thesis using r unfolding majority_def by blast
qed

lemma vote_count_nonneg: "vote_count rs h \<ge> 0"
  by (simp add: vote_count_def)

lemma votes_pos: "\<forall>(h, c) \<in> set (votes rs). c > 0"
  by (auto simp: votes_mem)

lemma majority_votes:
  assumes "votes rs \<noteq> []"
  shows "vote_count rs (majority (votes rs)) > 0 \<and> vote_count rs h \<le> vote_count rs (majority (votes rs))"
proof -
  obtain c where c: "(majority (votes rs), c) \<in> set (votes rs)" "\<forall>(h', c') \<in> set (votes rs). c' \<le> c"
    using majority_max [OF assms votes_pos] by blast
  then have pos: "c = vote_count rs (majority (votes rs))" "c > 0" by (simp_all add: votes_mem)
  have "vote_count rs h \<le> c"
  proof (cases "vote_count rs h > 0")
    case True
    then have "(h, vote_count rs h) \<in> set (votes rs)" by (simp add: votes_mem)
    then show ?thesis using c(2) by blast
  qed (use pos in simp)
  then show ?thesis using pos by simp
qed

lemma plan_chunk_spec:
  assumes srt: "std_sort_ok less_loaded srt" and p: "plan_chunk srt i rs = Some p"
  shows "fp_chunk p = i \<and> vote_count rs h \<le> vote_count rs (fp_hash p) \<and>
    (\<exists>r. (fp_server p, r) \<in> set rs \<and> hr_ok r \<and> hr_hash r = fp_hash p \<and>
       (\<forall>l' r'. (l', r') \<in> set rs \<and> hr_ok r' \<and> hr_hash r' = fp_hash p \<longrightarrow> \<not> less_loaded (l', r') (fp_server p, r)))"
proof -
  let ?h = "majority (votes rs)"
  let ?ms = "filter (\<lambda>(l, r). hr_ok r \<and> hr_hash r = ?h) rs"
  have v: "votes rs \<noteq> []" and p': "p = \<lparr>fp_chunk = i, fp_server = fst (hd (srt ?ms)), fp_hash = ?h\<rparr>"
    using p by (auto simp: plan_chunk_def Let_def split: if_splits)
  have "?ms \<noteq> []" using majority_votes [OF v] by (auto simp: vote_count_def)
  from std_sort_hd [OF srt this irreflp_less_loaded]
  have hd: "hd (srt ?ms) \<in> set ?ms" "\<forall>x \<in> set ?ms. \<not> less_loaded x (hd (srt ?ms))" by simp_all
  obtain l r where lr: "hd (srt ?ms) = (l, r)" by force
  then have "(l, r) \<in> set rs \<and> hr_ok r \<and> hr_hash r = ?h" using hd(1) by simp
  moreover have "\<forall>l' r'. (l', r') \<in> set rs \<and> hr_ok r' \<and> hr_hash r' = ?h \<longrightarrow> \<not> less_loaded (l', r') (l, r)"
    using hd(2) lr by simp
  ultimately show ?thesis using majority_votes [OF v, of h] lr by (auto simp: p')
qed

lemma make_plans_spec:
  "make_plans srt cs = Inr ps \<Longrightarrow> list_all2 (\<lambda>(i, rs) p. plan_chunk srt i rs = Some p) cs ps"
  by (induction srt cs arbitrary: ps rule: make_plans.induct) (auto split: option.splits sum.splits)

lemma make_plans_member:
  "make_plans srt cs = Inr ps \<Longrightarrow> p \<in> set ps \<Longrightarrow> \<exists>i rs. (i, rs) \<in> set cs \<and> plan_chunk srt i rs = Some p"
proof (induction cs arbitrary: ps)
  case (Cons c cs)
  obtain i rs where c: "c = (i, rs)" by force
  then obtain q qs where "plan_chunk srt i rs = Some q" "make_plans srt cs = Inr qs" "ps = q # qs"
    using Cons.prems(1) by (auto split: option.splits sum.splits)
  then show ?case using Cons.IH [of qs] Cons.prems(2) c by auto
qed simp

lemma make_plans_error:
  "make_plans srt cs = Inl i \<Longrightarrow> \<exists>rs. (i, rs) \<in> set cs \<and> plan_chunk srt i rs = None"
  by (induction srt cs rule: make_plans.induct) (auto split: option.splits sum.splits)

lemma fst_query_hashes: "map fst (fst (query_hashes k net reg f locs w)) = locs"
  by (induction locs arbitrary: w) (simp_all add: Let_def split: prod.split, metis fst_conv)

section \<open>Properties\<close>

text \<open>C6. A download that succeeds announces every chunk of the file exactly once, in ascending order;
  the hash it announces for a chunk has at least as many votes among the replicas that answered as any
  other, and the server it names reported that hash and has no more load than any other that did.\<close>

theorem download_majority:
  assumes "std_sort_ok less_loaded srt"
    and "get_chunk_locations_from_metadata f st = (locs, file_hash)" "locs \<noteq> []"
    and "query_hashes k net reg f (concat (map snd (group_keys cl_id locs))) w = (results, w')"
    and "stream_file_to_client k net srt reg st f w = (True, out, w'')"
  shows "\<exists>plans.
    out = ''FILE_HASH '' @ file_hash @ [nl] @ ''CHUNKS '' @ show_int (int (length plans)) @ [nl]
      @ concat (map (loc_msg reg) plans) @ ''FILE_HASH '' @ file_hash @ [nl] @ ''EOF'' @ [nl] \<and>
    sorted (map fp_chunk plans) \<and> distinct (map fp_chunk plans) \<and> set (map fp_chunk plans) = cl_id ` set locs \<and>
    (\<forall>p \<in> set plans. \<exists>r. let rs = filter (\<lambda>(l, r). cl_id l = fp_chunk p) results in
       (\<forall>h. vote_count rs h \<le> vote_count rs (fp_hash p)) \<and> (fp_server p, r) \<in> set rs \<and> hr_ok r \<and>
       hr_hash r = fp_hash p \<and> (\<forall>l' r'. (l', r') \<in> set rs \<and> hr_ok r' \<and> hr_hash r' = fp_hash p \<longrightarrow>
         \<not> less_loaded (l', r') (fp_server p, r)))"
proof -
  let ?g = "group_keys (\<lambda>(l, r). cl_id l) results"
  obtain plans where plans: "make_plans srt ?g = Inr plans"
    and out: "out = ''FILE_HASH '' @ file_hash @ [nl] @ ''CHUNKS '' @ show_int (int (length (group_keys cl_id locs)))
      @ [nl] @ concat (map (loc_msg reg) plans) @ ''FILE_HASH '' @ file_hash @ [nl] @ ''EOF'' @ [nl]"
    using assms(2-5) by (auto simp: stream_file_to_client_def Let_def split: sum.splits)
  from make_plans_spec [OF plans]
  have all2: "list_all2 (\<lambda>(i, rs) p. plan_chunk srt i rs = Some p) ?g plans" .
  have "map fst results = concat (map snd (group_keys cl_id locs))"
    using fst_query_hashes [of k net reg f] assms(4) by (metis fst_conv)
  then have "fst ` set results = set locs"
    using set_group_keys [of cl_id locs] by (metis image_set set_concat set_map)
  then have "(\<lambda>(l, r). cl_id l) ` set results = cl_id ` set locs"
    by (metis (no_types, lifting) case_prod_unfold image_cong image_image)
  then have keys: "map fst ?g = map fst (group_keys cl_id locs)"
    by (intro omap_keys_unique) (simp_all add: dom_group_keys)
  have "map fp_chunk plans = map fst ?g"
    using all2 plan_chunk_spec [OF assms(1)] by (auto simp: list_all2_conv_all_nth case_prod_unfold intro!: nth_equalityI)
  moreover have "omap_wf ?g" by simp
  then have "sorted (map fst ?g)" "distinct (map fst ?g)" by (simp_all add: omap_wf_def strict_sorted_iff)
  moreover have "set (map fst ?g) = cl_id ` set locs" using keys dom_group_keys [of cl_id locs] by (metis list.set_map)
  moreover have "length (group_keys cl_id locs) = length plans"
    using keys list_all2_lengthD [OF all2] by (metis length_map)
  moreover have "\<exists>r. let rs = filter (\<lambda>(l, r). cl_id l = fp_chunk p) results in
       (\<forall>h. vote_count rs h \<le> vote_count rs (fp_hash p)) \<and> (fp_server p, r) \<in> set rs \<and> hr_ok r \<and>
       hr_hash r = fp_hash p \<and> (\<forall>l' r'. (l', r') \<in> set rs \<and> hr_ok r' \<and> hr_hash r' = fp_hash p \<longrightarrow>
         \<not> less_loaded (l', r') (fp_server p, r))" if pm: "p \<in> set plans" for p
  proof -
    obtain i rs where i: "(i, rs) \<in> set ?g" "plan_chunk srt i rs = Some p" using make_plans_member [OF plans pm] by blast
    note sp = plan_chunk_spec [OF assms(1) i(2)]
    have "rs = filter (\<lambda>x. (case x of (l, r) \<Rightarrow> cl_id l) = i) results" using i(1) unfolding group_keys_mem by (rule conjunct1)
    then have "rs = filter (\<lambda>(l, r). cl_id l = fp_chunk p) results" using sp by (simp add: case_prod_unfold)
    with sp show ?thesis unfolding Let_def by blast
  qed
  ultimately show ?thesis using out by (intro exI [of _ plans]) simp
qed

definition sample_hash :: hash_resp where
  "sample_hash = \<lparr>hr_ok = True, hr_id = [], hr_hash = ''h'', hr_error = [], hr_load = 0, hr_active = 0\<rparr>"

definition sample_net :: "unit net" where
  "sample_net ip port bs w = (Some (reply_frame (enc_hash_resp field_codec sample_hash)), w)"

lemma get_sample_hash: "get_chunk_hash field_codec sample_net reg loc f w = (sample_hash, w)"
proof -
  have s: "sendable (enc_hash_resp field_codec sample_hash)"
    by (simp add: sendable_def field_codec_def enc_fields_def enc_field_def str_bytes_def bool_bytes_def
        sample_hash_def int_bytes_def show_int_def show_nat.simps [of 0] show_nat.simps [of "Suc 0"])
  moreover have "dec_hash_resp field_codec (enc_hash_resp field_codec sample_hash) = Some sample_hash"
    using field_codec_ok by (simp add: codec_ok_def)
  ultimately have "parse_from_array (dec_hash_resp field_codec) (enc_hash_resp field_codec sample_hash) = Some sample_hash"
    by (simp add: parse_from_array_def)
  then show ?thesis
    using s by (simp add: get_chunk_hash_def transfer_request_def sample_net_def case_prod_unfold)
qed

definition sample_file :: mstore where
  "sample_file = \<lparr>files = [(''f'', \<lparr>fr_hash = ''x'', fr_replicas = 1, fr_chunks =
     [\<lparr>cr_id = 0, cr_server = ''a:1'', cr_path = ''/p'', cr_checksum = ''h'', cr_replicas = 1\<rparr>]\<rparr>)], disk = None, disk_ok = True\<rparr>"

lemma sample_file_locs:
  "get_chunk_locations_from_metadata ''f'' sample_file = ([\<lparr>cl_id = 0, cl_server = ''a:1'', cl_path = ''/p''\<rparr>], ''x'')"
  by (simp add: get_chunk_locations_from_metadata_def query_metadata_def get_chunks_def at_file_def sample_file_def
      in_int_def int_min_def int_max_def)

theorem download_majority_witness:
  "\<exists>plans. fst (snd (stream_file_to_client field_codec sample_net
      (sort_key (\<lambda>x. (hr_active (snd x), hr_load (snd x)))) new_registry sample_file ''f'' ())) =
    ''FILE_HASH '' @ ''x'' @ [nl] @ ''CHUNKS '' @ show_int (int (length plans)) @ [nl]
      @ concat (map (loc_msg new_registry) plans) @ ''FILE_HASH '' @ ''x'' @ [nl] @ ''EOF'' @ [nl] \<and>
    set (map fp_chunk plans) = {0}"
proof -
  let ?srt = "sort_key (\<lambda>x :: chunk_location \<times> hash_resp. (hr_active (snd x), hr_load (snd x)))"
  let ?loc = "\<lparr>cl_id = 0, cl_server = ''a:1'', cl_path = ''/p''\<rparr>"
  have g: "group_keys cl_id [?loc] = [(0, [?loc])]"
    by (simp add: group_keys_def omap_push_def)
  have q: "query_hashes field_codec sample_net new_registry ''f'' [?loc] () = ([(?loc, sample_hash)], ())"
    by (simp add: get_sample_hash)
  have srt: "std_sort_ok less_loaded ?srt"
    unfolding less_loaded_key by (rule std_sort_ok_sort_key)
  have run: "fst (stream_file_to_client field_codec sample_net ?srt new_registry sample_file ''f'' ())"
    by (simp add: stream_file_to_client_def sample_file_locs g get_sample_hash plan_chunk_def votes_def Let_def
        count_keys_def omap_incr_def group_keys_def omap_push_def sample_hash_def)
  note r = triple_True [OF run]
  have q': "query_hashes field_codec sample_net new_registry ''f'' (concat (map snd (group_keys cl_id [?loc]))) () =
      ([(?loc, sample_hash)], ())"
    unfolding g using q by simp
  have "[?loc] \<noteq> []" by simp
  note d = download_majority [OF srt sample_file_locs this q' r]
  have "cl_id ` set [?loc] = {0}" by simp
  then show ?thesis using d by blast
qed

text \<open>A client's delete request removes the file's metadata exactly when the file has chunks and every
  replica of every chunk acknowledged its deletion; in every other case, a file without chunks included,
  the client gets an error and the metadata is unchanged.\<close>

theorem client_delete:
  assumes "get_chunk_locations_from_metadata f st = (locs, file_hash)"
    and "handle_client_delete ctl f st w = (st', out, w')"
  shows "(out = ''SUCCESS'' @ [nl] \<longleftrightarrow> locs \<noteq> [] \<and> fst (delete_replicas ctl f locs w)) \<and>
    st' = (if out = ''SUCCESS'' @ [nl] then delete_entry f st else st)"
  using assms by (auto simp: handle_client_delete_def Let_def nl_def split: prod.splits if_splits)

theorem client_delete_witness:
  "fst (handle_client_delete (\<lambda>ip port msg w. (Some ''ERROR'', w)) ''f'' sample_file ()) = sample_file"
proof -
  have "\<not> contains ''SUCCESS'' ''ERROR''" by code_simp
  then have "\<not> fst (delete_replicas (\<lambda>ip port msg w. (Some ''ERROR'', w)) ''f''
      [\<lparr>cl_id = 0, cl_server = ''a:1'', cl_path = ''/p''\<rparr>] ())"
    by (simp add: delete_replica_def case_prod_unfold)
  then show ?thesis using client_delete [OF sample_file_locs triple_parts, of "\<lambda>ip port msg w. (Some ''ERROR'', w)" "()"] by simp
qed

end
