(* ===== verification/Zookeeper.thy ===== *)
theory Zookeeper
  imports Cxx_Prelude Transition_System
begin

text \<open>
  The in-process ZooKeeper substitute of \<^verbatim>\<open>src/common/src/zookeeper_client.cpp\<close>.  The static
  node map and the sequence counters are the record \<open>zk_store\<close>; a client is its connection flag
  and whether a watch callback is installed; watch events are returned by the operations.  The
  specification is a prefix-closed set of component lists: the main lemmas say that the flat map
  from path strings to nodes is always such a tree, with the child sets kept in step.
\<close>

record znode =
  zn_data :: string
  zn_ephemeral :: bool
  zn_version :: int
  zn_children :: "string list"

record zk_store =
  nodes :: "(string \<times> znode) list"
  counters :: "(string \<times> int) list"

record zk_client =
  zk_hosts :: string
  zk_connected :: bool
  zk_watch :: bool

datatype zk_code = ZOK | ZNODEEXISTS | ZNONODE | ZINVALIDSTATE

datatype zk_event = Created string | Deleted string | Changed string | Session_up string | Session_down string

definition empty_znode :: znode where
  "empty_znode = \<lparr>zn_data = [], zn_ephemeral = False, zn_version = 0, zn_children = []\<rparr>"

definition zk_init :: zk_store where
  "zk_init = \<lparr>nodes = [(''/'', empty_znode)], counters = []\<rparr>"

definition new_client :: "string \<Rightarrow> zk_client" where
  "new_client hosts = \<lparr>zk_hosts = hosts, zk_connected = False, zk_watch = False\<rparr>"

definition zk_watch_events :: "zk_client \<Rightarrow> zk_event \<Rightarrow> zk_event list" where
  "zk_watch_events c e = (if zk_watch c then [e] else [])"

definition zk_connect :: "zk_client \<Rightarrow> zk_client \<times> bool \<times> zk_event list" where
  "zk_connect c = (if zk_connected c then (c, True, [])
     else (c\<lparr>zk_connected := True\<rparr>, True, zk_watch_events c (Session_up (zk_hosts c))))"

definition zk_disconnect :: "zk_client \<Rightarrow> zk_client \<times> zk_event list" where
  "zk_disconnect c = (if \<not> zk_connected c then (c, [])
     else (c\<lparr>zk_connected := False\<rparr>, zk_watch_events c (Session_down (zk_hosts c))))"

definition zk_state :: "zk_client \<Rightarrow> int" where
  "zk_state c = (if zk_connected c then 3 else 1)"

definition set_watch_callback :: "bool \<Rightarrow> zk_client \<Rightarrow> zk_client" where
  "set_watch_callback cb c = c\<lparr>zk_watch := cb\<rparr>"

section \<open>Paths\<close>

text \<open>\<^verbatim>\<open>while (path.size() > 1 && path.back() == '/') path.pop_back();\<close>\<close>

function strip_slashes :: "string \<Rightarrow> string" where
  "strip_slashes p = (if length p > 1 \<and> last p = CHR ''/'' then strip_slashes (butlast p) else p)"
  by pat_completeness auto
termination
  by (relation "measure length") auto

declare strip_slashes.simps [simp del]

definition normalize_path :: "string \<Rightarrow> string" where
  "normalize_path raw =
     (if raw = [] then ''/''
      else strip_slashes (if hd raw \<noteq> CHR ''/'' then CHR ''/'' # raw else raw))"

definition parent_path :: "string \<Rightarrow> string" where
  "parent_path path =
     (if path = ''/'' then []
      else case find_last_char (CHR ''/'') path of
        Some pos \<Rightarrow> if pos = 0 then ''/'' else take pos path
      | None \<Rightarrow> path)"

definition child_name :: "string \<Rightarrow> string" where
  "child_name path =
     (if path = ''/'' then ''/''
      else case find_last_char (CHR ''/'') path of Some pos \<Rightarrow> drop (pos + 1) path | None \<Rightarrow> path)"

definition ensure_parent_exists :: "string \<Rightarrow> zk_store \<Rightarrow> bool" where
  "ensure_parent_exists parent st \<longleftrightarrow> parent = [] \<or> map_of (nodes st) parent \<noteq> None"

section \<open>Operations\<close>

text \<open>\<^verbatim>\<open>std::setw(10) << std::setfill('0') << seq\<close>.\<close>

definition pad10 :: "int \<Rightarrow> string" where
  "pad10 seq = replicate (10 - length (show_int seq)) (CHR ''0'') @ show_int seq"

text \<open>The path a create call uses, and the counters after it.\<close>

definition actual_path :: "bool \<Rightarrow> string \<Rightarrow> zk_store \<Rightarrow> string \<times> zk_store" where
  "actual_path sequential normalized st =
     (if sequential
      then (let seq = (case map_of (counters st) normalized of None \<Rightarrow> 0 | Some n \<Rightarrow> n) + 1
            in (normalized @ ''_'' @ pad10 seq,
                st\<lparr>counters := AList.update normalized seq (counters st)\<rparr>))
      else (normalized, st))"

definition add_child :: "string \<Rightarrow> string \<Rightarrow> (string \<times> znode) list \<Rightarrow> (string \<times> znode) list" where
  "add_child parent name ns =
     (let n = (case map_of ns parent of None \<Rightarrow> empty_znode | Some n \<Rightarrow> n)
      in AList.update parent (n\<lparr>zn_children := insort_insert name (zn_children n)\<rparr>) ns)"

definition drop_child :: "string \<Rightarrow> string \<Rightarrow> (string \<times> znode) list \<Rightarrow> (string \<times> znode) list" where
  "drop_child parent name ns =
     (let n = (case map_of ns parent of None \<Rightarrow> empty_znode | Some n \<Rightarrow> n)
      in AList.update parent (n\<lparr>zn_children := remove1 name (zn_children n)\<rparr>) ns)"

text \<open>The two updates of the node map: store the node and enter it in its parent's child set, and
  the reverse.\<close>

definition link_node :: "string \<Rightarrow> znode \<Rightarrow> (string \<times> znode) list \<Rightarrow> (string \<times> znode) list" where
  "link_node actual n ns =
     (let parent = parent_path actual; ns' = AList.update actual n ns
      in if parent \<noteq> [] then add_child parent (child_name actual) ns' else ns')"

definition unlink_node :: "string \<Rightarrow> (string \<times> znode) list \<Rightarrow> (string \<times> znode) list" where
  "unlink_node p ns =
     (let parent = parent_path p;
          ns' = (if parent \<noteq> [] then drop_child parent (child_name p) ns else ns)
      in AList.delete p ns')"

definition create_node ::
  "zk_client \<Rightarrow> string \<Rightarrow> string \<Rightarrow> bool \<Rightarrow> bool \<Rightarrow> zk_store \<Rightarrow> zk_store \<times> zk_code \<times> zk_event list" where
  "create_node c path data ephemeral sequential st =
     (if \<not> zk_connected c then (st, ZINVALIDSTATE, [])
      else
        (let (actual, st1) = actual_path sequential (normalize_path path) st;
             parent = parent_path actual
         in if map_of (nodes st1) actual \<noteq> None then (st1, ZNODEEXISTS, [])
            else if parent \<noteq> [] \<and> \<not> ensure_parent_exists parent st1 then (st1, ZNONODE, [])
            else (st1\<lparr>nodes := link_node actual (empty_znode\<lparr>zn_data := data, zn_ephemeral := ephemeral\<rparr>)
                              (nodes st1)\<rparr>,
                  ZOK, zk_watch_events c (Created actual))))"

definition delete_node :: "zk_client \<Rightarrow> string \<Rightarrow> zk_store \<Rightarrow> zk_store \<times> zk_code \<times> zk_event list" where
  "delete_node c path st =
     (if \<not> zk_connected c then (st, ZINVALIDSTATE, [])
      else
        (let p = normalize_path path in
         case map_of (nodes st) p of
           None \<Rightarrow> (st, ZNONODE, [])
         | Some n \<Rightarrow>
             if zn_children n \<noteq> [] then (st, ZINVALIDSTATE, [])
             else (st\<lparr>nodes := unlink_node p (nodes st)\<rparr>, ZOK, zk_watch_events c (Deleted p))))"

definition node_exists :: "string \<Rightarrow> zk_store \<Rightarrow> bool" where
  "node_exists path st \<longleftrightarrow> map_of (nodes st) (normalize_path path) \<noteq> None"

definition get_node_data :: "string \<Rightarrow> zk_store \<Rightarrow> string" where
  "get_node_data path st =
     (case map_of (nodes st) (normalize_path path) of None \<Rightarrow> [] | Some n \<Rightarrow> zn_data n)"

definition set_node_data :: "zk_client \<Rightarrow> string \<Rightarrow> string \<Rightarrow> zk_store \<Rightarrow> zk_store \<times> zk_code \<times> zk_event list" where
  "set_node_data c path data st =
     (if \<not> zk_connected c then (st, ZINVALIDSTATE, [])
      else
        (let p = normalize_path path in
         case map_of (nodes st) p of
           None \<Rightarrow> (st, ZNONODE, [])
         | Some n \<Rightarrow>
             (st\<lparr>nodes := AList.update p (n\<lparr>zn_data := data, zn_version := zn_version n + 1\<rparr>) (nodes st)\<rparr>,
              ZOK, zk_watch_events c (Changed p))))"

definition get_children :: "string \<Rightarrow> zk_store \<Rightarrow> string list" where
  "get_children path st =
     (case map_of (nodes st) (normalize_path path) of None \<Rightarrow> [] | Some n \<Rightarrow> zn_children n)"

section \<open>Component lists\<close>

definition comp_ok :: "string \<Rightarrow> bool" where
  "comp_ok c \<longleftrightarrow> c \<noteq> [] \<and> CHR ''/'' \<notin> set c"

definition path_of :: "string list \<Rightarrow> string" where
  "path_of cs = (if cs = [] then ''/'' else concat (map (\<lambda>c. CHR ''/'' # c) cs))"

definition comps_ok :: "string list \<Rightarrow> bool" where
  "comps_ok cs \<longleftrightarrow> (\<forall>c \<in> set cs. comp_ok c)"

lemma comps_ok_simps [simp]: "comps_ok []" "comps_ok (cs @ [c]) \<longleftrightarrow> comps_ok cs \<and> comp_ok c"
  by (auto simp: comps_ok_def)

lemma not_comp_ok_Nil [simp]: "\<not> comp_ok []"
  by (simp add: comp_ok_def)

lemma path_of_Nil [simp]: "path_of [] = ''/''"
  by (simp add: path_of_def)

lemma path_of_snoc:
  "path_of (cs @ [c]) = (if cs = [] then [] else path_of cs) @ CHR ''/'' # c"
  by (simp add: path_of_def)

lemma path_of_nonempty [simp]: "path_of cs \<noteq> []"
  by (cases cs) (simp_all add: path_of_def)

lemma path_of_snoc_not_root [simp]: "comp_ok c \<Longrightarrow> path_of (cs @ [c]) \<noteq> ''/''"
  by (cases cs) (auto simp: path_of_def comp_ok_def)

lemma find_last_path_of:
  "comp_ok c \<Longrightarrow> find_last_char (CHR ''/'') (path_of (cs @ [c])) = Some (if cs = [] then 0 else length (path_of cs))"
  using find_last_char_append [of "CHR ''/''" c "if cs = [] then [] else path_of cs"]
  by (simp add: path_of_snoc comp_ok_def)

lemma parent_path_of [simp]: "comp_ok c \<Longrightarrow> parent_path (path_of (cs @ [c])) = path_of cs"
  using find_last_path_of [of c cs] by (auto simp: parent_path_def path_of_snoc)

lemma child_name_of [simp]: "comp_ok c \<Longrightarrow> child_name (path_of (cs @ [c])) = c"
  using find_last_path_of [of c cs] by (auto simp: child_name_def path_of_snoc)

lemma parent_path_root [simp]: "parent_path ''/'' = []"
  by (simp add: parent_path_def)

lemma path_of_inj: "comps_ok cs \<Longrightarrow> comps_ok ds \<Longrightarrow> path_of cs = path_of ds \<Longrightarrow> cs = ds"
proof (induction cs arbitrary: ds rule: rev_induct)
  case Nil
  then show ?case by (metis comps_ok_simps(2) path_of_Nil path_of_snoc_not_root rev_exhaust)
next
  case (snoc c cs)
  show ?case
  proof (cases ds rule: rev_cases)
    case Nil
    then show ?thesis using snoc.prems path_of_snoc_not_root [of c cs] by simp
  next
    case (snoc ds' d)
    then have "comp_ok c" "comp_ok d" "comps_ok cs" "comps_ok ds'" and eq: "path_of (cs @ [c]) = path_of (ds' @ [d])"
      using snoc.prems \<open>comps_ok (cs @ [c])\<close> by auto
    then have "path_of cs = path_of ds'" "c = d"
      using parent_path_of child_name_of by metis+
    then show ?thesis using \<open>ds = ds' @ [d]\<close> snoc.IH \<open>comps_ok cs\<close> \<open>comps_ok ds'\<close> by blast
  qed
qed

lemma strip_slashes_id: "length p \<le> 1 \<or> last p \<noteq> CHR ''/'' \<Longrightarrow> strip_slashes p = p"
  by (subst strip_slashes.simps) auto

lemma last_path_of: "comp_ok c \<Longrightarrow> last (path_of (cs @ [c])) \<noteq> CHR ''/''"
  by (auto simp: path_of_snoc comp_ok_def) (metis last_in_set)

lemma normalize_path_of [simp]: "comps_ok cs \<Longrightarrow> normalize_path (path_of cs) = path_of cs"
proof (cases cs rule: rev_cases)
  case Nil
  then show ?thesis by (simp add: normalize_path_def strip_slashes_id)
next
  case (snoc ds d)
  assume "comps_ok cs"
  then have "comp_ok d" using snoc by simp
  moreover have "hd (path_of cs) = CHR ''/''" by (cases cs) (simp_all add: path_of_def)
  ultimately show ?thesis
    using snoc last_path_of [of d ds] by (simp add: normalize_path_def strip_slashes_id)
qed

section \<open>The tree\<close>

type_synonym ztree = "string list \<rightharpoonup> znode"

definition nabs :: "(string \<times> znode) list \<Rightarrow> ztree" where
  "nabs ns = (\<lambda>cs. if comps_ok cs then map_of ns (path_of cs) else None)"

definition tree_inv :: "ztree \<Rightarrow> bool" where
  "tree_inv A \<longleftrightarrow> (\<forall>cs c. A (cs @ [c]) \<noteq> None \<longrightarrow> A cs \<noteq> None) \<and>
     (\<forall>cs n. A cs = Some n \<longrightarrow> sorted (zn_children n) \<and> distinct (zn_children n) \<and>
        set (zn_children n) = {c. A (cs @ [c]) \<noteq> None})"

definition zk_inv :: "zk_store \<Rightarrow> bool" where
  "zk_inv st \<longleftrightarrow> umap_wf (nodes st) \<and>
     (\<forall>p. map_of (nodes st) p \<noteq> None \<longrightarrow> (\<exists>cs. comps_ok cs \<and> p = path_of cs)) \<and>
     tree_inv (nabs (nodes st))"

lemma nabs_update: "comps_ok cs \<Longrightarrow> nabs (AList.update (path_of cs) v ns) = (nabs ns)(cs \<mapsto> v)"
  by (rule ext) (auto simp: nabs_def update_conv' dest: path_of_inj)

lemma nabs_delete: "comps_ok cs \<Longrightarrow> nabs (AList.delete (path_of cs) ns) = (nabs ns)(cs := None)"
  by (rule ext) (auto simp: nabs_def delete_conv' dest: path_of_inj)

lemma tree_inv_up: "tree_inv A \<Longrightarrow> A (cs @ ds) \<noteq> None \<Longrightarrow> A cs \<noteq> None"
proof (induction ds rule: rev_induct)
  case (snoc d ds)
  then show ?case unfolding tree_inv_def by (metis append.assoc)
qed simp

lemma tree_inv_children:
  "tree_inv A \<Longrightarrow> A cs = Some n \<Longrightarrow> c \<in> set (zn_children n) \<longleftrightarrow> A (cs @ [c]) \<noteq> None"
  by (auto simp: tree_inv_def)

lemma tree_inv_add:
  assumes inv: "tree_inv A" and p: "A cs = Some n" and fresh: "A (cs @ [c]) = None"
    and leaf: "zn_children v = []"
  shows "tree_inv (A(cs @ [c] \<mapsto> v, cs \<mapsto> n\<lparr>zn_children := insort_insert c (zn_children n)\<rparr>))"
proof -
  let ?B = "A(cs @ [c] \<mapsto> v, cs \<mapsto> n\<lparr>zn_children := insort_insert c (zn_children n)\<rparr>)"
  have dom: "?B ds \<noteq> None \<longleftrightarrow> A ds \<noteq> None \<or> ds = cs @ [c]" for ds
    using p by auto
  have no_sub: "A (cs @ [c, d]) = None" for d
    using tree_inv_up [OF inv, of "cs @ [c]" "[d]"] fresh by (cases "A (cs @ [c, d])") auto
  have n: "sorted (zn_children n)" "distinct (zn_children n)" "set (zn_children n) = {c. A (cs @ [c]) \<noteq> None}"
    using inv p by (auto simp: tree_inv_def)
  have "c \<notin> set (zn_children n)" using n(3) fresh by simp
  then have ins: "insort_insert c (zn_children n) = insort c (zn_children n)"
    by (simp add: insort_insert_key_def)
  have ch: "sorted (zn_children m) \<and> distinct (zn_children m) \<and> set (zn_children m) = {d. ?B (ds @ [d]) \<noteq> None}"
    if m: "?B ds = Some m" for ds m
  proof -
    consider "ds = cs" | "ds = cs @ [c]" | "ds \<noteq> cs" "ds \<noteq> cs @ [c]" by blast
    then show ?thesis
    proof cases
      case 1
      then show ?thesis
        using m n \<open>c \<notin> _\<close> unfolding dom
        by (auto simp: ins set_insort_key sorted_insort distinct_insort)
    next
      case 2
      then show ?thesis using m leaf no_sub unfolding dom by auto
    next
      case 3
      then have "A ds = Some m" using m by simp
      then show ?thesis using inv 3 unfolding dom by (auto simp: tree_inv_def)
    qed
  qed
  have up: "?B ds \<noteq> None" if "?B (ds @ [d]) \<noteq> None" for ds d
    using that p tree_inv_up [OF inv, of ds "[d]"] unfolding dom by (metis option.simps(3) append1_eq_conv)
  show ?thesis using ch up unfolding tree_inv_def by blast
qed

lemma tree_inv_del:
  assumes inv: "tree_inv A" and p: "A cs = Some n" and leaf: "A (cs @ [c]) = Some v" "zn_children v = []"
  shows "tree_inv (A(cs \<mapsto> n\<lparr>zn_children := remove1 c (zn_children n)\<rparr>, cs @ [c] := None))"
proof -
  let ?B = "A(cs \<mapsto> n\<lparr>zn_children := remove1 c (zn_children n)\<rparr>, cs @ [c] := None)"
  have dom: "?B ds \<noteq> None \<longleftrightarrow> A ds \<noteq> None \<and> ds \<noteq> cs @ [c]" for ds
    using p by auto
  have no_sub: "A (cs @ [c, d]) = None" for d
    using tree_inv_children [OF inv leaf(1), of d] leaf(2) by simp
  have n: "sorted (zn_children n)" "distinct (zn_children n)" "set (zn_children n) = {c. A (cs @ [c]) \<noteq> None}"
    using inv p by (auto simp: tree_inv_def)
  have ch: "sorted (zn_children m) \<and> distinct (zn_children m) \<and> set (zn_children m) = {d. ?B (ds @ [d]) \<noteq> None}"
    if m: "?B ds = Some m" for ds m
  proof (cases "ds = cs")
    case True
    then show ?thesis
      using m n unfolding dom by (auto simp: set_remove1_eq sorted_remove1 distinct_remove1)
  next
    case False
    then have "A ds = Some m" using m by (auto split: if_splits)
    then show ?thesis using inv False unfolding dom by (auto simp: tree_inv_def)
  qed
  have up: "?B ds \<noteq> None" if "?B (ds @ [d]) \<noteq> None" for ds d
  proof -
    have A: "A (ds @ [d]) \<noteq> None" using that unfolding dom by blast
    then have "A ds \<noteq> None" using tree_inv_up [OF inv] by blast
    moreover have "ds \<noteq> cs @ [c]" using A no_sub by auto
    ultimately show ?thesis unfolding dom by blast
  qed
  show ?thesis using ch up unfolding tree_inv_def by blast
qed

lemma tree_inv_root_absent: "tree_inv A \<Longrightarrow> A [] = None \<Longrightarrow> A = Map.empty"
  using tree_inv_up [of A "[]"] by fastforce

definition nodes_inv :: "(string \<times> znode) list \<Rightarrow> bool" where
  "nodes_inv ns \<longleftrightarrow> umap_wf ns \<and>
     (\<forall>p. map_of ns p \<noteq> None \<longrightarrow> (\<exists>cs. comps_ok cs \<and> p = path_of cs)) \<and> tree_inv (nabs ns)"

lemma zk_inv_nodes: "zk_inv st \<longleftrightarrow> nodes_inv (nodes st)"
  by (simp add: zk_inv_def nodes_inv_def)

lemma nodes_inv_init: "zk_inv zk_init"
proof -
  have "nabs [(''/'', empty_znode)] = [[] \<mapsto> empty_znode]"
    by (rule ext) (auto simp: nabs_def dest!: path_of_inj [of _ "[]", simplified])
  then show ?thesis
    by (auto simp: zk_inv_def zk_init_def umap_wf_def tree_inv_def empty_znode_def
        intro: exI [of _ "[]"])
qed

lemma nabs_Some: "comps_ok cs \<Longrightarrow> map_of ns (path_of cs) = Some n \<Longrightarrow> nabs ns cs = Some n"
  by (simp add: nabs_def)

lemma link_node_inv:
  assumes inv: "nodes_inv ns" and cs: "comps_ok cs" and fresh: "map_of ns (path_of cs) = None"
    and par: "parent_path (path_of cs) \<noteq> [] \<Longrightarrow> map_of ns (parent_path (path_of cs)) \<noteq> None"
    and leaf: "zn_children v = []"
  shows "nodes_inv (link_node (path_of cs) v ns)"
proof (cases cs rule: rev_cases)
  case Nil
  have "nabs ns = Map.empty"
    using inv fresh Nil by (intro tree_inv_root_absent) (auto simp: nodes_inv_def nabs_def)
  then have "nabs (link_node (path_of cs) v ns) = [[] \<mapsto> v]"
    using Nil nabs_update [of "[]" v ns] by (simp add: link_node_def)
  moreover have "tree_inv [[] \<mapsto> v]" using leaf by (auto simp: tree_inv_def)
  moreover have "umap_wf (link_node (path_of cs) v ns)"
    using inv Nil by (simp add: link_node_def nodes_inv_def umap.wf_upd)
  ultimately show ?thesis
    using inv Nil unfolding nodes_inv_def
    by (auto simp: link_node_def update_conv' intro: exI [of _ "[]"])
next
  case (snoc ds d)
  have d: "comp_ok d" "comps_ok ds" using cs snoc by auto
  obtain n where n: "map_of ns (path_of ds) = Some n" using par d snoc by auto
  have "ds @ [d] \<noteq> ds" by simp
  then have pn: "path_of ds \<noteq> path_of (ds @ [d])" using path_of_inj [of ds "ds @ [d]"] d by auto
  define ns' where "ns' = link_node (path_of cs) v ns"
  have ns': "ns' = AList.update (path_of ds) (n\<lparr>zn_children := insort_insert d (zn_children n)\<rparr>)
      (AList.update (path_of (ds @ [d])) v ns)"
    using n d pn by (simp add: ns'_def snoc link_node_def add_child_def update_conv')
  then have "nabs ns' = (nabs ns)(ds @ [d] \<mapsto> v, ds \<mapsto> n\<lparr>zn_children := insort_insert d (zn_children n)\<rparr>)"
    using d by (simp add: nabs_update)
  moreover have "tree_inv \<dots>"
    using inv nabs_Some [OF d(2) n] fresh cs leaf
    by (intro tree_inv_add) (auto simp: nodes_inv_def nabs_def snoc)
  moreover have "umap_wf ns'" using inv unfolding ns' by (intro umap.wf_upd) (simp add: nodes_inv_def)
  moreover have "\<exists>cs. comps_ok cs \<and> p = path_of cs" if "map_of ns' p \<noteq> None" for p
  proof -
    from that consider "p = path_of ds" | "p = path_of (ds @ [d])" | "map_of ns p \<noteq> None"
      unfolding ns' by (fastforce simp: update_conv' split: if_splits)
    then show ?thesis using inv d unfolding nodes_inv_def by cases (metis comps_ok_simps(2))+
  qed
  ultimately show ?thesis unfolding nodes_inv_def ns'_def by simp
qed

lemma unlink_node_inv:
  assumes inv: "nodes_inv ns" and cs: "comps_ok cs" and v: "map_of ns (path_of cs) = Some v"
    and leaf: "zn_children v = []"
  shows "nodes_inv (unlink_node (path_of cs) ns)"
proof (cases cs rule: rev_cases)
  case Nil
  have t: "tree_inv (nabs ns)" using inv by (simp add: nodes_inv_def)
  have one: "nabs ns [c] = None" for c
    using tree_inv_children [OF t nabs_Some [OF cs v], of c] leaf Nil by simp
  have "nabs ns ds = None" if "ds \<noteq> []" for ds
    using tree_inv_up [OF t, of "[hd ds]" "tl ds"] one [of "hd ds"] that by (cases "nabs ns ds") auto
  then have "(nabs ns)([] := None) = Map.empty" by auto
  then have "tree_inv ((nabs ns)([] := None))" by (simp add: tree_inv_def)
  then have "tree_inv (nabs (unlink_node (path_of cs) ns))"
    using Nil nabs_delete [of "[]" ns] by (simp add: unlink_node_def)
  then show ?thesis
    using inv Nil unfolding nodes_inv_def
    by (auto simp: unlink_node_def delete_conv' intro: umap.wf_del)
next
  case (snoc ds d)
  have d: "comp_ok d" "comps_ok ds" using cs snoc by auto
  have t: "tree_inv (nabs ns)" using inv by (simp add: nodes_inv_def)
  have "nabs ns (ds @ [d]) \<noteq> None" using nabs_Some [OF cs v] snoc by simp
  then have "nabs ns ds \<noteq> None" by (rule tree_inv_up [OF t])
  then obtain n where n: "map_of ns (path_of ds) = Some n" by (auto simp: nabs_def split: if_splits)
  define ns' where "ns' = unlink_node (path_of cs) ns"
  have ns': "ns' = AList.delete (path_of (ds @ [d]))
      (AList.update (path_of ds) (n\<lparr>zn_children := remove1 d (zn_children n)\<rparr>) ns)"
    using n d by (simp add: ns'_def snoc unlink_node_def drop_child_def)
  then have "nabs ns' = (nabs ns)(ds \<mapsto> n\<lparr>zn_children := remove1 d (zn_children n)\<rparr>, ds @ [d] := None)"
    using d by (simp add: nabs_update nabs_delete)
  moreover have "tree_inv \<dots>"
    using t nabs_Some [OF d(2) n] nabs_Some [OF cs v] leaf snoc by (intro tree_inv_del) auto
  moreover have "umap_wf ns'" using inv unfolding ns'
    by (intro umap.wf_del umap.wf_upd) (simp add: nodes_inv_def)
  moreover have "\<exists>cs. comps_ok cs \<and> p = path_of cs" if "map_of ns' p \<noteq> None" for p
  proof -
    from that consider "p = path_of ds" | "map_of ns p \<noteq> None"
      unfolding ns' by (fastforce simp: update_conv' delete_conv' split: if_splits)
    then show ?thesis using inv d unfolding nodes_inv_def by cases metis+
  qed
  ultimately show ?thesis unfolding nodes_inv_def ns'_def by simp
qed

lemma unlink_node_dom:
  assumes "tree_inv (nabs ns)" "comps_ok cs" "map_of ns (path_of cs) \<noteq> None" "comps_ok ds"
  shows "map_of (unlink_node (path_of cs) ns) (path_of ds) \<noteq> None \<longleftrightarrow>
    map_of ns (path_of ds) \<noteq> None \<and> ds \<noteq> cs"
proof (cases cs rule: rev_cases)
  case Nil
  then show ?thesis
    using assms(4) path_of_inj [of ds "[]"] by (auto simp: unlink_node_def delete_conv')
next
  case (snoc es e)
  have e: "comp_ok e" "comps_ok es" using assms(2) snoc by auto
  have "nabs ns es \<noteq> None"
    using tree_inv_up [OF assms(1), of es "[e]"] assms(2,3) snoc by (simp add: nabs_def)
  then have "map_of ns (path_of es) \<noteq> None" by (simp add: nabs_def split: if_splits)
  then show ?thesis
    using e assms(2,4) snoc path_of_inj [of ds cs]
    by (auto simp: unlink_node_def drop_child_def Let_def delete_conv' update_conv')
qed

text \<open>The data and the existence of the other nodes under a creation and a write.\<close>

lemma create_node_get:
  assumes "normalize_path q \<noteq> normalize_path p \<or> d = []"
  shows "get_node_data q (fst (create_node c p d e False st)) = get_node_data q st"
  using assms
  by (auto simp: create_node_def get_node_data_def actual_path_def link_node_def add_child_def Let_def update_conv'
      empty_znode_def split: option.splits)

lemma create_node_exists: "node_exists q st \<Longrightarrow> node_exists q (fst (create_node c p d e False st))"
  by (auto simp: create_node_def node_exists_def actual_path_def link_node_def add_child_def Let_def update_conv'
      split: option.splits)

lemma set_node_data_get:
  "normalize_path q \<noteq> normalize_path p \<Longrightarrow> get_node_data q (fst (set_node_data c p d st)) = get_node_data q st"
  by (auto simp: set_node_data_def get_node_data_def Let_def update_conv' split: option.splits)

lemma set_node_data_exists: "node_exists q st \<Longrightarrow> node_exists q (fst (set_node_data c p d st))"
  by (auto simp: set_node_data_def node_exists_def Let_def update_conv' split: option.splits)

lemma create_node_creates:
  assumes "zk_connected c" "node_exists (path_of cs) st" "comps_ok (cs @ [x])"
  shows "node_exists (path_of (cs @ [x])) (fst (create_node c (path_of (cs @ [x])) d e False st))"
    and "\<not> node_exists (path_of (cs @ [x])) st \<Longrightarrow>
      get_node_data (path_of (cs @ [x])) (fst (create_node c (path_of (cs @ [x])) d e False st)) = d"
proof -
  have ok: "comps_ok cs" "comp_ok x"
    using assms(3) by simp_all
  have n: "map_of (nodes st) (path_of cs) \<noteq> None"
    using assms(2) ok by (simp add: node_exists_def del: not_None_eq)
  have ne: "path_of cs \<noteq> path_of (cs @ [x])"
    using path_of_inj [OF ok(1) assms(3)] by auto
  show "node_exists (path_of (cs @ [x])) (fst (create_node c (path_of (cs @ [x])) d e False st))"
    using assms(1,3) n ne ok(2)
    by (auto simp: create_node_def Let_def actual_path_def ensure_parent_exists_def node_exists_def link_node_def add_child_def
        update_conv')
  show "get_node_data (path_of (cs @ [x])) (fst (create_node c (path_of (cs @ [x])) d e False st)) = d"
    if "\<not> node_exists (path_of (cs @ [x])) st"
    using assms(1,3) n ne ok(2) that
    by (auto simp: create_node_def Let_def actual_path_def ensure_parent_exists_def node_exists_def get_node_data_def
        link_node_def add_child_def update_conv' empty_znode_def)
qed

lemma orphan_create:
  assumes "comps_ok (cs @ [c])" "map_of (nodes st) (path_of cs) = None"
  shows "fst (create_node zk (path_of (cs @ [c])) data eph False st) = st"
  using assms by (simp add: create_node_def actual_path_def ensure_parent_exists_def Let_def)

lemma set_node_data_same:
  "zk_connected c \<Longrightarrow> node_exists p st \<Longrightarrow> get_node_data p (fst (set_node_data c p d st)) = d"
  by (auto simp: set_node_data_def get_node_data_def node_exists_def Let_def update_conv')

section \<open>Every reachable store is a tree\<close>

text \<open>A path is good when it normalises to a list of non-empty components, as every path without a doubled slash does.
  The servers pass only such paths; the HTTP interface of the monitor passes on what it is sent.\<close>

definition good_path :: "string \<Rightarrow> bool" where
  "good_path raw \<longleftrightarrow> (\<exists>cs. comps_ok cs \<and> normalize_path raw = path_of cs)"

lemma components:
  "s \<noteq> [] \<Longrightarrow> hd s = CHR ''/'' \<Longrightarrow> last s \<noteq> CHR ''/'' \<Longrightarrow> \<not> contains ''//'' s \<Longrightarrow> \<exists>cs. cs \<noteq> [] \<and> comps_ok cs \<and> s = path_of cs"
proof (induction s rule: length_induct)
  case (1 s)
  obtain r where s: "s = CHR ''/'' # r" using 1(2,3) by (cases s) auto
  have r: "r \<noteq> []" "hd r \<noteq> CHR ''/''"
    using 1(4,5) contains_prefix [of "''//''" "tl r"] by (auto simp: s) (cases r, auto)
  let ?c = "takeWhile (\<lambda>x. x \<noteq> CHR ''/'') r" and ?r = "dropWhile (\<lambda>x. x \<noteq> CHR ''/'') r"
  have c: "comp_ok ?c" using r by (cases r) (auto simp: comp_ok_def dest: set_takeWhileD)
  have split: "s = (CHR ''/'' # ?c) @ ?r" by (simp add: s)
  show ?case
  proof (cases "?r = []")
    case True
    from split [unfolded True] have "s = path_of [?c]" by (simp add: path_of_def)
    then show ?thesis using c by (intro exI [of _ "[?c]"]) (simp add: comps_ok_def)
  next
    case False
    have "\<not> contains ''//'' ?r" using 1(5) contains_append split by metis
    moreover have "length ?r < length s" using length_dropWhile_le [of "\<lambda>x. x \<noteq> CHR ''/''" r] by (simp add: s)
    moreover have "last ?r \<noteq> CHR ''/''" using 1(4) last_appendR [OF False, of "CHR ''/'' # ?c"] unfolding split [symmetric] by simp
    moreover have "hd ?r = CHR ''/''" using hd_dropWhile [OF False] by simp
    ultimately obtain cs where "cs \<noteq> []" "comps_ok cs" "?r = path_of cs" using 1(1) False by blast
    then have "s = path_of (?c # cs)" "comps_ok (?c # cs)" using split c by (simp_all add: path_of_def comps_ok_def)
    then show ?thesis by blast
  qed
qed

lemma strip_plain:
  assumes "p \<noteq> []" "hd p = CHR ''/''" "\<not> contains ''//'' p"
  shows "\<exists>cs. comps_ok cs \<and> strip_slashes p = path_of cs"
proof (cases "length p \<le> 1 \<or> last p \<noteq> CHR ''/''")
  case True
  then have id: "strip_slashes p = p" by (rule strip_slashes_id)
  show ?thesis
  proof (cases "last p = CHR ''/''")
    case last: True
    then have "p = ''/''" using True assms(1,2) by (cases p) auto
    then show ?thesis unfolding id by (intro exI [of _ "[]"]) simp
  next
    case False
    then show ?thesis unfolding id using components [OF assms(1,2) _ assms(3)] by blast
  qed
next
  case False
  define q where "q = butlast p"
  have q: "p = q @ ''/''" using False append_butlast_last_id [OF assms(1)] by (simp add: q_def)
  have ne: "q \<noteq> []" using False unfolding q by auto
  have "last q \<noteq> CHR ''/''"
  proof
    assume "last q = CHR ''/''"
    then have "p = butlast q @ ''//'' @ []" using append_butlast_last_id [OF ne] by (simp add: q)
    then show False using assms(3) contains_iff by blast
  qed
  moreover have "\<not> contains ''//'' q"
    using assms(3) unfolding q contains_iff by (metis append.assoc)
  moreover have "hd q = CHR ''/''" using assms(2) ne by (simp add: q)
  moreover have "strip_slashes p = strip_slashes q" using False by (subst strip_slashes.simps) (simp add: q_def)
  ultimately show ?thesis using components [OF ne] strip_slashes_id [of q] by metis
qed

lemma good_path_plain:
  assumes "\<not> contains ''//'' raw"
  shows "good_path raw"
proof (cases "raw = [] \<or> hd raw = CHR ''/''")
  case True
  then show ?thesis
  proof (cases "raw = []")
    case True
    then show ?thesis unfolding good_path_def by (intro exI [of _ "[]"]) (simp add: normalize_path_def)
  next
    case False
    then show ?thesis
      using strip_plain [of raw] assms \<open>raw = [] \<or> hd raw = CHR ''/''\<close> by (auto simp: good_path_def normalize_path_def)
  qed
next
  case False
  then have "\<not> contains ''//'' (CHR ''/'' # raw)"
    using assms by (cases raw) (auto simp: contains_def starts_with_def)
  then show ?thesis
    using strip_plain [of "CHR ''/'' # raw"] False by (auto simp: good_path_def normalize_path_def)
qed

inductive zk_step :: "zk_store \<Rightarrow> zk_store \<Rightarrow> bool" where
  zk_create: "good_path p \<Longrightarrow> zk_step st (fst (create_node c p data eph sequential st))"
| zk_delete: "good_path p \<Longrightarrow> zk_step st (fst (delete_node c p st))"
| zk_set: "good_path p \<Longrightarrow> zk_step st (fst (set_node_data c p data st))"

lemma pad10_chars: "ch \<in> set (pad10 k) \<Longrightarrow> ch \<noteq> CHR ''/''"
  using show_int_chars [of ch k] by (auto simp: pad10_def is_digit_def)

lemma suffix_path:
  assumes "comps_ok cs"
  shows "\<exists>ds. comps_ok ds \<and> path_of cs @ ''_'' @ pad10 k = path_of ds"
proof (cases cs rule: rev_cases)
  case Nil
  then show ?thesis
    using pad10_chars
    by (intro exI [of _ "[''_'' @ pad10 k]"]) (auto simp: path_of_def comps_ok_def comp_ok_def)
next
  case (snoc ds d)
  then show ?thesis
    using assms pad10_chars
    by (intro exI [of _ "ds @ [d @ ''_'' @ pad10 k]"]) (auto simp: path_of_snoc comp_ok_def)
qed

lemma actual_path_good:
  assumes "good_path p"
  shows "\<exists>cs. comps_ok cs \<and> fst (actual_path sequential (normalize_path p) st) = path_of cs
    \<and> nodes (snd (actual_path sequential (normalize_path p) st)) = nodes st"
proof -
  obtain cs where "comps_ok cs" "normalize_path p = path_of cs" using assms by (auto simp: good_path_def)
  then show ?thesis
    using suffix_path [of cs] by (cases sequential) (auto simp: actual_path_def Let_def)
qed

lemma create_node_inv:
  assumes "good_path p" "zk_inv st"
  shows "zk_inv (fst (create_node c p data eph sequential st))"
proof -
  obtain a st1 where a: "actual_path sequential (normalize_path p) st = (a, st1)" by fastforce
  obtain cs where cs: "comps_ok cs" "a = path_of cs" "nodes st1 = nodes st"
    using actual_path_good [OF assms(1), of sequential st] a by auto
  have "zk_inv (st1\<lparr>nodes := link_node a (empty_znode\<lparr>zn_data := data, zn_ephemeral := eph\<rparr>) (nodes st1)\<rparr>)"
    if "map_of (nodes st1) a = None" "parent_path a \<noteq> [] \<Longrightarrow> map_of (nodes st1) (parent_path a) \<noteq> None"
    using that assms(2) cs by (simp add: zk_inv_nodes link_node_inv empty_znode_def)
  moreover have "zk_inv st1" using assms(2) cs by (simp add: zk_inv_nodes)
  ultimately show ?thesis
    using assms(2) a by (simp add: create_node_def Let_def ensure_parent_exists_def)
qed

lemma delete_node_inv:
  assumes "good_path p" "zk_inv st"
  shows "zk_inv (fst (delete_node c p st))"
proof -
  obtain cs where "comps_ok cs" "normalize_path p = path_of cs" using assms(1) by (auto simp: good_path_def)
  then show ?thesis
    using assms(2) by (auto simp: delete_node_def Let_def zk_inv_nodes unlink_node_inv split: option.split)
qed

lemma set_node_data_inv:
  assumes "good_path p" "zk_inv st"
  shows "zk_inv (fst (set_node_data c p data st))"
proof -
  obtain cs where cs: "comps_ok cs" "normalize_path p = path_of cs" using assms(1) by (auto simp: good_path_def)
  show ?thesis
  proof (cases "map_of (nodes st) (path_of cs)")
    case (Some n)
    define n' where "n' = n\<lparr>zn_data := data, zn_version := zn_version n + 1\<rparr>"
    have keep: "tree_inv A \<Longrightarrow> A cs = Some n \<Longrightarrow> tree_inv (A(cs \<mapsto> n'))" for A
      unfolding tree_inv_def n'_def by (auto split: if_splits)
    have "nodes_inv (AList.update (path_of cs) n' (nodes st))"
      using assms(2) cs(1) keep [of "nabs (nodes st)"] nabs_Some [OF cs(1) Some]
      by (auto simp: zk_inv_nodes nodes_inv_def nabs_update umap.wf_upd update_conv' split: if_splits)
    then show ?thesis
      using assms(2) cs(2) Some by (simp add: set_node_data_def Let_def n'_def zk_inv_nodes)
  qed (use assms cs in \<open>simp_all add: set_node_data_def Let_def\<close>)
qed

interpretation zk: inductive_invariant "\<lambda>st. st = zk_init" zk_step zk_inv
  by unfold_locales
    (auto simp: nodes_inv_init create_node_inv delete_node_inv set_node_data_inv elim!: zk_step.cases)

section \<open>Sequence numbers\<close>

fun padn :: "nat \<Rightarrow> nat \<Rightarrow> string" where
  "padn 0 n = []"
| "padn (Suc w) n = padn w (n div 10) @ [digit_char (n mod 10)]"

lemma length_padn [simp]: "length (padn w n) = w"
  by (induction w arbitrary: n) auto

lemma digit_char_0: "digit_char 0 = CHR ''0''"
  by code_simp

lemma padn_zero: "padn w 0 = replicate w (CHR ''0'')"
  by (induction w) (simp_all add: digit_char_0 replicate_append_same)

lemma pad_show_nat:
  "n < 10 ^ w \<Longrightarrow> 0 < w \<Longrightarrow> replicate (w - length (show_nat n)) (CHR ''0'') @ show_nat n = padn w n"
proof (induction w arbitrary: n)
  case (Suc w)
  show ?case
  proof (cases "n < 10")
    case True
    then show ?thesis
      by (simp add: show_nat.simps [of n] padn_zero)
  next
    case False
    then have "n div 10 < 10 ^ w" "0 < w" using Suc.prems by (auto intro: gr0I)
    then have "replicate (w - length (show_nat (n div 10))) (CHR ''0'') @ show_nat (n div 10) = padn w (n div 10)"
      by (rule Suc.IH)
    then show ?thesis using False by (subst (1 2) show_nat.simps) simp
  qed
qed simp

lemma less_append_same: "(xs :: string) < ys \<Longrightarrow> length ys \<le> length xs \<Longrightarrow> xs @ us < ys @ vs"
  unfolding list_less_def by (rule lexord_sufI)

lemma less_snoc: "(c :: char) < d \<Longrightarrow> xs @ [c] < xs @ [d]"
  unfolding list_less_def by (rule lexord_append_leftI) (simp add: lexord_cons_cons)

lemma less_prefix: "(us :: string) < vs \<Longrightarrow> xs @ us < xs @ vs"
  unfolding list_less_def by (rule lexord_append_leftI)

lemma digit_char_less: "d < e \<Longrightarrow> e < 10 \<Longrightarrow> digit_char d < digit_char e"
  by (simp add: digit_char_def less_char_def)

lemma padn_mono: "n < m \<Longrightarrow> m < 10 ^ w \<Longrightarrow> padn w n < padn w m"
proof (induction w arbitrary: n m)
  case (Suc w)
  show ?case
  proof (cases "n div 10 = m div 10")
    case True
    then have "n mod 10 < m mod 10"
      using Suc.prems(1) div_mult_mod_eq [of n 10] div_mult_mod_eq [of m 10] by linarith
    then show ?thesis using True by (simp add: digit_char_less less_snoc)
  next
    case False
    then have "n div 10 < m div 10" using Suc.prems(1) by (simp add: div_le_mono order_le_neq_trans)
    moreover have "m div 10 < 10 ^ w" using Suc.prems(2) by auto
    ultimately have "padn w (n div 10) < padn w (m div 10)" by (rule Suc.IH)
    then show ?thesis by (simp add: less_append_same)
  qed
qed simp

lemma pad10_mono:
  assumes "0 \<le> i" "i < j" "j < 10 ^ 10"
  shows "pad10 i < pad10 j"
proof -
  have "pad10 k = padn 10 (nat k)" if "0 \<le> k" "k < 10 ^ 10" for k
    using that pad_show_nat [of "nat k" 10] by (simp add: pad10_def show_int_def)
  then show ?thesis using assms padn_mono [of "nat i" "nat j" 10] by simp
qed

section \<open>Properties\<close>

text \<open>C10. In every store reachable by create, delete and set calls on paths without a doubled slash (and on any other
  path that normalises to non-empty components), the flat path map is a tree: a node's child listing is sorted, free of
  duplicates and names exactly the nodes that exist directly below it, and no node exists without its parent.  On other
  paths it need not be one.\<close>

theorem zk_tree:
  assumes "reach (\<lambda>st. st = zk_init) zk_step st" and "comps_ok cs"
  shows "(node_exists (path_of cs) st \<longrightarrow>
      sorted (get_children (path_of cs) st) \<and> distinct (get_children (path_of cs) st) \<and>
      set (get_children (path_of cs) st) = {c. comp_ok c \<and> node_exists (path_of (cs @ [c])) st})
    \<and> (\<forall>c. comp_ok c \<and> node_exists (path_of (cs @ [c])) st \<longrightarrow> node_exists (path_of cs) st)"
proof -
  have inv: "tree_inv (nabs (nodes st))"
    using zk.reach_inv [OF assms(1)] by (simp add: zk_inv_def)
  have ex: "node_exists (path_of ds) st \<longleftrightarrow> nabs (nodes st) ds \<noteq> None" if "comps_ok ds" for ds
    using that by (simp add: node_exists_def nabs_def)
  have ok: "nabs (nodes st) (cs @ [c]) \<noteq> None \<Longrightarrow> comp_ok c" for c
    by (auto simp: nabs_def split: if_splits)
  have up: "nabs (nodes st) (cs @ [c]) \<noteq> None \<Longrightarrow> nabs (nodes st) cs \<noteq> None" for c
    by (rule tree_inv_up [OF inv])
  show ?thesis
  proof (cases "nabs (nodes st) cs")
    case None
    then show ?thesis using up ex assms(2) comps_ok_simps(2) by metis
  next
    case (Some n)
    then have gc: "get_children (path_of cs) st = zn_children n"
      using assms(2) by (simp add: get_children_def nabs_def)
    have "set (zn_children n) = {c. comp_ok c \<and> node_exists (path_of (cs @ [c])) st}"
      using tree_inv_children [OF inv Some] ok ex assms(2) by (metis (no_types, lifting) Collect_cong Collect_mem_eq comps_ok_simps(2))
    then show ?thesis
      using Some inv gc ex [OF assms(2)] by (simp add: tree_inv_def)
  qed
qed

theorem zk_tree_witness:
  "node_exists ''/a'' (fst (create_node \<lparr>zk_hosts = [], zk_connected = True, zk_watch = False\<rparr> ''/a'' ''d'' False False zk_init))
   \<and> set (get_children ''/'' (fst (create_node \<lparr>zk_hosts = [], zk_connected = True, zk_watch = False\<rparr>
       ''/a'' ''d'' False False zk_init)))
     = {c. comp_ok c \<and> node_exists (path_of [c]) (fst (create_node
         \<lparr>zk_hosts = [], zk_connected = True, zk_watch = False\<rparr> ''/a'' ''d'' False False zk_init))}"
proof -
  define st where "st = fst (create_node \<lparr>zk_hosts = [], zk_connected = True, zk_watch = False\<rparr>
    ''/a'' ''d'' False False zk_init)"
  have p: "path_of [''a''] = ''/a''" "comps_ok [''a'']"
    by (simp_all add: path_of_def comps_ok_def comp_ok_def)
  then have g: "good_path ''/a''" "normalize_path ''/a'' = ''/a''"
    using normalize_path_of [of "[''a'']"] by (auto simp: good_path_def intro: exI [of _ "[''a'']"])
  have r: "reach (\<lambda>st. st = zk_init) zk_step st"
    unfolding st_def using g(1) by (blast intro: reach_init reach_step zk_create)
  have n: "normalize_path ''/'' = ''/''" using normalize_path_of [of "[]"] by simp
  have ex: "node_exists ''/a'' st" "node_exists ''/'' st"
    by (simp_all add: st_def create_node_def g n node_exists_def actual_path_def zk_init_def
        ensure_parent_exists_def parent_path_def link_node_def add_child_def child_name_def)
  then show ?thesis
    using zk_tree [OF r, of "[]"] unfolding st_def [symmetric] by simp
qed

text \<open>Sequential nodes of one prefix get strictly increasing names in the order of their
  creation, in the lexicographic order of the listing, as long as the ten digits suffice.\<close>

theorem sequence_names_increase:
  assumes "case map_of (counters st) (normalize_path p) of None \<Rightarrow> True | Some k \<Rightarrow> 0 \<le> k \<and> k < 10 ^ 10 - 2"
    and "zk_connected c"
    and "st' = fst (create_node c p data eph True st)"
  shows "fst (actual_path True (normalize_path p) st) < fst (actual_path True (normalize_path p) st')"
proof -
  define k where "k = (case map_of (counters st) (normalize_path p) of None \<Rightarrow> 0 | Some n \<Rightarrow> n)"
  have k: "0 \<le> k" "k < 10 ^ 10 - 2" using assms(1) by (auto simp: k_def split: option.splits)
  have "counters st' = AList.update (normalize_path p) (k + 1) (counters st)"
    using assms(2,3) by (auto simp: create_node_def actual_path_def Let_def k_def)
  then have "fst (actual_path True (normalize_path p) st') = normalize_path p @ ''_'' @ pad10 (k + 2)"
    by (simp add: actual_path_def update_conv' Let_def add.commute)
  moreover have "fst (actual_path True (normalize_path p) st) = normalize_path p @ ''_'' @ pad10 (k + 1)"
    by (simp add: actual_path_def k_def Let_def)
  moreover have "pad10 (k + 1) < pad10 (k + 2)" using k by (intro pad10_mono) auto
  ultimately show ?thesis by (simp only: less_prefix)
qed

theorem sequence_names_increase_witness:
  "fst (actual_path True (normalize_path ''/lock'') zk_init)
     < fst (actual_path True (normalize_path ''/lock'')
         (fst (create_node \<lparr>zk_hosts = [], zk_connected = True, zk_watch = False\<rparr> ''/lock'' [] True True zk_init)))"
  by (rule sequence_names_increase [OF _ _ refl]) (simp_all add: zk_init_def)

text \<open>Deletion: it succeeds exactly for a connected client and an existing node without
  children; then that node is gone, every other node that existed still exists, and its parent no
  longer lists it.  Otherwise nothing changes.\<close>

theorem delete_node_spec:
  assumes "reach (\<lambda>st. st = zk_init) zk_step st" and "comps_ok cs"
    and "delete_node c (path_of cs) st = (st', code, ev)"
  shows "(code = ZOK \<longleftrightarrow> zk_connected c \<and> node_exists (path_of cs) st \<and> get_children (path_of cs) st = [])
    \<and> (code \<noteq> ZOK \<longrightarrow> st' = st)
    \<and> (code = ZOK \<longrightarrow> (\<forall>ds. comps_ok ds \<longrightarrow>
         (node_exists (path_of ds) st' \<longleftrightarrow> node_exists (path_of ds) st \<and> ds \<noteq> cs)))"
proof -
  have inv: "tree_inv (nabs (nodes st))"
    using zk.reach_inv [OF assms(1)] by (simp add: zk_inv_def)
  consider "code = ZOK" "zk_connected c" "\<exists>n. map_of (nodes st) (path_of cs) = Some n \<and> zn_children n = []"
      "st' = st\<lparr>nodes := unlink_node (path_of cs) (nodes st)\<rparr>"
    | "code \<noteq> ZOK" "st' = st" "\<not> (zk_connected c \<and> (\<exists>n. map_of (nodes st) (path_of cs) = Some n \<and> zn_children n = []))"
    using assms(2,3) by (auto simp: delete_node_def Let_def split: if_splits option.splits)
  then show ?thesis
  proof cases
    case 1
    have "node_exists (path_of ds) st' \<longleftrightarrow> node_exists (path_of ds) st \<and> ds \<noteq> cs" if "comps_ok ds" for ds
      using unlink_node_dom [OF inv assms(2) _ that] 1(3,4) that by (auto simp: node_exists_def)
    then show ?thesis using 1 assms(2) by (auto simp: node_exists_def get_children_def)
  next
    case 2
    then show ?thesis
      using assms(2) by (auto simp: node_exists_def get_children_def split: option.splits)
  qed
qed

theorem delete_node_spec_witness:
  "fst (snd (delete_node \<lparr>zk_hosts = [], zk_connected = True, zk_watch = False\<rparr> ''/'' zk_init)) = ZOK
   \<and> \<not> node_exists ''/'' (fst (delete_node \<lparr>zk_hosts = [], zk_connected = True, zk_watch = False\<rparr> ''/'' zk_init))"
proof -
  have "reach (\<lambda>st. st = zk_init) zk_step zk_init" by (rule reach_init) simp
  note d = delete_node_spec [OF this, of "[]" "\<lparr>zk_hosts = [], zk_connected = True, zk_watch = False\<rparr>"]
  have n: "normalize_path ''/'' = ''/''" using normalize_path_of [of "[]"] by simp
  obtain st' code ev where e: "delete_node \<lparr>zk_hosts = [], zk_connected = True, zk_watch = False\<rparr> ''/'' zk_init
      = (st', code, ev)" by (metis prod_cases3)
  have "code = ZOK \<longleftrightarrow> node_exists ''/'' zk_init \<and> get_children ''/'' zk_init = []"
    using d [of st' code ev] e by simp
  then have ok: "code = ZOK"
    by (simp add: node_exists_def get_children_def n zk_init_def empty_znode_def)
  then have "\<not> node_exists ''/'' st'" using d [of st' code ev] e comps_ok_simps(1) path_of_Nil by metis
  then show ?thesis using ok by (simp add: e)
qed

text \<open>Two paths that differ by a doubled leading slash are different nodes with the same parent and the same child name,
  so the child set of the root loses step with the nodes: after the one with two slashes is created, the root lists the
  other, which does not exist.\<close>

theorem double_slash_breaks_tree:
  fixes c :: zk_client
  assumes "zk_connected c"
  shows "get_children ''/'' (fst (create_node c ''//a'' [] False False zk_init)) = [''a'']
    \<and> \<not> node_exists ''/a'' (fst (create_node c ''//a'' [] False False zk_init))"
  using assms
  by (simp add: get_children_def node_exists_def create_node_def normalize_path_def strip_slashes_id
      actual_path_def zk_init_def ensure_parent_exists_def parent_path_def link_node_def add_child_def
      child_name_def empty_znode_def insort_insert_key_def)

theorem double_slash_breaks_tree_witness:
  "\<not> node_exists ''/a'' (fst (create_node ((new_client [])\<lparr>zk_connected := True\<rparr>) ''//a'' [] False False zk_init))"
  using double_slash_breaks_tree [of "(new_client [])\<lparr>zk_connected := True\<rparr>"] by simp

end
