(* ===== verification/Failover.thy ===== *)
theory Failover
  imports Download File_Upload Zookeeper
begin

text \<open>
  Failure handling of the head server, \<^verbatim>\<open>src/head_server/head_server.cpp\<close>: the heartbeat receiver, the
  consensus vote on a silent server, the kill signal, the re-replication of its chunks and the callback
  that ties them together.  The network, the peers and the control port of a storage server are
  parameters, as in \<^verbatim>\<open>Head_Transfer\<close>.
\<close>

section \<open>Heartbeats\<close>

record heartbeat =
  hb_id :: int
  hb_ip :: string
  hb_cpu :: rat
  hb_ram :: rat
  hb_disk :: rat
  hb_net_in :: string
  hb_net_out :: string
  hb_net_in_bps :: "64 word"
  hb_net_out_bps :: "64 word"

definition health_of_heartbeat :: "heartbeat \<Rightarrow> server_health" where
  "health_of_heartbeat hb = default_health\<lparr>sh_id := hb_id hb, sh_ip := hb_ip hb, sh_cpu := hb_cpu hb,
     sh_ram := hb_ram hb, sh_disk := hb_disk hb, sh_net_in := hb_net_in hb, sh_net_out := hb_net_out hb,
     sh_net_in_bps := hb_net_in_bps hb, sh_net_out_bps := hb_net_out_bps hb\<rparr>"

text \<open>One datagram: \<open>None\<close> when it is skipped.  The bound \<open>4 + msg_len\<close> is computed in 32 bits and may wrap
  round; a length of \<open>2 ^ 31\<close> or more is negative for \<^verbatim>\<open>ParseFromArray\<close>, which refuses it.\<close>

definition parse_datagram :: "(byte list \<Rightarrow> heartbeat option) \<Rightarrow> byte list \<Rightarrow> heartbeat option" where
  "parse_datagram dec buf =
     (if length buf < 4 then None
      else
        (let msg_len = ntohl_bytes (take 4 buf) in
         if length buf < unat (4 + msg_len) then None
         else if unat msg_len \<ge> 2 ^ 31 then None
         else dec (take (unat msg_len) (drop 4 buf))))"

text \<open>The receiver loop on the datagrams that arrive, with the time of each.\<close>

fun heartbeat_receiver ::
  "(byte list \<Rightarrow> heartbeat option) \<Rightarrow> (int \<times> byte list) list \<Rightarrow> monitor \<Rightarrow> monitor \<times> health_event list" where
  "heartbeat_receiver dec [] m = (m, [])"
| "heartbeat_receiver dec ((now, buf) # ds) m =
     (case parse_datagram dec buf of
        None \<Rightarrow> heartbeat_receiver dec ds m
      | Some hb \<Rightarrow>
          (let (m1, ev1) = record_heartbeat now (hb_id hb) (health_of_heartbeat hb) m;
               (m2, ev2) = heartbeat_receiver dec ds m1
           in (m2, ev1 @ ev2)))"

section \<open>The kill signal\<close>

text \<open>Up to three attempts on the base port, then on the transfer port, until a reply contains \<^verbatim>\<open>OK\<close>.\<close>

fun dead_attempts :: "'w ctl \<Rightarrow> registry \<Rightarrow> string \<Rightarrow> string \<Rightarrow> int \<Rightarrow> nat \<Rightarrow> 'w \<Rightarrow> bool \<times> 'w" where
  "dead_attempts ctl reg server ip port 0 w = (False, w)"
| "dead_attempts ctl reg server ip port (Suc n) w =
     (let (r, w1) = ctl ip port (''DEAD'' @ [nl]) w;
          (r', w2) = (case r of
             None \<Rightarrow> ctl ip (transfer_port_of reg server) (''DEAD'' @ [nl]) w1
           | Some _ \<Rightarrow> (r, w1))
      in if (case r' of None \<Rightarrow> False | Some resp \<Rightarrow> contains ''OK'' resp) then (True, w2)
         else dead_attempts ctl reg server ip port n w2)"

definition send_dead_signal_to_cluster_server :: "'w ctl \<Rightarrow> registry \<Rightarrow> string \<Rightarrow> 'w \<Rightarrow> bool \<times> 'w" where
  "send_dead_signal_to_cluster_server ctl reg server w =
     (let (ip, port) = parse_address 8080 server in
      if port = 0 then (False, w) else (True, snd (dead_attempts ctl reg server ip port 3 w)))"

section \<open>The vote\<close>

text \<open>The ZooKeeper part: whether the node of the server speaks against its death at time \<open>now\<close>.\<close>

definition zk_alive :: "int \<Rightarrow> int \<Rightarrow> zk_store \<Rightarrow> bool" where
  "zk_alive now server_id zk =
     (let znode = ''/dfg/cluster_servers/server_'' @ show_int server_id in
      if node_exists znode zk
      then (let zk_data = get_node_data znode zk in
            case find_str ''|timestamp:'' zk_data of
              None \<Rightarrow> True
            | Some pos \<Rightarrow>
                (case stoll (drop (pos + 11) zk_data) of Inl _ \<Rightarrow> False | Inr last_ts \<Rightarrow> now - last_ts < 30))
      else False)"

definition zk_peers :: "int \<Rightarrow> zk_store \<Rightarrow> (string \<times> int) list" where
  "zk_peers our_port zk =
     (if node_exists ''/dfg/head_servers'' zk
      then concat (map (\<lambda>child.
             (let pdata = get_node_data (''/dfg/head_servers/'' @ child) zk in
              if pdata = [] then []
              else (let (phost, pport) = parse_address 8080 pdata
                    in if pport > 0 \<and> pport \<noteq> our_port then [(phost, pport)] else [])))
             (get_children ''/dfg/head_servers'' zk))
      else [])"

definition all_peers :: "int \<Rightarrow> (string \<times> int) list \<Rightarrow> (string \<times> int) list \<Rightarrow> (string \<times> int) list" where
  "all_peers our_port cfg_heads peers =
     fold (\<lambda>e ps. if snd e \<noteq> our_port \<and> e \<notin> set ps then ps @ [e] else ps) cfg_heads peers"

definition health_query :: "string \<Rightarrow> int \<Rightarrow> string" where
  "health_query host server_id =
     ''GET /api/v1/servers/cluster/'' @ show_int server_id @ ''/health HTTP/1.1'' @ [cr, nl]
     @ ''Host: '' @ host @ [cr, nl] @ ''Connection: close'' @ crlf2"

definition says_healthy :: "string \<Rightarrow> bool" where
  "says_healthy resp \<longleftrightarrow> contains ([dquote] @ ''healthy'' @ [dquote] @ '':true'') resp
     \<or> contains ([dquote] @ ''healthy'' @ [dquote] @ '': true'') resp"

fun query_peers :: "'w ctl \<Rightarrow> int \<Rightarrow> (string \<times> int) list \<Rightarrow> 'w \<Rightarrow> bool \<times> 'w" where
  "query_peers http server_id [] w = (True, w)"
| "query_peers http server_id ((host, port) # peers) w =
     (let (r, w') = http host port (health_query host server_id) w in
      case r of
        None \<Rightarrow> query_peers http server_id peers w'
      | Some resp \<Rightarrow> if says_healthy resp then (False, w') else query_peers http server_id peers w')"

definition verify_cluster_server_dead_consensus ::
  "'w ctl \<Rightarrow> bool \<Rightarrow> zk_store \<Rightarrow> (string \<times> int) list \<Rightarrow> int \<Rightarrow> int \<Rightarrow> int \<Rightarrow> 'w \<Rightarrow> bool \<times> 'w" where
  "verify_cluster_server_dead_consensus http zk_up zk cfg_heads our_port now server_id w =
     (if zk_up \<and> zk_alive now server_id zk then (False, w)
      else query_peers http server_id
        (all_peers our_port cfg_heads (if zk_up then zk_peers our_port zk else [])) w)"

section \<open>Re-replication\<close>

definition failover_servers :: "string \<Rightarrow> registry \<Rightarrow> monitor \<Rightarrow> string list" where
  "failover_servers dead reg mon =
     filter (\<lambda>srv. srv \<noteq> dead \<and>
       \<not> (\<exists>(_, h) \<in> set (get_all_health mon).
            (sh_ip h = srv \<or> sh_ip h = fst (parse_address 8080 srv)) \<and> \<not> sh_healthy h))
       (get_addresses reg)"

record copy_plan =
  cp_source :: string
  cp_path :: string
  cp_target :: string
  cp_checksum :: string

text \<open>The scan over the records of one chunk, and the first healthy server that does not hold it.\<close>

definition scan_records :: "string \<Rightarrow> chunk_record list \<Rightarrow> bool \<times> string \<times> string \<times> string" where
  "scan_records dead records =
     fold (\<lambda>r (has_dead, source, path, checksum).
         if cr_server r = dead then (True, source, path, cr_checksum r)
         else if source = [] then (has_dead, cr_server r, cr_path r, checksum)
         else (has_dead, source, path, checksum))
       records (False, [], [], [])"

definition choose_copy :: "string \<Rightarrow> string list \<Rightarrow> chunk_record list \<Rightarrow> copy_plan option" where
  "choose_copy dead healthy records =
     (let (has_dead, source, path, checksum) = scan_records dead records in
      if \<not> has_dead then None
      else if source = [] then None
      else (case find (\<lambda>cand. cand \<notin> set (map cr_server records)) healthy of
              None \<Rightarrow> None
            | Some target \<Rightarrow>
                if target = [] then None
                else Some \<lparr>cp_source = source, cp_path = path, cp_target = target, cp_checksum = checksum\<rparr>))"

text \<open>One chunk of one file; the chunk id is narrowed to \<^verbatim>\<open>int\<close> for the request and kept for the record.\<close>

definition copy_chunk ::
  "codec \<Rightarrow> 'w net \<Rightarrow> registry \<Rightarrow> string \<Rightarrow> string list \<Rightarrow> string \<Rightarrow> int \<Rightarrow> chunk_record list \<Rightarrow> 'w \<Rightarrow>
   chunk_record option \<times> 'w" where
  "copy_chunk k net reg dead healthy filename cid records w =
     (case choose_copy dead healthy records of
        None \<Rightarrow> (None, w)
      | Some p \<Rightarrow>
          (let (r, w') = replicate_chunk_to_server k net reg (cp_source p) (wrap_int cid) (cp_target p) filename (cp_path p) w in
           (case r of
              None \<Rightarrow> None
            | Some new_path \<Rightarrow>
                Some \<lparr>cr_id = cid, cr_server = cp_target p,
                  cr_path = (if new_path \<noteq> [] then new_path
                    else ''/tmp/chunks/'' @ cp_target p @ ''_'' @ filename @ ''_chunk_'' @ show_int cid),
                  cr_checksum = cp_checksum p, cr_replicas = wrap_int (int (length records))\<rparr>, w')))"

fun copy_chunks ::
  "codec \<Rightarrow> 'w net \<Rightarrow> registry \<Rightarrow> string \<Rightarrow> string list \<Rightarrow> string \<Rightarrow> (int \<times> chunk_record list) list \<Rightarrow> 'w \<Rightarrow>
   chunk_record list \<times> 'w" where
  "copy_chunks k net reg dead healthy filename [] w = ([], w)"
| "copy_chunks k net reg dead healthy filename ((cid, records) # cs) w =
     (let (r, w1) = copy_chunk k net reg dead healthy filename cid records w;
          (rs, w2) = copy_chunks k net reg dead healthy filename cs w1
      in ((case r of None \<Rightarrow> rs | Some c \<Rightarrow> c # rs), w2))"

text \<open>All files, in the order of the listing; a file enters the update when something was copied.\<close>

fun copy_files ::
  "codec \<Rightarrow> 'w net \<Rightarrow> registry \<Rightarrow> string \<Rightarrow> string list \<Rightarrow> mstore \<Rightarrow> string list \<Rightarrow> 'w \<Rightarrow>
   (string \<times> chunk_record list) list \<times> 'w" where
  "copy_files k net reg dead healthy st [] w = ([], w)"
| "copy_files k net reg dead healthy st (f # fs) w =
     (let (rs, w1) = copy_chunks k net reg dead healthy f (group_keys cr_id (fr_chunks (query_metadata f st))) w;
          (upd, w2) = copy_files k net reg dead healthy st fs w1
      in (if rs = [] then upd else (f, rs) # upd, w2))"

definition rereplicate_dead_server_chunks ::
  "codec \<Rightarrow> 'w net \<Rightarrow> registry \<Rightarrow> monitor \<Rightarrow> string \<Rightarrow> mstore \<Rightarrow> 'w \<Rightarrow> mstore \<times> 'w" where
  "rereplicate_dead_server_chunks k net reg mon dead st w =
     (let all_files = list_files_snapshot st; healthy = failover_servers dead reg mon in
      if all_files = [] then (delete_server_metadata dead st, w)
      else if healthy = [] then (st, w)
      else
        (let (upd, w') = copy_files k net reg dead healthy st all_files w;
             st1 = (if upd \<noteq> [] then fst (atomic_replace_server_chunks dead upd st) else st)
         in (delete_server_metadata dead st1, w')))"

section \<open>The callback\<close>

record head_state =
  hs_registry :: registry
  hs_metadata :: mstore
  hs_recovering :: "string list"

definition on_server_unhealthy_callback ::
  "codec \<Rightarrow> 'w net \<Rightarrow> 'w ctl \<Rightarrow> 'w ctl \<Rightarrow> monitor \<Rightarrow> bool \<Rightarrow> zk_store \<Rightarrow> (string \<times> int) list \<Rightarrow> int \<Rightarrow> int \<Rightarrow>
   int \<Rightarrow> server_health \<Rightarrow> head_state \<Rightarrow> 'w \<Rightarrow> head_state \<times> 'w" where
  "on_server_unhealthy_callback k net ctl http mon zk_up zk cfg_heads our_port now sid health hs w =
     (if sh_ip health \<in> set (hs_recovering hs) then (hs, w)
      else
        (let hs1 = hs\<lparr>hs_recovering := sh_ip health # hs_recovering hs\<rparr>;
             (dead, w1) = verify_cluster_server_dead_consensus http zk_up zk cfg_heads our_port now sid w in
         if \<not> dead then (hs1\<lparr>hs_recovering := removeAll (sh_ip health) (hs_recovering hs1)\<rparr>, w1)
         else
           (let (_, w2) = send_dead_signal_to_cluster_server ctl (hs_registry hs1) (sh_ip health) w1;
                reg = fst (remove_server sid (hs_registry hs1));
                (st, w3) = rereplicate_dead_server_chunks k net reg mon (sh_ip health) (hs_metadata hs1) w2
            in (hs1\<lparr>hs_registry := reg, hs_metadata := st,
                  hs_recovering := removeAll (sh_ip health) (hs_recovering hs1)\<rparr>, w3))))"

section \<open>Lemmas\<close>

lemma scan_records_spec:
  assumes "scan_records dead rs = (has_dead, source, path, checksum)"
  shows "(has_dead \<longleftrightarrow> (\<exists>c \<in> set rs. cr_server c = dead)) \<and>
    (has_dead \<longrightarrow> (\<exists>c \<in> set rs. cr_server c = dead \<and> cr_checksum c = checksum)) \<and>
    (source \<noteq> [] \<longrightarrow> source \<noteq> dead \<and> (\<exists>c \<in> set rs. cr_server c = source \<and> cr_path c = path))"
  using assms
proof (induction rs arbitrary: has_dead source path checksum rule: rev_induct)
  case (snoc r rs)
  obtain d s p c where prev: "scan_records dead rs = (d, s, p, c)" by (cases "scan_records dead rs") auto
  from snoc.IH [OF prev] show ?case
    using snoc.prems prev by (auto simp: scan_records_def split: if_splits)
qed (simp add: scan_records_def)

lemma choose_copy_spec:
  assumes "choose_copy dead healthy rs = Some p"
  shows "cp_target p \<in> set healthy \<and> cp_target p \<notin> cr_server ` set rs \<and>
    (\<exists>c \<in> set rs. cr_server c = dead \<and> cr_checksum c = cp_checksum p) \<and>
    cp_source p \<noteq> dead \<and> (\<exists>c \<in> set rs. cr_server c = cp_source p \<and> cr_path c = cp_path p)"
proof -
  obtain d s pt c where scan: "scan_records dead rs = (d, s, pt, c)" by (cases "scan_records dead rs") auto
  obtain t where "find (\<lambda>cand. cand \<notin> set (map cr_server rs)) healthy = Some t" "d" "s \<noteq> []"
    "p = \<lparr>cp_source = s, cp_path = pt, cp_target = t, cp_checksum = c\<rparr>"
    using assms scan by (auto simp: choose_copy_def Let_def split: if_splits option.splits)
  then show ?thesis
    using scan_records_spec [OF scan] find_SomeD by fastforce
qed

text \<open>A record that a failover adds for the chunk with the records \<open>rs\<close>.\<close>

definition replacement :: "string \<Rightarrow> string list \<Rightarrow> chunk_record list \<Rightarrow> chunk_record \<Rightarrow> bool" where
  "replacement dead healthy rs c \<longleftrightarrow> cr_server c \<in> set healthy \<and> cr_server c \<notin> cr_server ` set rs \<and>
     (\<exists>c0 \<in> set rs. cr_server c0 = dead \<and> cr_checksum c0 = cr_checksum c) \<and> (\<exists>c0 \<in> set rs. cr_server c0 \<noteq> dead)"

lemma copy_chunk_spec:
  assumes "copy_chunk k net reg dead healthy f cid rs w = (Some c, w')"
  shows "cr_id c = cid \<and> replacement dead healthy rs c"
proof -
  obtain p where p: "choose_copy dead healthy rs = Some p"
    using assms by (auto simp: copy_chunk_def split: option.splits)
  have "cr_id c = cid \<and> cr_server c = cp_target p \<and> cr_checksum c = cp_checksum p"
    using assms p by (auto simp: copy_chunk_def Let_def split: option.splits prod.splits)
  then show ?thesis using choose_copy_spec [OF p] unfolding replacement_def by metis
qed

lemma copy_chunks_spec:
  "copy_chunks k net reg dead healthy f gs w = (new, w') \<Longrightarrow> distinct (map fst gs) \<Longrightarrow>
   distinct (map cr_id new) \<and> (\<forall>c \<in> set new. \<exists>rs. (cr_id c, rs) \<in> set gs \<and> replacement dead healthy rs c)"
proof (induction gs arbitrary: new w w')
  case (Cons g gs)
  obtain cid rs where g: "g = (cid, rs)" by force
  obtain r w1 where r: "copy_chunk k net reg dead healthy f cid rs w = (r, w1)" by force
  obtain ns w2 where ns: "copy_chunks k net reg dead healthy f gs w1 = (ns, w2)" by force
  have new: "new = (case r of None \<Rightarrow> ns | Some c \<Rightarrow> c # ns)"
    using Cons.prems(1) r ns by (simp add: g)
  have IH: "distinct (map cr_id ns)" "\<forall>c \<in> set ns. \<exists>rs. (cr_id c, rs) \<in> set gs \<and> replacement dead healthy rs c"
    using Cons.IH [OF ns] Cons.prems(2) by simp_all
  show ?case
  proof (cases r)
    case None
    then show ?thesis using IH by (auto simp: new)
  next
    case (Some c)
    have c: "cr_id c = cid" "replacement dead healthy rs c"
      using copy_chunk_spec [OF r [unfolded Some]] by simp_all
    have "cid \<notin> cr_id ` set ns" using IH(2) Cons.prems(2) by (force simp: g)
    then show ?thesis using IH c Some by (auto simp: new g)
  qed
qed simp

lemma copy_files_spec:
  "copy_files k net reg dead healthy st fs w = (upd, w') \<Longrightarrow> distinct fs \<Longrightarrow>
   distinct (map fst upd) \<and> fst ` set upd \<subseteq> set fs \<and>
   (\<forall>(f, new) \<in> set upd. \<exists>w1 w2. copy_chunks k net reg dead healthy f
      (group_keys cr_id (fr_chunks (query_metadata f st))) w1 = (new, w2))"
proof (induction fs arbitrary: upd w w')
  case (Cons f fs)
  obtain rs w1 where rs: "copy_chunks k net reg dead healthy f (group_keys cr_id (fr_chunks (query_metadata f st))) w = (rs, w1)"
    by force
  obtain us w2 where us: "copy_files k net reg dead healthy st fs w1 = (us, w2)" by force
  have upd: "upd = (if rs = [] then us else (f, rs) # us)" using Cons.prems(1) rs us by simp
  have IH: "distinct (map fst us)" "fst ` set us \<subseteq> set fs"
    "\<forall>(f, new) \<in> set us. \<exists>w1 w2. copy_chunks k net reg dead healthy f
      (group_keys cr_id (fr_chunks (query_metadata f st))) w1 = (new, w2)"
    using Cons.IH [OF us] Cons.prems(2) by simp_all
  moreover have "f \<notin> fst ` set us" using IH(2) Cons.prems(2) by auto
  ultimately show ?case using rs by (auto simp: upd)
qed simp

lemma map_of_purge:
  "map_of (files (delete_server_metadata dead st)) f =
     map_option (\<lambda>r. r\<lparr>fr_chunks := recount (filter (\<lambda>c. cr_server c \<noteq> dead) (fr_chunks r))\<rparr>) (map_of (files st) f)"
  by (simp add: delete_server_metadata_def map_of_map)

lemma recount_cong:
  assumes "map (\<lambda>c. c\<lparr>cr_replicas := 0\<rparr>) cs = map (\<lambda>c. c\<lparr>cr_replicas := 0\<rparr>) ds"
  shows "map (\<lambda>c. c\<lparr>cr_replicas := 0\<rparr>) (filter (\<lambda>c. cr_server c \<noteq> s) cs) =
    map (\<lambda>c. c\<lparr>cr_replicas := 0\<rparr>) (filter (\<lambda>c. cr_server c \<noteq> s) ds)"
proof -
  have "list_all2 (\<lambda>c d. c\<lparr>cr_replicas := 0\<rparr> = d\<lparr>cr_replicas := 0\<rparr>) cs ds"
    using assms by (simp add: list_all2_conv_all_nth list_eq_iff_nth_eq)
  then show ?thesis
  proof (induction rule: list_all2_induct)
    case (Cons c cs d ds)
    then have "cr_server c = cr_server d" by (metis chunk_record.select_convs(2) chunk_record.surjective chunk_record.update_convs(5))
    then show ?case using Cons by simp
  qed simp
qed

lemma failover_servers_spec:
  "s \<in> set (failover_servers dead reg mon) \<Longrightarrow> s \<noteq> dead \<and> s \<in> set (get_addresses reg) \<and>
   (\<forall>(i, h) \<in> set (get_all_health mon). sh_ip h = s \<longrightarrow> sh_healthy h)"
  by (auto simp: failover_servers_def)

lemma rereplicate_files:
  assumes "umap_wf (files st)" "map_of (files st) f = Some r" "f \<noteq> []"
    and "failover_servers dead reg mon \<noteq> []"
    and "rereplicate_dead_server_chunks k net reg mon dead st w = (st', w')"
  obtains upd w1 where "copy_files k net reg dead (failover_servers dead reg mon) st (list_files_snapshot st) w = (upd, w1)"
    and "map_of (files st') f = map_option (\<lambda>r. r\<lparr>fr_chunks := recount (filter (\<lambda>c. cr_server c \<noteq> dead) (fr_chunks r))\<rparr>)
      (case map_of upd f of None \<Rightarrow> Some r | Some new \<Rightarrow> Some (replace_server_in dead new r))"
    and "distinct (map fst upd)"
proof -
  have ne: "list_files_snapshot st \<noteq> []"
    using mdb.listing_dom [OF assms(1)] assms(2) by auto
  obtain upd w1 where u: "copy_files k net reg dead (failover_servers dead reg mon) st (list_files_snapshot st) w = (upd, w1)"
    by force
  have d: "distinct (map fst upd)"
    using copy_files_spec [OF u] mdb.listing_sorted [OF assms(1)] by simp
  define st1 where "st1 = (if upd \<noteq> [] then fst (atomic_replace_server_chunks dead upd st) else st)"
  have st': "st' = delete_server_metadata dead st1"
    using assms(4,5) u ne by (simp add: rereplicate_dead_server_chunks_def st1_def Let_def)
  have "map_of (files st1) f = (case map_of upd f of None \<Rightarrow> Some r | Some new \<Rightarrow> Some (replace_server_in dead new r))"
    using map_of_failover [OF d, of dead "files st" f] assms(2)
    by (simp add: st1_def atomic_replace_server_chunks_def failover_map_def)
  then show ?thesis using u d that unfolding st' map_of_purge by simp
qed

section \<open>Properties\<close>

text \<open>C5. Re-replication, when a server other than the dead one is registered and not known to be unhealthy (with files and
  without such a server it changes nothing), keeps the metadata of every file right: after it the file has the same hash, exactly
  its records on other servers, and new ones, at most one per chunk; each new one is for a chunk that had
  a replica on the dead server (whose checksum it carries) and one elsewhere, and names a registered,
  healthy server that is not the dead one and did not hold the chunk before; the replica counts are right.\<close>

theorem failover_rewrites:
  assumes "umap_wf (files st)" "map_of (files st) f = Some r" "f \<noteq> []"
    and "failover_servers dead reg mon \<noteq> []"
    and "rereplicate_dead_server_chunks k net reg mon dead st w = (st', w')"
  shows "\<exists>r' new. map_of (files st') f = Some r' \<and> fr_hash r' = fr_hash r \<and> counted_chunks (fr_chunks r') \<and>
    map (\<lambda>c. c\<lparr>cr_replicas := 0\<rparr>) (fr_chunks r') =
      map (\<lambda>c. c\<lparr>cr_replicas := 0\<rparr>) (filter (\<lambda>c. cr_server c \<noteq> dead) (fr_chunks r) @ new) \<and>
    distinct (map cr_id new) \<and>
    (\<forall>c \<in> set new. cr_server c \<noteq> dead \<and> cr_server c \<in> set (get_addresses reg) \<and>
       replacement dead (failover_servers dead reg mon) (filter (\<lambda>c0. cr_id c0 = cr_id c) (fr_chunks r)) c)"
proof -
  let ?h = "failover_servers dead reg mon"
  obtain upd w1 where u: "copy_files k net reg dead ?h st (list_files_snapshot st) w = (upd, w1)"
    and m: "map_of (files st') f = map_option (\<lambda>r. r\<lparr>fr_chunks := recount (filter (\<lambda>c. cr_server c \<noteq> dead) (fr_chunks r))\<rparr>)
      (case map_of upd f of None \<Rightarrow> Some r | Some new \<Rightarrow> Some (replace_server_in dead new r))"
    using rereplicate_files [OF assms] by blast
  have q: "query_metadata f st = r" using assms(2,3) by (simp add: query_metadata_def get_chunks_def at_file_def)
  define new where "new = (case map_of upd f of None \<Rightarrow> [] | Some n \<Rightarrow> n)"
  have "distinct (map cr_id new) \<and> (\<forall>c \<in> set new. \<exists>rs. (cr_id c, rs) \<in> set (group_keys cr_id (fr_chunks r)) \<and>
      replacement dead ?h rs c)"
  proof (cases "map_of upd f")
    case (Some n)
    then have "(f, n) \<in> set upd" by (rule map_of_SomeD)
    then obtain w2 w3 where "copy_chunks k net reg dead ?h f (group_keys cr_id (fr_chunks r)) w2 = (n, w3)"
      using copy_files_spec [OF u] mdb.listing_sorted [OF assms(1)] q by fastforce
    from copy_chunks_spec [OF this omap_wf_distinct [OF omap_wf_group_keys]] show ?thesis
      using Some by (simp add: new_def)
  qed (simp add: new_def)
  then have nd: "distinct (map cr_id new)"
    and repl: "\<forall>c \<in> set new. replacement dead ?h (filter (\<lambda>c0. cr_id c0 = cr_id c) (fr_chunks r)) c"
    by (auto simp: group_keys_mem)
  have srv: "cr_server c \<noteq> dead \<and> cr_server c \<in> set (get_addresses reg)" if "c \<in> set new" for c
    using repl that failover_servers_spec unfolding replacement_def by blast
  have keep: "filter (\<lambda>c. cr_server c \<noteq> dead) (filter (\<lambda>c. cr_server c \<noteq> dead) (fr_chunks r) @ new) =
      filter (\<lambda>c. cr_server c \<noteq> dead) (fr_chunks r) @ new"
    using srv by (simp add: filter_id_conv)
  obtain r' where r': "map_of (files st') f = Some r'" "fr_hash r' = fr_hash r"
    "fr_chunks r' = recount (filter (\<lambda>c. cr_server c \<noteq> dead) (case map_of upd f of None \<Rightarrow> fr_chunks r
       | Some n \<Rightarrow> recount (filter (\<lambda>c. cr_server c \<noteq> dead) (fr_chunks r) @ n)))"
    using m by (cases "map_of upd f") (simp_all add: replace_server_in_def Let_def)
  have "map (\<lambda>c. c\<lparr>cr_replicas := 0\<rparr>) (fr_chunks r') =
      map (\<lambda>c. c\<lparr>cr_replicas := 0\<rparr>) (filter (\<lambda>c. cr_server c \<noteq> dead) (fr_chunks r) @ new)"
  proof (cases "map_of upd f")
    case (Some n)
    then show ?thesis using keep recount_cong [OF map_recount, of dead] by (simp add: r'(3) map_recount new_def)
  qed (simp add: r'(3) map_recount new_def)
  moreover have "counted_chunks (fr_chunks r')" by (simp add: r'(3))
  ultimately show ?thesis using r'(1,2) nd repl srv by blast
qed

definition sample_registry :: registry where
  "sample_registry = fst (add_server 0 ''c'' 3 8180 8280 new_registry)"

theorem failover_rewrites_witness:
  "\<exists>r'. map_of (files (fst (rereplicate_dead_server_chunks field_codec (\<lambda>ip port bs w. (None, w)) sample_registry
      (new_monitor 60 10) ''s1'' sample_store ()))) ''a'' = Some r' \<and> ''s1'' \<notin> cr_server ` set (fr_chunks r')"
proof -
  let ?h = "failover_servers ''s1'' sample_registry (new_monitor 60 10)"
  let ?run = "rereplicate_dead_server_chunks field_codec (\<lambda>ip port bs w. (None, w)) sample_registry
      (new_monitor 60 10) ''s1'' sample_store ()"
  have "get_addresses sample_registry = [''c:'' @ show_int 3]"
    by (simp add: sample_registry_def add_server_def new_registry_def get_addresses_def address_def)
  then have h: "?h \<noteq> []"
    by (simp add: failover_servers_def get_all_health_def new_monitor_def)
  have wf: "umap_wf (files sample_store)" by (simp add: sample_store_def umap_wf_def)
  have ne: "''a'' \<noteq> []" by simp
  have run: "?run = (fst ?run, snd ?run)" by (rule surjective_pairing)
  from failover_rewrites [OF wf sample_lookup ne h run]
  obtain r' new where r': "map_of (files (fst ?run)) ''a'' = Some r'"
    "map (\<lambda>c. c\<lparr>cr_replicas := 0\<rparr>) (fr_chunks r') =
      map (\<lambda>c. c\<lparr>cr_replicas := 0\<rparr>) (filter (\<lambda>c. cr_server c \<noteq> ''s1'') (fr_chunks sample_record) @ new)"
    "\<forall>c \<in> set new. cr_server c \<noteq> ''s1''"
    by blast
  have "map cr_server (fr_chunks r') = map cr_server (filter (\<lambda>c. cr_server c \<noteq> ''s1'') (fr_chunks sample_record) @ new)"
    by (rule sample_servers [OF r'(2)])
  then have "cr_server ` set (fr_chunks r') = cr_server ` set (filter (\<lambda>c. cr_server c \<noteq> ''s1'') (fr_chunks sample_record) @ new)"
    by (metis list.set_map)
  then show ?thesis using r'(1,3) by auto
qed

text \<open>C35. A failover changes the registry and the metadata only after the vote has found the server dead, and
  not while one for the same address is under way; in every case the set of addresses under recovery is
  what it was.\<close>

theorem failover_gated:
  assumes "on_server_unhealthy_callback k net ctl http mon zk_up zk cfg_heads our_port now sid health hs w = (hs', w')"
  shows "hs_recovering hs' = hs_recovering hs \<and>
    (hs' \<noteq> hs \<longrightarrow> sh_ip health \<notin> set (hs_recovering hs) \<and>
       fst (verify_cluster_server_dead_consensus http zk_up zk cfg_heads our_port now sid w))"
  using assms by (auto simp: on_server_unhealthy_callback_def Let_def removeAll_id split: prod.splits if_splits)

theorem failover_gated_witness:
  "fst (on_server_unhealthy_callback field_codec (\<lambda>ip port bs w. (None, w)) (\<lambda>ip port m w. (None, w)) (\<lambda>ip port m w. (None, w))
     (new_monitor 60 10) False zk_init [] 9670 0 1 (default_health\<lparr>sh_ip := ''c:3''\<rparr>)
     \<lparr>hs_registry = sample_registry, hs_metadata = sample_store, hs_recovering = [''c:3'']\<rparr> ()) =
   \<lparr>hs_registry = sample_registry, hs_metadata = sample_store, hs_recovering = [''c:3'']\<rparr>"
  by (rule ccontr) (drule failover_gated [OF surjective_pairing, THEN conjunct2, THEN mp], simp)

text \<open>A heartbeat datagram is parsed only within its bounds, although the bound is checked in 32-bit
  arithmetic: a message is accepted only if the announced length fits in what was received.\<close>

theorem datagram_bounds:
  assumes "parse_datagram dec buf = Some hb" "length buf \<le> 8192"
  shows "4 + unat (ntohl_bytes (take 4 buf)) \<le> length buf \<and>
    dec (take (unat (ntohl_bytes (take 4 buf))) (drop 4 buf)) = Some hb"
proof -
  let ?n = "ntohl_bytes (take 4 buf)"
  have n: "unat ?n < 2 ^ 31" "unat (4 + ?n) \<le> length buf"
    and d: "dec (take (unat ?n) (drop 4 buf)) = Some hb"
    using assms(1) by (simp_all add: parse_datagram_def Let_def split: if_splits)
  have "unat (4 + ?n) = 4 + unat ?n"
    using n(1) by (subst unat_plus_if_size) (simp add: word_size)
  then show ?thesis using n(2) d by simp
qed

theorem datagram_bounds_witness:
  "4 + unat (ntohl_bytes (take 4 [0, 0, 0, 1, 9 :: byte])) \<le> 5"
proof -
  define hb where "hb = \<lparr>hb_id = 1, hb_ip = [], hb_cpu = 0, hb_ram = 0, hb_disk = 0, hb_net_in = [], hb_net_out = [],
    hb_net_in_bps = 0, hb_net_out_bps = 0\<rparr>"
  have "parse_datagram (\<lambda>b. Some hb) [0, 0, 0, 1, 9] = Some hb"
    by (simp add: parse_datagram_def ntohl_bytes_def)
  from datagram_bounds [OF this] show ?thesis by simp
qed

end
