(* ===== verification/Head_Server.thy ===== *)
theory Head_Server
  imports Failover
begin

text \<open>
  The client port and the start of the head server, \<^verbatim>\<open>run_head_server\<close> of
  \<^verbatim>\<open>src/head_server/head_server.cpp\<close>.  Each client is served by a detached thread without an exception
  handler: \<open>Inl\<close> is an exception that leaves the thread, which terminates the process.
\<close>

definition strip_eol :: "string \<Rightarrow> string" where
  "strip_eol s = rev (dropWhile (\<lambda>c. c = nl \<or> c = cr) (rev s))"

text \<open>\<^verbatim>\<open>filename.erase(filename.find_last_not_of(" \n\r\t") + 1)\<close>.\<close>

definition strip_blank :: "string \<Rightarrow> string" where
  "strip_blank s = rev (dropWhile (\<lambda>c. c = CHR '' '' \<or> c = nl \<or> c = cr \<or> c = tab) (rev s))"

text \<open>\<open>first\<close> is what the first \<^verbatim>\<open>recv\<close> returned, \<open>input\<close> what the client sends afterwards.  The result is the
  metadata, the text sent and the world.\<close>

definition handle_client ::
  "'w head_env \<Rightarrow> sorter \<Rightarrow> 'w ctl \<Rightarrow> string \<Rightarrow> byte list \<Rightarrow> mstore \<Rightarrow> 'w \<Rightarrow> cxx_exn + mstore \<times> string \<times> 'w" where
  "handle_client env srt ctl first input st w =
     (if first = [] then Inr (st, [], w)
      else
        (let req = takeWhile (\<lambda>c. c \<noteq> CHR 0x00) first in
         if starts_with ''DOWNLOAD '' req then
           (let (out, w') = handle_client_download (he_codec env) (he_net env) srt (he_registry env) st
                  (strip_eol (drop 9 req)) w
            in Inr (st, out, w'))
         else if starts_with ''DELETE '' req
         then Inr (handle_client_delete ctl (strip_blank (drop 7 req)) st w)
         else if starts_with ''UPLOAD '' req then
           (case handle_client_upload env (strip_eol req) input st w of
              Inl x \<Rightarrow> Inl x
            | Inr (out, st', w') \<Rightarrow> Inr (st', out, w'))
         else if starts_with ''LIST'' req
         then Inr (st, concat (map (\<lambda>f. f @ [nl]) (list_files_snapshot st)) @ ''EOF'' @ [nl], w)
         else Inr (st, [], w)))"

text \<open>The servers of the configuration enter the registry and the health monitor at start-up.\<close>

fun load_config_servers ::
  "int \<Rightarrow> (int \<times> string \<times> int) list \<Rightarrow> registry \<times> monitor \<Rightarrow> registry \<times> monitor" where
  "load_config_servers now [] s = s"
| "load_config_servers now ((sid, host, port) # cs) (reg, mon) =
     load_config_servers now cs
       (fst (add_server now host port (-1) (-1) reg), register_server now sid (host @ '':'' @ show_int port) mon)"

section \<open>Properties\<close>

lemma strip_eol_line: "l \<noteq> [] \<Longrightarrow> List.last l \<noteq> nl \<Longrightarrow> List.last l \<noteq> cr \<Longrightarrow> strip_eol (l @ [nl]) = l"
  by (cases l rule: rev_cases) (simp_all add: strip_eol_def)

lemma word_ok_last: "word_ok h \<Longrightarrow> List.last (s @ h) \<noteq> nl \<and> List.last (s @ h) \<noteq> cr \<and> s @ h \<noteq> []"
proof -
  assume h: "word_ok h"
  then have "h \<noteq> []" "\<not> is_space (List.last h)" by (auto simp: word_ok_def)
  then show ?thesis by (auto simp: is_space_def nl_def cr_def)
qed

lemma takeWhile_all: "\<forall>c \<in> set s. P c \<Longrightarrow> takeWhile P s = s"
  by (induction s) auto

text \<open>C37. The client port of the head server: a request that is not an upload always gets its reply and
  never raises; but an upload whose size is not a number raises an exception that no handler of its thread
  catches, so one malformed line from any client terminates the head server.\<close>

theorem client_request_exceptions:
  assumes "word_ok f" "word_ok x" "word_ok y" "word_ok h" "parse_number x = None"
    and "CHR 0x00 \<notin> set (f @ x @ y @ h)"
  shows "(\<not> starts_with ''UPLOAD '' req \<and> CHR 0x00 \<notin> set req \<longrightarrow> (\<exists>r. handle_client env srt ctl req input st w = Inr r)) \<and>
    handle_client env srt ctl (''UPLOAD '' @ f @ '' '' @ x @ '' '' @ y @ '' '' @ h @ [nl]) input st w = Inl Invalid_argument"
proof -
  let ?l = "''UPLOAD '' @ f @ '' '' @ x @ '' '' @ y @ '' '' @ h"
  have "\<exists>r. handle_client env srt ctl req input st w = Inr r" if "\<not> starts_with ''UPLOAD '' req" "CHR 0x00 \<notin> set req"
  proof -
    have t0: "takeWhile (\<lambda>c. c \<noteq> CHR 0x00) req = req" using that(2) by (intro takeWhile_all) auto
    have "handle_client env srt ctl req input st w = Inr (projr (handle_client env srt ctl req input st w))"
      unfolding handle_client_def Let_def t0 using that(1) by (simp add: case_prod_unfold)
    then show ?thesis by (rule exI)
  qed
  moreover have t: "takeWhile (\<lambda>c. c \<noteq> CHR 0x00) (?l @ [nl]) = ?l @ [nl]"
    using assms(6) by (intro takeWhile_all) (auto simp: nl_def)
  have "List.last ?l \<noteq> nl \<and> List.last ?l \<noteq> cr \<and> ?l \<noteq> []"
    using word_ok_last [OF assms(4), of "''UPLOAD '' @ f @ '' '' @ x @ '' '' @ y @ '' ''"] unfolding append_assoc .
  then have "strip_eol (?l @ [nl]) = ?l" by (intro strip_eol_line) blast+
  then have "handle_client env srt ctl (?l @ [nl]) input st w = Inl Invalid_argument"
    using parse_upload_throws [OF assms(1-5)] unfolding handle_client_def Let_def t
    by (simp add: starts_with_def handle_client_upload_def)
  ultimately show ?thesis by simp
qed

theorem client_request_exceptions_witness:
  "handle_client sample_head id (\<lambda>ip port m w. (None, w)) (''UPLOAD '' @ ''f'' @ '' '' @ ''x'' @ '' '' @ ''1'' @ '' '' @ ''h'' @ [nl])
     [] (open_store None True) () = Inl Invalid_argument"
  using client_request_exceptions [of "''f''" "''x''" "''1''" "''h''", of "[]" sample_head id "\<lambda>ip port m w. (None, w)" "[]" "open_store None True" "()"]
  by (simp add: word_ok_def is_space_def parse_number_nondigit is_digit_def)

text \<open>The identifiers of the configuration and of the registry are different things: the registry numbers
  servers by position, the health monitor knows them by the configured identifier, and a failover passes the
  one where the other is meant.  With two configured servers, the failure of the one whose identifier is 1
  removes the other one from the registry.\<close>

theorem config_ids_mixed:
  "(let s = load_config_servers 0 [(5, ''a'', 9), (1, ''b'', 9)] (new_registry, new_monitor 60 10) in
    map_option sh_ip (map_of (tracked (snd s)) 1) = Some ''b:9'' \<and>
    get_addresses (fst (remove_server 1 (fst s))) = [''b:9''])"
  by code_simp

end
