(* ===== verification/Chunk_Storage.thy ===== *)
theory Chunk_Storage
  imports Cxx_Prelude Net_Utils Transition_System
begin

text \<open>
  The chunk store of a cluster server, class \<^verbatim>\<open>ChunkStorage\<close> of
  \<^verbatim>\<open>src/cluster_server/chunk_service.cpp\<close>.  The file system is an association list from paths to
  contents; what \<^verbatim>\<open>open\<close>, \<^verbatim>\<open>write\<close>, \<^verbatim>\<open>read\<close> and \<^verbatim>\<open>fs::remove\<close> do at each call is an argument, in
  the style of \<^verbatim>\<open>Net_Utils\<close> (\<open>Again\<close> stands for \<^verbatim>\<open>EINTR\<close> here).  The abstract view is a map from
  chunk ids to bytes; the main lemmas say that store, retrieve and delete implement it.
\<close>

record storage =
  storage_path :: string
  chunk_registry :: "(string \<times> string) list"
  seq :: "64 word"
  filesys :: "(string \<times> byte list) list"

text \<open>\<^verbatim>\<open>ensure_storage_directory\<close> and the constructor: \<open>ok1\<close> and \<open>ok2\<close> say whether the configured and
  the fallback directory can be created and written; \<open>None\<close> is the exception.\<close>

definition ensure_storage_directory :: "bool \<Rightarrow> bool \<Rightarrow> string \<Rightarrow> string option" where
  "ensure_storage_directory ok1 ok2 path =
     (if ok1 then Some path else if ok2 then Some ''/tmp/cluster_storage/'' else None)"

definition new_storage :: "string \<Rightarrow> bool \<Rightarrow> bool \<Rightarrow> (string \<times> byte list) list \<Rightarrow> storage option" where
  "new_storage chunk_dir ok1 ok2 files0 =
     (let path = (if chunk_dir \<noteq> [] \<and> last chunk_dir \<noteq> CHR ''/'' then chunk_dir @ ''/'' else chunk_dir)
      in map_option (\<lambda>p. \<lparr>storage_path = p, chunk_registry = [], seq = 0, filesys = files0\<rparr>)
           (ensure_storage_directory ok1 ok2 path))"

definition chunk_path :: "string \<Rightarrow> string \<Rightarrow> int \<Rightarrow> 64 word \<Rightarrow> string" where
  "chunk_path base chunk_id epoch_us n =
     base @ ''chunk_'' @ chunk_id @ ''_'' @ show_int epoch_us @ ''_'' @ show_int (uint n) @ ''.dat''"

definition generate_chunk_path :: "string \<Rightarrow> int \<Rightarrow> storage \<Rightarrow> string \<times> storage" where
  "generate_chunk_path chunk_id epoch_us st =
     (let n = seq st + 1 in (chunk_path (storage_path st) chunk_id epoch_us n, st\<lparr>seq := n\<rparr>))"

text \<open>The write loop: the flag and what has reached the file.\<close>

fun write_loop :: "byte list \<Rightarrow> io_res list \<Rightarrow> (bool \<times> byte list) option" where
  "write_loop data ws =
     (if data = [] then Some (True, [])
      else case ws of
        [] \<Rightarrow> None
      | Ready n # ws' \<Rightarrow> map_option (\<lambda>(ok, w). (ok, take n data @ w)) (write_loop (drop n data) ws')
      | Again _ # ws' \<Rightarrow> write_loop data ws'
      | Fail # ws' \<Rightarrow> Some (False, []))"

text \<open>The read loop on what is left of the file: \<open>None\<close> inside is the error return; a read of zero
  bytes ends the loop and leaves the rest of the buffer zero.\<close>

fun read_loop :: "byte list \<Rightarrow> io_res list \<Rightarrow> byte list option option" where
  "read_loop rest rs =
     (if rest = [] then Some (Some [])
      else case rs of
        [] \<Rightarrow> None
      | Ready n # rs' \<Rightarrow>
          (if n = 0 then Some (Some (replicate (length rest) 0))
           else map_option (map_option (\<lambda>b. take n rest @ b)) (read_loop (drop n rest) rs'))
      | Again _ # rs' \<Rightarrow> read_loop rest rs'
      | Fail # rs' \<Rightarrow> Some None)"

declare write_loop.simps [simp del] read_loop.simps [simp del]

definition async_store_chunk ::
  "string \<Rightarrow> byte list \<Rightarrow> int \<Rightarrow> bool \<Rightarrow> io_res list \<Rightarrow> storage \<Rightarrow> (storage \<times> bool \<times> string) option" where
  "async_store_chunk chunk_id data epoch_us open_ok ws st =
     (let (path, st1) = generate_chunk_path chunk_id epoch_us st in
      if \<not> open_ok then Some (st1, False, [])
      else map_option (\<lambda>(ok, w).
        (let st2 = st1\<lparr>filesys := AList.update path w (filesys st1)\<rparr> in
         if ok then (st2\<lparr>chunk_registry := AList.update chunk_id path (chunk_registry st2)\<rparr>, True, path)
         else (st2, False, []))) (write_loop data ws))"

definition async_retrieve_chunk ::
  "string \<Rightarrow> string \<Rightarrow> bool \<Rightarrow> io_res list \<Rightarrow> storage \<Rightarrow> (storage \<times> byte list) option" where
  "async_retrieve_chunk chunk_id fallback_path open_ok rs st =
     (let found = (case map_of (chunk_registry st) chunk_id of
            Some p \<Rightarrow> Some (p, st)
          | None \<Rightarrow>
              if fallback_path \<noteq> [] \<and> map_of (filesys st) fallback_path \<noteq> None
              then Some (fallback_path,
                st\<lparr>chunk_registry := AList.update chunk_id fallback_path (chunk_registry st)\<rparr>)
              else None)
      in case found of
           None \<Rightarrow> Some (st, [])
         | Some (p, st1) \<Rightarrow>
             (case map_of (filesys st1) p of
                None \<Rightarrow> Some (st1, [])
              | Some content \<Rightarrow>
                  if \<not> open_ok then Some (st1, [])
                  else map_option (\<lambda>r. (st1, case r of None \<Rightarrow> [] | Some b \<Rightarrow> b)) (read_loop content rs)))"

text \<open>\<^verbatim>\<open>fs::remove\<close> may throw; the registry entry is gone by then.\<close>

definition delete_chunk :: "string \<Rightarrow> bool \<Rightarrow> storage \<Rightarrow> storage \<times> bool" where
  "delete_chunk chunk_id remove_ok st =
     (case map_of (chunk_registry st) chunk_id of
        None \<Rightarrow> (st, False)
      | Some p \<Rightarrow>
          (let st1 = st\<lparr>chunk_registry := AList.delete chunk_id (chunk_registry st)\<rparr> in
           if remove_ok then (st1\<lparr>filesys := AList.delete p (filesys st1)\<rparr>, True) else (st1, False)))"

definition list_chunks :: "storage \<Rightarrow> string list" where
  "list_chunks st = map fst (chunk_registry st)"

definition get_storage_usage :: "storage \<Rightarrow> nat" where
  "get_storage_usage st =
     sum_list (map (\<lambda>(p, b). length b) (filter (\<lambda>(p, b). starts_with (storage_path st) p) (filesys st)))"

section \<open>The loops\<close>

lemma write_loop_cases:
  "write_loop [] ws = Some (True, [])"
  "d \<noteq> [] \<Longrightarrow> write_loop d [] = None"
  "d \<noteq> [] \<Longrightarrow> write_loop d (Ready n # ws) =
     map_option (\<lambda>(ok, w). (ok, take n d @ w)) (write_loop (drop n d) ws)"
  "d \<noteq> [] \<Longrightarrow> write_loop d (Again e # ws) = write_loop d ws"
  "d \<noteq> [] \<Longrightarrow> write_loop d (Fail # ws) = Some (False, [])"
  by (simp_all add: write_loop.simps [of "[]"] write_loop.simps [of d "[]"]
      write_loop.simps [of d "Ready n # ws"] write_loop.simps [of d "Again e # ws"]
      write_loop.simps [of d "Fail # ws"])

lemma read_loop_cases:
  "read_loop [] rs = Some (Some [])"
  "d \<noteq> [] \<Longrightarrow> read_loop d [] = None"
  "d \<noteq> [] \<Longrightarrow> read_loop d (Ready n # rs) =
     (if n = 0 then Some (Some (replicate (length d) 0))
      else map_option (map_option (\<lambda>b. take n d @ b)) (read_loop (drop n d) rs))"
  "d \<noteq> [] \<Longrightarrow> read_loop d (Again e # rs) = read_loop d rs"
  "d \<noteq> [] \<Longrightarrow> read_loop d (Fail # rs) = Some None"
  by (simp_all add: read_loop.simps [of "[]"] read_loop.simps [of d "[]"]
      read_loop.simps [of d "Ready n # rs"] read_loop.simps [of d "Again e # rs"]
      read_loop.simps [of d "Fail # rs"])

lemma write_loop_ok: "write_loop d ws = Some (True, w) \<Longrightarrow> w = d"
proof (induction ws arbitrary: d w)
  case Nil
  then show ?case by (cases "d = []") (simp_all add: write_loop_cases)
next
  case (Cons r ws)
  show ?case
  proof (cases "d \<noteq> [] \<and> (\<exists>n. r = Ready n)")
    case True
    then obtain n where r: "r = Ready n" "d \<noteq> []" by blast
    then obtain w' where "write_loop (drop n d) ws = Some (True, w')" "w = take n d @ w'"
      using Cons.prems by (auto simp: write_loop_cases)
    then show ?thesis using Cons.IH by (metis append_take_drop_id)
  next
    case False
    then show ?thesis
      using Cons.prems Cons.IH [of d w] by (cases "d = []"; cases r) (simp_all add: write_loop_cases)
  qed
qed

text \<open>A read that never gets zero bytes and no error returns the file.\<close>

lemma read_loop_full:
  "Ready 0 \<notin> set rs \<Longrightarrow> Fail \<notin> set rs \<Longrightarrow> read_loop d rs = Some r \<Longrightarrow> r = Some d"
proof (induction rs arbitrary: d r)
  case Nil
  then show ?case by (cases "d = []") (simp_all add: read_loop_cases)
next
  case (Cons x rs)
  show ?case
  proof (cases "d \<noteq> [] \<and> (\<exists>n. x = Ready n)")
    case True
    then obtain n where x: "x = Ready n" "d \<noteq> []" "n \<noteq> 0" using Cons.prems(1) by auto
    then obtain r' where "read_loop (drop n d) rs = Some r'" "r = map_option (\<lambda>b. take n d @ b) r'"
      using Cons.prems(3) by (auto simp: read_loop_cases)
    moreover have "r' = Some (drop n d)" using Cons.IH Cons.prems(1,2) calculation(1) by simp
    ultimately show ?thesis by simp
  next
    case False
    then show ?thesis
      using Cons.prems Cons.IH [of d r] by (cases "d = []"; cases x) (simp_all add: read_loop_cases)
  qed
qed

text \<open>Both loops end once enough calls move a byte.\<close>

lemma write_loop_completes:
  "Fail \<notin> set ws \<Longrightarrow> length d \<le> progress ws \<Longrightarrow> write_loop d ws = Some (True, d)"
proof (induction ws arbitrary: d)
  case (Cons r ws)
  show ?case
  proof (cases "d = [] \<or> r = Ready 0 \<or> (\<exists>e. r = Again e)")
    case True
    then show ?thesis
      using Cons.prems Cons.IH [of d] by (cases "d = []") (auto simp: write_loop_cases progress_def)
  next
    case False
    then obtain n where r: "r = Ready (Suc n)" "d \<noteq> []"
      using Cons.prems(1) by (cases r) (auto simp: gr0_conv_Suc)
    then have "write_loop (drop (Suc n) d) ws = Some (True, drop (Suc n) d)"
      using Cons.prems by (intro Cons.IH) (auto simp: progress_def)
    then show ?thesis using r by (simp add: write_loop_cases)
  qed
qed (simp add: write_loop_cases progress_def)

lemma read_loop_completes:
  "Fail \<notin> set rs \<Longrightarrow> Ready 0 \<notin> set rs \<Longrightarrow> length d \<le> progress rs \<Longrightarrow> read_loop d rs = Some (Some d)"
proof (induction rs arbitrary: d)
  case (Cons r rs)
  show ?case
  proof (cases "d = [] \<or> (\<exists>e. r = Again e)")
    case True
    then show ?thesis
      using Cons.prems Cons.IH [of d] by (cases "d = []") (auto simp: read_loop_cases progress_def)
  next
    case False
    then obtain n where r: "r = Ready (Suc n)" "d \<noteq> []"
      using Cons.prems(1,2) by (cases r) (auto simp: gr0_conv_Suc)
    then have "read_loop (drop (Suc n) d) rs = Some (Some (drop (Suc n) d))"
      using Cons.prems by (intro Cons.IH) (auto simp: progress_def)
    then show ?thesis using r by (simp add: read_loop_cases)
  qed
qed (simp add: read_loop_cases progress_def)

section \<open>The abstract store\<close>

definition chunk_map :: "storage \<Rightarrow> string \<rightharpoonup> byte list" where
  "chunk_map st i = (case map_of (chunk_registry st) i of None \<Rightarrow> None | Some p \<Rightarrow> map_of (filesys st) p)"

text \<open>Every registered path was generated by this process and exists, and no two chunks share one.  So it is from the
  start of the process until a chunk is registered under a fallback path, which may be any existing file.\<close>

definition storage_inv :: "storage \<Rightarrow> bool" where
  "storage_inv st \<longleftrightarrow> umap_wf (chunk_registry st) \<and> umap_wf (filesys st) \<and>
     (\<forall>i p. map_of (chunk_registry st) i = Some p \<longrightarrow> map_of (filesys st) p \<noteq> None \<and>
        (\<exists>j t n. p = chunk_path (storage_path st) j t n \<and> unat n \<le> unat (seq st))) \<and>
     (\<forall>i j p. map_of (chunk_registry st) i = Some p \<longrightarrow> map_of (chunk_registry st) j = Some p \<longrightarrow> i = j)"

definition room :: "storage \<Rightarrow> bool" where
  "room st \<longleftrightarrow> unat (seq st) + 1 < 2 ^ 64"

lemma last_field_unique:
  fixes c :: char
  assumes "c \<notin> set u" "c \<notin> set v" "xs @ c # u = ys @ c # v"
  shows "u = v"
proof -
  have "length xs = length ys"
    using find_last_char_append [OF assms(1), of xs] find_last_char_append [OF assms(2), of ys] assms(3)
    by simp
  then show ?thesis using assms(3) by simp
qed

lemma chunk_path_seq:
  assumes "chunk_path b i t n = chunk_path b' i' t' n'"
  shows "n = n'"
proof -
  have u: "CHR ''_'' \<notin> set (show_int k)" for k
    using show_int_chars [of "CHR ''_''" k] by (auto simp: is_digit_def)
  have "(b @ ''chunk_'' @ i @ ''_'' @ show_int t) @ CHR ''_'' # show_int (uint n) @ ''.dat'' =
    (b' @ ''chunk_'' @ i' @ ''_'' @ show_int t') @ CHR ''_'' # show_int (uint n') @ ''.dat''"
    using assms by (simp add: chunk_path_def)
  from last_field_unique [OF _ _ this] have "show_int (uint n) @ ''.dat'' = show_int (uint n') @ ''.dat''"
    using u by simp
  then have "uint n = uint n'" by simp
  then show ?thesis by (rule unsigned_word_eqI)
qed

lemma generate_room: "room st \<Longrightarrow> unat (seq st + 1) = unat (seq st) + 1"
  unfolding room_def by (subst unat_plus_if_size) (simp add: word_size)

lemma store_fresh:
  assumes "storage_inv st" "room st" "map_of (chunk_registry st) i = Some p"
  shows "p \<noteq> chunk_path (storage_path st) j t (seq st + 1)"
proof
  assume e: "p = chunk_path (storage_path st) j t (seq st + 1)"
  obtain j' t' n where "p = chunk_path (storage_path st) j' t' n" "unat n \<le> unat (seq st)"
    using assms unfolding storage_inv_def by blast
  moreover from this have "n = seq st + 1" using e chunk_path_seq by blast
  ultimately show False using generate_room [OF assms(2)] by simp
qed

text \<open>The state after a write: the new path holds what was written, everything registered is as it
  was.\<close>

lemma written_inv:
  assumes inv: "storage_inv st" and rm: "room st"
    and p_def: "p = chunk_path (storage_path st) i t (seq st + 1)"
    and st2_def: "st2 = st\<lparr>seq := seq st + 1, filesys := AList.update p w (filesys st)\<rparr>"
  shows "storage_inv st2 \<and> chunk_map st2 = chunk_map st"
    and "storage_inv (st2\<lparr>chunk_registry := AList.update i p (chunk_registry st)\<rparr>) \<and>
      chunk_map (st2\<lparr>chunk_registry := AList.update i p (chunk_registry st)\<rparr>) = (chunk_map st)(i \<mapsto> w)"
proof -
  have fresh: "map_of (chunk_registry st) k \<noteq> Some p" for k
    using store_fresh [OF inv rm, of k _ i t] unfolding p_def by blast
  have old: "\<exists>j t n. q = chunk_path (storage_path st) j t n \<and> unat n \<le> unat (seq st + 1)"
    if k: "map_of (chunk_registry st) k = Some q" for k q
  proof -
    obtain j t n where "q = chunk_path (storage_path st) j t n" "unat n \<le> unat (seq st)"
      using inv k unfolding storage_inv_def by blast
    moreover have "unat (seq st) \<le> unat (seq st + 1)" using generate_room [OF rm] by simp
    ultimately show ?thesis by (blast intro: le_trans)
  qed
  have wf: "umap_wf (filesys st2)" "umap_wf (AList.update i p (chunk_registry st))"
    using inv by (auto simp: storage_inv_def st2_def intro: umap.wf_upd)
  note upd = umap.lookup_upd
  have ex: "map_of (filesys st) q \<noteq> None" if "map_of (chunk_registry st) k = Some q" for k q
    using inv that by (auto simp: storage_inv_def)
  have inj: "k = l" if "map_of (chunk_registry st) k = Some q" "map_of (chunk_registry st) l = Some q" for k l q
    using inv that by (auto simp: storage_inv_def)
  have new: "\<exists>j t n. p = chunk_path (storage_path st) j t n \<and> unat n \<le> unat (seq st + 1)"
    unfolding p_def by blast
  have "storage_inv st2"
    unfolding storage_inv_def
  proof (intro conjI allI impI)
    fix k q assume k: "map_of (chunk_registry st2) k = Some q"
    then have k': "map_of (chunk_registry st) k = Some q" by (simp add: st2_def)
    show "map_of (filesys st2) q \<noteq> None" using ex [OF k'] by (simp add: st2_def upd)
    show "\<exists>j t n. q = chunk_path (storage_path st2) j t n \<and> unat n \<le> unat (seq st2)"
      using old [OF k'] by (simp add: st2_def)
  qed (use wf inv inj in \<open>auto simp: st2_def storage_inv_def\<close>)
  moreover have "chunk_map st2 k = chunk_map st k" for k
    using fresh [of k] by (simp add: chunk_map_def st2_def upd split: option.split)
  ultimately show "storage_inv st2 \<and> chunk_map st2 = chunk_map st" by blast
  define st3 where "st3 = st2\<lparr>chunk_registry := AList.update i p (chunk_registry st)\<rparr>"
  have "storage_inv st3"
    unfolding storage_inv_def
  proof (intro conjI allI impI)
    fix k q assume k: "map_of (chunk_registry st3) k = Some q"
    show "map_of (filesys st3) q \<noteq> None"
      using k ex [of k q] by (cases "k = i") (simp_all add: st3_def st2_def upd)
    show "\<exists>j t n. q = chunk_path (storage_path st3) j t n \<and> unat n \<le> unat (seq st3)"
      using k old [of k q] new by (cases "k = i") (simp_all add: st3_def st2_def upd)
  next
    fix k l q assume "map_of (chunk_registry st3) k = Some q" "map_of (chunk_registry st3) l = Some q"
    then show "k = l"
      using fresh [of k] fresh [of l] inj [of k q l] by (simp add: st3_def st2_def upd split: if_splits)
  qed (use wf in \<open>simp_all add: st3_def st2_def\<close>)
  moreover have "chunk_map st3 k = ((chunk_map st)(i \<mapsto> w)) k" for k
    using fresh [of k] by (simp add: chunk_map_def st3_def st2_def upd split: option.split)
  ultimately show "storage_inv (st2\<lparr>chunk_registry := AList.update i p (chunk_registry st)\<rparr>) \<and>
      chunk_map (st2\<lparr>chunk_registry := AList.update i p (chunk_registry st)\<rparr>) = (chunk_map st)(i \<mapsto> w)"
    unfolding st3_def by blast
qed

lemma store_refines:
  assumes inv: "storage_inv st" and rm: "room st"
    and run: "async_store_chunk i d t open_ok ws st = Some (st', ok, path)"
  shows "storage_inv st' \<and> chunk_map st' = (if ok then (chunk_map st)(i \<mapsto> d) else chunk_map st)"
proof (cases "open_ok")
  case False
  then have "st' = st\<lparr>seq := seq st + 1\<rparr>" "\<not> ok"
    using run by (auto simp: async_store_chunk_def generate_chunk_path_def Let_def)
  moreover have "unat (seq st) \<le> unat (seq st + 1)" using generate_room [OF rm] by simp
  then have "storage_inv (st\<lparr>seq := seq st + 1\<rparr>)"
    using inv unfolding storage_inv_def by simp (meson le_trans)
  moreover have "chunk_map (st\<lparr>seq := seq st + 1\<rparr>) = chunk_map st"
    by (rule ext) (simp add: chunk_map_def split: option.split)
  ultimately show ?thesis by simp
next
  case True
  then obtain w where w: "write_loop d ws = Some (ok, w)"
    using run by (auto simp: async_store_chunk_def generate_chunk_path_def Let_def split: if_splits)
  have d: "ok \<Longrightarrow> w = d" using w write_loop_ok by auto
  show ?thesis
    using run w d True written_inv [OF inv rm refl refl, of i t w]
    by (auto simp: async_store_chunk_def generate_chunk_path_def Let_def split: if_splits)
qed

lemma delete_refines:
  assumes inv: "storage_inv st" and run: "delete_chunk i True st = (st', True)"
  shows "storage_inv st' \<and> chunk_map st' = (chunk_map st)(i := None)"
proof -
  obtain p where p: "map_of (chunk_registry st) i = Some p"
    and st': "st' = st\<lparr>chunk_registry := AList.delete i (chunk_registry st), filesys := AList.delete p (filesys st)\<rparr>"
    using run by (auto simp: delete_chunk_def Let_def split: option.splits)
  have wf: "umap_wf (chunk_registry st)" "umap_wf (filesys st)" using inv by (auto simp: storage_inv_def)
  note del = umap.lookup_del [OF wf(1)] umap.lookup_del [OF wf(2)]
  have other: "q \<noteq> p" if "map_of (chunk_registry st) k = Some q" "k \<noteq> i" for k q
    using inv p that by (auto simp: storage_inv_def)
  have "storage_inv st'"
    unfolding storage_inv_def st'
    using inv other wf
    by (auto simp: del umap.wf_del storage_inv_def split: if_splits)
  moreover have "chunk_map st' = (chunk_map st)(i := None)"
    using other unfolding st' by (auto simp: chunk_map_def del fun_eq_iff split: option.splits)
  ultimately show ?thesis by blast
qed

lemma retrieve_refines:
  assumes "storage_inv st" "Ready 0 \<notin> set rs" "Fail \<notin> set rs"
    and "map_of (chunk_registry st) i \<noteq> None"
    and "async_retrieve_chunk i fallback True rs st = Some (st', d)"
  shows "st' = st \<and> chunk_map st i = Some d"
proof -
  obtain p c where "map_of (chunk_registry st) i = Some p" "map_of (filesys st) p = Some c"
    using assms(1,4) by (fastforce simp: storage_inv_def)
  moreover from this obtain r where "read_loop c rs = Some r" "st' = st" "d = (case r of None \<Rightarrow> [] | Some b \<Rightarrow> b)"
    using assms(5) by (auto simp: async_retrieve_chunk_def Let_def)
  moreover have "r = Some c" by (rule read_loop_full [OF assms(2,3) calculation(3)])
  ultimately show ?thesis by (simp add: chunk_map_def)
qed

section \<open>The store interface\<close>

text \<open>
  What the connection handlers and the replication protocol rely on, chunk by chunk, so that it also covers chunks
  registered under fallback paths: a successful store makes the store hold the chunk under a path, every other call
  keeps it there, and what is read while it is there is what was stored.
\<close>

locale blob_store =
  fixes put :: "string \<Rightarrow> string \<Rightarrow> byte list \<Rightarrow> 's \<Rightarrow> 's \<Rightarrow> bool"
    and holds :: "string \<Rightarrow> string \<Rightarrow> byte list \<Rightarrow> 's \<Rightarrow> bool"
    and other :: "string \<Rightarrow> string \<Rightarrow> 's \<Rightarrow> 's \<Rightarrow> bool"
    and get :: "string \<Rightarrow> 's \<Rightarrow> byte list \<Rightarrow> bool"
  assumes put_holds: "put i p d s s' \<Longrightarrow> holds i p d s'"
    and other_holds: "holds i p d s \<Longrightarrow> other i p s s' \<Longrightarrow> holds i p d s'"
    and get_held: "holds i p d s \<Longrightarrow> get i s e \<Longrightarrow> e = d"
begin

lemma others_hold: "(other i p)\<^sup>*\<^sup>* s s' \<Longrightarrow> holds i p d s \<Longrightarrow> holds i p d s'"
  by (induction rule: rtranclp_induct) (auto intro: other_holds)

lemma put_get: "put i p d s s1 \<Longrightarrow> (other i p)\<^sup>*\<^sup>* s1 s2 \<Longrightarrow> get i s2 e \<Longrightarrow> e = d"
  using get_held others_hold put_holds by blast

end

text \<open>A store that succeeds, under a path that no other chunk is registered under; the calls that may come between it
  and a read: any store of another chunk, any failed store, any deletion of another chunk, and any read, with any
  fallback path but the one of this chunk's file; a read without errors of the disk.\<close>

definition stored :: "string \<Rightarrow> string \<Rightarrow> byte list \<Rightarrow> storage \<Rightarrow> storage \<Rightarrow> bool" where
  "stored i p d st st' \<longleftrightarrow> umap_wf (chunk_registry st) \<and> umap_wf (filesys st) \<and> room st \<and>
     (\<forall>k. k \<noteq> i \<longrightarrow> map_of (chunk_registry st) k \<noteq> Some p) \<and>
     (\<exists>t open_ok ws. async_store_chunk i d t open_ok ws st = Some (st', True, p))"

definition other_call :: "string \<Rightarrow> string \<Rightarrow> storage \<Rightarrow> storage \<Rightarrow> bool" where
  "other_call i p st st' \<longleftrightarrow>
     (\<exists>j d t open_ok ws ok q. room st \<and> (j \<noteq> i \<or> \<not> ok) \<and> async_store_chunk j d t open_ok ws st = Some (st', ok, q)) \<or>
     (\<exists>j remove_ok. j \<noteq> i \<and> st' = fst (delete_chunk j remove_ok st)) \<or>
     (\<exists>j fallback open_ok rs d. fallback \<noteq> p \<and> async_retrieve_chunk j fallback open_ok rs st = Some (st', d))"

definition fetched :: "string \<Rightarrow> storage \<Rightarrow> byte list \<Rightarrow> bool" where
  "fetched i st d \<longleftrightarrow> (\<exists>rs fallback st'. Ready 0 \<notin> set rs \<and> Fail \<notin> set rs \<and>
     async_retrieve_chunk i fallback True rs st = Some (st', d))"

text \<open>The chunk is in a file of its own, whose name cannot be generated again.\<close>

definition holds :: "string \<Rightarrow> string \<Rightarrow> byte list \<Rightarrow> storage \<Rightarrow> bool" where
  "holds i p d st \<longleftrightarrow> umap_wf (chunk_registry st) \<and> umap_wf (filesys st) \<and>
     map_of (chunk_registry st) i = Some p \<and> map_of (filesys st) p = Some d \<and>
     (\<forall>k. k \<noteq> i \<longrightarrow> map_of (chunk_registry st) k \<noteq> Some p) \<and>
     (\<exists>j t n. p = chunk_path (storage_path st) j t n \<and> unat n \<le> unat (seq st))"

lemma async_store_cases:
  assumes "async_store_chunk i d t open_ok ws st = Some (st', ok, q)"
  obtains (closed) "\<not> ok" "st' = st\<lparr>seq := seq st + 1\<rparr>"
  | (failed) w where "\<not> ok"
      "st' = st\<lparr>seq := seq st + 1, filesys := AList.update (chunk_path (storage_path st) i t (seq st + 1)) w (filesys st)\<rparr>"
  | (complete) "ok" "q = chunk_path (storage_path st) i t (seq st + 1)"
      "st' = st\<lparr>seq := seq st + 1, filesys := AList.update q d (filesys st), chunk_registry := AList.update i q (chunk_registry st)\<rparr>"
  using assms write_loop_ok [of d ws]
  by (auto simp: async_store_chunk_def generate_chunk_path_def Let_def split: if_splits)

lemma stored_holds: "stored i p d st st' \<Longrightarrow> holds i p d st'"
proof -
  assume s: "stored i p d st st'"
  then obtain t open_ok ws where run: "async_store_chunk i d t open_ok ws st = Some (st', True, p)"
    unfolding stored_def by blast
  have "\<exists>j t' n. chunk_path (storage_path st) i t (seq st + 1) = chunk_path (storage_path st) j t' n \<and> unat n \<le> unat (seq st + 1)"
    by blast
  with run show ?thesis
    by (cases rule: async_store_cases) (use s in \<open>simp_all add: holds_def stored_def umap.lookup_upd umap.wf_upd\<close>)
qed

lemma store_holds:
  assumes h: "holds i p d st" and run: "async_store_chunk j x t open_ok ws st = Some (st', ok, q)" "room st" "j \<noteq> i \<or> \<not> ok"
  shows "holds i p d st'"
proof -
  obtain j' t' n where n: "p = chunk_path (storage_path st) j' t' n" "unat n \<le> unat (seq st)"
    using h unfolding holds_def by blast
  have fresh: "chunk_path (storage_path st) j t (seq st + 1) \<noteq> p"
    using chunk_path_seq [of "storage_path st" j t "seq st + 1" "storage_path st" j' t' n] n generate_room [OF run(2)] by auto
  have later: "\<exists>j t n. p = chunk_path (storage_path st) j t n \<and> unat n \<le> unat (seq st + 1)"
    using n generate_room [OF run(2)] by (metis le_add1 le_trans)
  from run(1) show ?thesis
    by (cases rule: async_store_cases) (use h later fresh run(3) in \<open>auto simp: holds_def umap.lookup_upd intro: umap.wf_upd\<close>)
qed

lemma delete_holds: "holds i p d st \<Longrightarrow> j \<noteq> i \<Longrightarrow> holds i p d (fst (delete_chunk j remove_ok st))"
  unfolding holds_def delete_chunk_def Let_def
  by (cases "map_of (chunk_registry st) j"; cases remove_ok) (auto simp: umap.lookup_del umap.wf_del)

lemma async_retrieve_state:
  assumes "async_retrieve_chunk j fallback open_ok rs st = Some (st', d)"
  shows "st' = st \<or> map_of (chunk_registry st) j = None \<and> st' = st\<lparr>chunk_registry := AList.update j fallback (chunk_registry st)\<rparr>"
  using assms
  by (cases "map_of (chunk_registry st) j") (auto simp: async_retrieve_chunk_def Let_def split: option.splits if_splits)

lemma retrieve_holds:
  assumes "holds i p d st" "fallback \<noteq> p" "async_retrieve_chunk j fallback open_ok rs st = Some (st', e)"
  shows "holds i p d st'"
proof (cases "st' = st")
  case False
  then have n: "map_of (chunk_registry st) j = None" and st': "st' = st\<lparr>chunk_registry := AList.update j fallback (chunk_registry st)\<rparr>"
    using async_retrieve_state [OF assms(3)] by simp_all
  have "j \<noteq> i" using assms(1) n by (auto simp: holds_def)
  then show ?thesis using assms(1,2) unfolding st' by (auto simp: holds_def umap.lookup_upd intro: umap.wf_upd)
qed (use assms(1) in simp)

lemma fetched_held: "holds i p d st \<Longrightarrow> fetched i st e \<Longrightarrow> e = d"
proof -
  assume h: "holds i p d st" and "fetched i st e"
  then obtain rs fallback st' where r: "Ready 0 \<notin> set rs" "Fail \<notin> set rs" "async_retrieve_chunk i fallback True rs st = Some (st', e)"
    unfolding fetched_def by blast
  have "map_of (chunk_registry st) i = Some p" "map_of (filesys st) p = Some d" using h by (simp_all add: holds_def)
  then obtain x where x: "read_loop d rs = Some x" "e = (case x of None \<Rightarrow> [] | Some b \<Rightarrow> b)"
    using r(3) by (auto simp: async_retrieve_chunk_def Let_def)
  then show "e = d" using read_loop_full [OF r(1,2) x(1)] by simp
qed

interpretation chunks: blob_store stored holds other_call fetched
proof unfold_locales
  show "holds i p d s \<Longrightarrow> other_call i p s s' \<Longrightarrow> holds i p d s'" for i p d s s'
    unfolding other_call_def by (elim disjE exE conjE) (auto intro: store_holds delete_holds retrieve_holds)
qed (fact stored_holds fetched_held)+

section \<open>Properties\<close>

text \<open>C9. A chunk that was stored is read back byte for byte, through any interleaving with stores and deletions of other
  chunks, failed stores and reads of any chunk, and any partial writes, partial reads and interrupted calls of the
  kernel.  The condition is on reads that register a chunk the server does not know under the fallback path of the
  request: none of them names the file of this chunk.\<close>

theorem chunk_roundtrip:
  assumes "stored i p d st st1" "(other_call i p)\<^sup>*\<^sup>* st1 st2" "fetched i st2 e"
  shows "e = d"
  by (rule chunks.put_get [OF assms])

theorem chunk_roundtrip_witness:
  "async_retrieve_chunk ''a_chunk_0'' [] True [Ready 1, Ready 9]
     (fst (the (async_store_chunk ''a_chunk_0'' [1, 2] 7 True [Ready 1, Again 0, Ready 1]
        \<lparr>storage_path = ''/s/'', chunk_registry = [], seq = 0, filesys = []\<rparr>)))
   = Some (fst (the (async_store_chunk ''a_chunk_0'' [1, 2] 7 True [Ready 1, Again 0, Ready 1]
        \<lparr>storage_path = ''/s/'', chunk_registry = [], seq = 0, filesys = []\<rparr>)), [1, 2])"
proof -
  define st :: storage where "st = \<lparr>storage_path = ''/s/'', chunk_registry = [], seq = 0, filesys = []\<rparr>"
  define st1 where "st1 = fst (the (async_store_chunk ''a_chunk_0'' [1, 2] 7 True [Ready 1, Again 0, Ready 1] st))"
  have run: "\<exists>p. async_store_chunk ''a_chunk_0'' [1, 2] 7 True [Ready 1, Again 0, Ready 1] st
      = Some (st1, True, p)"
    by (simp add: st1_def st_def async_store_chunk_def generate_chunk_path_def Let_def write_loop_cases)
  have "room st" "umap_wf (chunk_registry st)" "umap_wf (filesys st)" "map_of (chunk_registry st) k = None" for k
    by (simp_all add: room_def st_def umap_wf_def)
  then obtain p where sto: "stored ''a_chunk_0'' p [1, 2] st st1" using run unfolding stored_def by auto
  have "\<exists>e. async_retrieve_chunk ''a_chunk_0'' [] True [Ready 1, Ready 9] st1 = Some (st1, e)"
    by (simp add: st1_def st_def async_store_chunk_def generate_chunk_path_def Let_def write_loop_cases
        async_retrieve_chunk_def read_loop_cases)
  then obtain e where e: "async_retrieve_chunk ''a_chunk_0'' [] True [Ready 1, Ready 9] st1 = Some (st1, e)" by blast
  have "Ready 0 \<notin> set [Ready 1, Ready 9] \<and> Fail \<notin> set [Ready 1, Ready 9]" by simp
  then have fe: "fetched ''a_chunk_0'' st1 e" using e unfolding fetched_def by blast
  have "e = [1, 2]" by (rule chunk_roundtrip [OF sto rtranclp.rtrancl_refl fe])
  then show ?thesis using e unfolding st1_def st_def by simp
qed

text \<open>C29. Why the condition is needed: a read of an unknown id with the path of a stored chunk as its fallback registers the
  id under that file, and deleting the id then removes the stored chunk, although its own id stays registered.\<close>

theorem alias_delete_loses:
  assumes "umap_wf (filesys st)" "map_of (chunk_registry st) i = Some p" "map_of (filesys st) p = Some c" "p \<noteq> []"
    and "map_of (chunk_registry st) j = None" "async_retrieve_chunk j p open_ok rs st = Some (st1, d)"
  shows "snd (delete_chunk j True st1) \<and> map_of (chunk_registry (fst (delete_chunk j True st1))) i = Some p \<and>
    async_retrieve_chunk i [] True rs' (fst (delete_chunk j True st1)) = Some (fst (delete_chunk j True st1), [])"
proof -
  have st1: "st1 = st\<lparr>chunk_registry := AList.update j p (chunk_registry st)\<rparr>"
    using assms by (auto simp: async_retrieve_chunk_def Let_def split: if_splits)
  have ij: "i \<noteq> j" using assms(2,5) by auto
  have del: "delete_chunk j True st1 =
      (st\<lparr>chunk_registry := AList.delete j (AList.update j p (chunk_registry st)), filesys := AList.delete p (filesys st)\<rparr>, True)"
    by (simp add: st1 delete_chunk_def update_conv')
  show ?thesis
    using assms(2) ij by (simp add: del async_retrieve_chunk_def delete_conv' update_conv')
qed

theorem alias_delete_loses_witness:
  "async_retrieve_chunk ''a'' [] True [] (fst (delete_chunk ''b'' True
     \<lparr>storage_path = ''/'', chunk_registry = [(''a'', ''/x''), (''b'', ''/x'')], seq = 1, filesys = [(''/x'', [5])]\<rparr>)) =
   Some (\<lparr>storage_path = ''/'', chunk_registry = [(''a'', ''/x'')], seq = 1, filesys = []\<rparr>, [])"
proof -
  let ?st = "\<lparr>storage_path = ''/'', chunk_registry = [(''a'', ''/x'')], seq = 1, filesys = [(''/x'', [5])]\<rparr> :: storage"
  let ?st1 = "?st\<lparr>chunk_registry := [(''a'', ''/x''), (''b'', ''/x'')]\<rparr>"
  have "async_retrieve_chunk ''b'' ''/x'' True [Ready 1] ?st = Some (?st1, [5])"
    by (simp add: async_retrieve_chunk_def read_loop_cases)
  then have "async_retrieve_chunk ''a'' [] True [] (fst (delete_chunk ''b'' True ?st1)) = Some (fst (delete_chunk ''b'' True ?st1), [])"
    by (intro alias_delete_loses [of ?st "''a''" "''/x''" "[5]" "''b''" True "[Ready 1]" ?st1 "[5]", THEN conjunct2, THEN conjunct2])
      (simp_all add: umap_wf_def)
  then show ?thesis by (simp add: delete_chunk_def)
qed

text \<open>C28. Refinement: on a store in which every chunk has a file of its own, generated by this process, a call of \<^verbatim>\<open>async_store_chunk\<close> that reports success
  binds the id to the data and nothing else, one that reports failure changes no chunk, and a
  deletion unbinds exactly its id.\<close>

theorem storage_refines_map:
  assumes "storage_inv st"
  shows "(room st \<and> async_store_chunk i d t open_ok ws st = Some (st', ok, path) \<longrightarrow>
      storage_inv st' \<and> chunk_map st' = (if ok then (chunk_map st)(i \<mapsto> d) else chunk_map st))
    \<and> (delete_chunk i True st = (st'', True) \<longrightarrow>
      storage_inv st'' \<and> chunk_map st'' = (chunk_map st)(i := None))"
  using store_refines [OF assms] delete_refines [OF assms] by blast

theorem storage_refines_map_witness:
  "chunk_map (fst (delete_chunk ''a'' True
     \<lparr>storage_path = [], chunk_registry = [(''a'', chunk_path [] ''a'' 7 1)], seq = 1,
       filesys = [(chunk_path [] ''a'' 7 1, [5])]\<rparr>)) ''a'' = None"
proof -
  define st :: storage where "st = \<lparr>storage_path = [], chunk_registry = [(''a'', chunk_path [] ''a'' 7 1)],
    seq = 1, filesys = [(chunk_path [] ''a'' 7 1, [5])]\<rparr>"
  have "\<exists>j t n. chunk_path [] ''a'' 7 1 = chunk_path [] j t n \<and> unat n \<le> unat (1 :: 64 word)"
    by (intro exI [of _ "''a''"] exI [of _ 7] exI [of _ 1]) simp
  then have "storage_inv st"
    by (simp add: storage_inv_def st_def umap_wf_def)
  moreover have "snd (delete_chunk ''a'' True st)" by (simp add: delete_chunk_def st_def)
  then have "delete_chunk ''a'' True st = (fst (delete_chunk ''a'' True st), True)"
    by (metis prod.collapse)
  ultimately have "chunk_map (fst (delete_chunk ''a'' True st)) = (chunk_map st)(''a'' := None)"
    using storage_refines_map by blast
  then show ?thesis unfolding st_def by simp
qed

end
