(* ===== verification/Cluster_Node.thy ===== *)
theory Cluster_Node
  imports Messages Chunk_Storage Sha256
begin

text \<open>
  The network face of a cluster server, class \<^verbatim>\<open>ClusterServerService\<close> of
  \<^verbatim>\<open>src/cluster_server/chunk_service.cpp\<close>: the framed transfer protocol (\<^verbatim>\<open>handle_connection\<close>), the
  line protocol for clients (\<^verbatim>\<open>handle_public_connection\<close>) and the emergency port
  (\<^verbatim>\<open>emergency_listener\<close>).  A connection is the byte stream the peer sends before it stops; the
  result is the new state and the bytes written back.  \<open>None\<close> means that the disk calls given in the
  environment do not suffice to finish.
\<close>

record node =
  nd_id :: int
  nd_ip :: string
  nd_port :: int
  nd_transfer_port :: int
  nd_public_port :: int
  store :: storage
  active_connections :: int
  is_dead :: bool

text \<open>What the operating system and the other servers contribute to one connection: the clock, the
  disk, the load, and the reply stream of a peer (\<open>None\<close>: the connect fails).\<close>

record node_env =
  ne_epoch :: int
  ne_open :: bool
  ne_writes :: "io_res list"
  ne_reads :: "io_res list"
  ne_cpu :: rat
  ne_ram :: rat
  ne_peer :: "string \<Rightarrow> int \<Rightarrow> byte list \<Rightarrow> byte list option"

definition ok_line :: "byte list" where
  "ok_line = str_bytes (''OK'' @ [nl])"

definition retrieve :: "node_env \<Rightarrow> string \<Rightarrow> string \<Rightarrow> node \<Rightarrow> (node \<times> byte list) option" where
  "retrieve e i fallback nd =
     map_option (\<lambda>(st, d). (nd\<lparr>store := st\<rparr>, d))
       (async_retrieve_chunk i fallback (ne_open e) (ne_reads e) (store nd))"

text \<open>Type 1.\<close>

definition handle_store :: "codec \<Rightarrow> node_env \<Rightarrow> byte list \<Rightarrow> node \<Rightarrow> (node \<times> byte list) option" where
  "handle_store k e buf nd =
     (case parse_from_array (dec_chunk k) buf of
        None \<Rightarrow> Some (nd, [])
      | Some req \<Rightarrow>
          map_option (\<lambda>(st, ok, path).
            (nd\<lparr>store := st\<rparr>,
             reply_frame (enc_chunk_resp k \<lparr>xr_ok = ok, xr_id = cm_id req,
               xr_error = (if ok then [] else ''Failed to store chunk on disk''), xr_path = path\<rparr>)))
            (async_store_chunk (cm_id req) (cm_data req) (ne_epoch e) (ne_open e) (ne_writes e) (store nd)))"

text \<open>Type 2.\<close>

definition handle_fetch :: "codec \<Rightarrow> node_env \<Rightarrow> byte list \<Rightarrow> node \<Rightarrow> (node \<times> byte list) option" where
  "handle_fetch k e buf nd =
     (case parse_from_array (dec_fetch k) buf of
        None \<Rightarrow> Some (nd, [])
      | Some req \<Rightarrow>
          map_option (\<lambda>(nd', d).
            (nd', reply_frame (enc_fetch_resp k \<lparr>fr_ok = (d \<noteq> []), fr_id = fm_id req, fr_data = d,
               fr_error = (if d \<noteq> [] then [] else ''Chunk not found on this server'')\<rparr>)))
            (retrieve e (fm_id req) (fm_path req) nd))"

text \<open>Type 3.\<close>

definition handle_hash :: "codec \<Rightarrow> node_env \<Rightarrow> byte list \<Rightarrow> node \<Rightarrow> (node \<times> byte list) option" where
  "handle_hash k e buf nd =
     (case parse_from_array (dec_fetch_hash k) buf of
        None \<Rightarrow> Some (nd, [])
      | Some req \<Rightarrow>
          map_option (\<lambda>(nd', d).
            (nd', reply_frame (enc_hash_resp k
               (if d \<noteq> []
                then \<lparr>hr_ok = True, hr_id = fm_id req, hr_hash = sha256 d, hr_error = [],
                  hr_load = ne_cpu e + ne_ram e, hr_active = active_connections nd'\<rparr>
                else \<lparr>hr_ok = False, hr_id = fm_id req, hr_hash = [],
                  hr_error = ''Chunk not found on this server'', hr_load = 0, hr_active = 0\<rparr>))))
            (retrieve e (fm_id req) (fm_path req) nd))"

text \<open>Type 4: the reply to a replication request for the bytes \<open>d\<close>.  When the target's reply does
  not arrive, the response keeps its default fields; when it does not parse, the error text of the
  target is taken to be empty.\<close>

definition replicate_reply :: "codec \<Rightarrow> node_env \<Rightarrow> repl_msg \<Rightarrow> byte list \<Rightarrow> repl_resp" where
  "replicate_reply k e req d =
     (if d = [] then \<lparr>rr_ok = False, rr_error = ''Chunk not found locally to replicate'', rr_path = []\<rparr>
      else
        (let tp = (if rm_target_transfer_port req = 0 then 8180 else rm_target_transfer_port req);
             frame = request_frame 1 (enc_chunk k
               \<lparr>cm_id = rm_id req, cm_filename = rm_filename req, cm_data = d\<rparr>) in
         case ne_peer e (rm_target_ip req) tp frame of
           None \<Rightarrow> \<lparr>rr_ok = False, rr_error = ''Failed to connect to target cluster server'', rr_path = []\<rparr>
         | Some s \<Rightarrow>
             (case read_reply s of
                None \<Rightarrow> \<lparr>rr_ok = False, rr_error = [], rr_path = []\<rparr>
              | Some rbuf \<Rightarrow>
                  (case parse_from_array (dec_chunk_resp k) rbuf of
                     None \<Rightarrow> \<lparr>rr_ok = False, rr_error = ''Target server rejected chunk: '', rr_path = []\<rparr>
                   | Some c \<Rightarrow>
                       if xr_ok c then \<lparr>rr_ok = True, rr_error = [], rr_path = xr_path c\<rparr>
                       else \<lparr>rr_ok = False, rr_error = ''Target server rejected chunk: '' @ xr_error c,
                         rr_path = []\<rparr>))))"

definition handle_replicate :: "codec \<Rightarrow> node_env \<Rightarrow> byte list \<Rightarrow> node \<Rightarrow> (node \<times> byte list) option" where
  "handle_replicate k e buf nd =
     (case parse_from_array (dec_repl k) buf of
        None \<Rightarrow> Some (nd, [])
      | Some req \<Rightarrow>
          map_option (\<lambda>(nd', d). (nd', reply_frame (enc_repl_resp k (replicate_reply k e req d))))
            (retrieve e (rm_id req) [] nd))"

text \<open>The dispatch on the first bytes; a short read raises and the connection is closed.\<close>

definition kill_word :: "byte list \<Rightarrow> bool" where
  "kill_word w \<longleftrightarrow> w = str_bytes ''DEAD'' \<or> w = str_bytes ''KILL''"

definition serve :: "codec \<Rightarrow> node_env \<Rightarrow> byte list \<Rightarrow> node \<Rightarrow> (node \<times> byte list) option" where
  "serve k e s nd =
     (if length s < 4 then Some (nd, [])
      else if kill_word (take 4 s) then Some (nd\<lparr>is_dead := True\<rparr>, ok_line)
      else if length s < 8 then Some (nd, [])
      else
        (let type = ntohl_bytes (take 4 s); len = unat (ntohl_bytes (take 4 (drop 4 s))); rest = drop 8 s in
         if type = 99 then Some (nd\<lparr>is_dead := True\<rparr>, ok_line)
         else if length rest < len then Some (nd, [])
         else if type = 1 then handle_store k e (take len rest) nd
         else if type = 2 then handle_fetch k e (take len rest) nd
         else if type = 3 then handle_hash k e (take len rest) nd
         else if type = 4 then handle_replicate k e (take len rest) nd
         else Some (nd, [])))"

text \<open>\<^verbatim>\<open>ConnectionTracker\<close> counts the connection while the handler runs.\<close>

definition track :: "(node \<Rightarrow> (node \<times> byte list) option) \<Rightarrow> node \<Rightarrow> (node \<times> byte list) option" where
  "track h nd =
     map_option (\<lambda>(nd', out). (nd'\<lparr>active_connections := active_connections nd' - 1\<rparr>, out))
       (h (nd\<lparr>active_connections := active_connections nd + 1\<rparr>))"

definition handle_connection :: "codec \<Rightarrow> node_env \<Rightarrow> byte list \<Rightarrow> node \<Rightarrow> (node \<times> byte list) option" where
  "handle_connection k e s = track (serve k e s)"

section \<open>The public port\<close>

text \<open>The request line: at most 255 characters, \<open>None\<close> when the stream ends first.\<close>

fun public_line :: "nat \<Rightarrow> byte list \<Rightarrow> string option" where
  "public_line 0 s = Some []"
| "public_line (Suc n) [] = None"
| "public_line (Suc n) (b # s) =
     (if b = 10 then Some [] else map_option (Cons (char_of (unat b))) (public_line n s))"

text \<open>\<^verbatim>\<open>ss >> chunk_id >> file_name\<close>: a missing word leaves the string empty.\<close>

definition two_words :: "string \<Rightarrow> string \<times> string" where
  "two_words s =
     (case read_word s of
        None \<Rightarrow> ([], [])
      | Some (a, r) \<Rightarrow> (case read_word r of None \<Rightarrow> (a, []) | Some (b, _) \<Rightarrow> (a, b)))"

definition serve_public :: "node_env \<Rightarrow> byte list \<Rightarrow> node \<Rightarrow> (node \<times> byte list) option" where
  "serve_public e s nd =
     (case public_line 255 s of
        None \<Rightarrow> Some (nd, [])
      | Some req \<Rightarrow>
          if req \<noteq> [] \<and> starts_with ''GET_CHUNK '' req then
            (let (chunk_id, file_name) = two_words (drop 10 req) in
             map_option (\<lambda>(nd', d).
               (nd', if d \<noteq> []
                     then str_bytes (''CHUNK_SIZE '' @ show_int (int (length d)) @ [nl]) @ d
                     else str_bytes (''ERROR: Chunk not found'' @ [nl])))
               (retrieve e (file_name @ ''_chunk_'' @ chunk_id) [] nd))
          else Some (nd, []))"

definition handle_public_connection :: "node_env \<Rightarrow> byte list \<Rightarrow> node \<Rightarrow> (node \<times> byte list) option" where
  "handle_public_connection e s = track (serve_public e s)"

section \<open>The emergency port\<close>

text \<open>The arguments of \<^verbatim>\<open>/proc/self/cmdline\<close>, which ends each with a zero character.\<close>

function split_cmdline :: "string \<Rightarrow> string list" where
  "split_cmdline s =
     (if s = [] then []
      else (let arg = takeWhile (\<lambda>c. c \<noteq> CHR 0x00) s; rest = split_cmdline (drop (length arg + 1) s) in
            if arg \<noteq> [] then arg # rest else rest))"
  by pat_completeness auto
termination by (relation "measure length") simp_all

declare split_cmdline.simps [simp del]

text \<open>A restarted process starts with an empty registry on the same disk.\<close>

definition restarted :: "node \<Rightarrow> node" where
  "restarted nd = nd\<lparr>store := (store nd)\<lparr>chunk_registry := [], seq := 0\<rparr>, active_connections := 0\<rparr>"

datatype listen_next = Accept_next | Stop_listening | Exec_again "string list"

text \<open>One accepted connection; \<open>msg\<close> is what the single non-blocking \<^verbatim>\<open>recv\<close> of up to 1023 bytes
  returned, empty when it returned nothing or failed.\<close>

definition emergency_message ::
  "string \<Rightarrow> bool \<Rightarrow> string \<Rightarrow> node \<Rightarrow> node \<times> string \<times> listen_next" where
  "emergency_message cmdline remove_ok msg nd =
     (if msg = [] then (nd, [], Accept_next)
      else if contains ''DEAD'' msg \<or> contains ''KILL'' msg
      then (nd\<lparr>is_dead := True\<rparr>, ''OK'' @ [nl], Stop_listening)
      else if contains ''RESTART'' msg
      then (restarted nd, ''OK'' @ [nl], Exec_again (split_cmdline cmdline))
      else if contains ''DELETE_CHUNK '' msg then
        (let chunk_id = (case read_word (drop 13 msg) of None \<Rightarrow> [] | Some (w, _) \<Rightarrow> w);
             (st, success) = Chunk_Storage.delete_chunk chunk_id remove_ok (store nd) in
         (nd\<lparr>store := st\<rparr>, if success then ''SUCCESS'' @ [nl] else ''ERROR'' @ [nl], Accept_next))
      else (nd, [], Accept_next))"

text \<open>The loop of the listener, which ends when the process is dead or replaced.\<close>

fun emergency_listener :: "string \<Rightarrow> (bool \<times> string) list \<Rightarrow> node \<Rightarrow> node \<times> string list" where
  "emergency_listener cmdline [] nd = (nd, [])"
| "emergency_listener cmdline ((remove_ok, msg) # ms) nd =
     (if is_dead nd then (nd, [])
      else (let (nd', out, next) = emergency_message cmdline remove_ok msg nd in
            if next = Accept_next
            then (let (nd'', outs) = emergency_listener cmdline ms nd' in (nd'', out # outs))
            else (nd', [out])))"

text \<open>The accept loops of the transfer and the public port, with what each \<^verbatim>\<open>accept4\<close> returns; the
  connections are listed in the order in which their handlers finish.\<close>

datatype accept_res = Accepted "byte list" | Would_block | Accept_error

fun accept_loop ::
  "(node_env \<Rightarrow> byte list \<Rightarrow> node \<Rightarrow> (node \<times> byte list) option) \<Rightarrow> (node_env \<times> accept_res) list \<Rightarrow> node \<Rightarrow>
   (node \<times> byte list list) option" where
  "accept_loop h [] nd = Some (nd, [])"
| "accept_loop h ((e, Accepted s) # rs) nd =
     (case h e s nd of
        None \<Rightarrow> None
      | Some (nd', out) \<Rightarrow> map_option (\<lambda>(n, outs). (n, out # outs)) (accept_loop h rs nd'))"
| "accept_loop h ((e, Would_block) # rs) nd = accept_loop h rs nd"
| "accept_loop h ((e, Accept_error) # rs) nd = accept_loop h rs nd"

definition chunk_server :: "codec \<Rightarrow> (node_env \<times> accept_res) list \<Rightarrow> node \<Rightarrow> (node \<times> byte list list) option" where
  "chunk_server k = accept_loop (handle_connection k)"

definition public_chunk_server :: "(node_env \<times> accept_res) list \<Rightarrow> node \<Rightarrow> (node \<times> byte list list) option" where
  "public_chunk_server = accept_loop handle_public_connection"

section \<open>Lemmas\<close>

lemma kill_word_type: "kill_word (htonl_bytes t) \<Longrightarrow> t = 0x44454144 \<or> t = 0x4B494C4C"
proof -
  assume "kill_word (htonl_bytes t)"
  then have "ntohl_bytes (htonl_bytes t) = ntohl_bytes (str_bytes ''DEAD'') \<or>
    ntohl_bytes (htonl_bytes t) = ntohl_bytes (str_bytes ''KILL'')"
    unfolding kill_word_def by metis
  moreover have "ntohl_bytes (str_bytes ''DEAD'') = 0x44454144" by (simp add: ntohl_bytes_def str_bytes_def)
  moreover have "ntohl_bytes (str_bytes ''KILL'') = 0x4B494C4C" by (simp add: ntohl_bytes_def str_bytes_def)
  ultimately show ?thesis by simp
qed

text \<open>A request frame reaches the handler of its type with its payload.\<close>

lemma serve_frame:
  assumes "sendable p" "t \<in> {1, 2, 3, 4}"
  shows "serve k e (request_frame t p) nd =
    (if t = 1 then handle_store k e p nd else if t = 2 then handle_fetch k e p nd
     else if t = 3 then handle_hash k e p nd else handle_replicate k e p nd)"
proof -
  have "\<not> kill_word (htonl_bytes t)" using kill_word_type [of t] assms(2) by auto
  moreover have "t \<noteq> 99" using assms(2) by auto
  ultimately show ?thesis
    using assms by (auto simp: serve_def request_frame_def reply_frame_def unat_length)
qed

text \<open>A disk whose calls succeed and move enough bytes for a chunk of \<open>n\<close> bytes.\<close>

definition disk_ready :: "node_env \<Rightarrow> nat \<Rightarrow> bool" where
  "disk_ready e n \<longleftrightarrow> ne_open e \<and> Fail \<notin> set (ne_writes e) \<and> n \<le> progress (ne_writes e) \<and>
     Fail \<notin> set (ne_reads e) \<and> Ready 0 \<notin> set (ne_reads e) \<and> n \<le> progress (ne_reads e)"

lemma store_ready:
  assumes "disk_ready e (length d)"
  obtains st' where "async_store_chunk i d t (ne_open e) (ne_writes e) st =
      Some (st', True, chunk_path (storage_path st) i t (seq st + 1))"
    and "map_of (chunk_registry st') i \<noteq> None" and "seq st' = seq st + 1" and "storage_path st' = storage_path st"
  using assms write_loop_completes [of "ne_writes e" d]
  by (simp add: disk_ready_def async_store_chunk_def generate_chunk_path_def Let_def umap.lookup_upd)

lemma retrieve_ready:
  assumes "disk_ready e (length d)" "storage_inv (store nd)" "chunk_map (store nd) i = Some d"
  shows "retrieve e i fallback nd = Some (nd, d)"
proof -
  obtain p where "map_of (chunk_registry (store nd)) i = Some p" "map_of (filesys (store nd)) p = Some d"
    using assms(3) by (auto simp: chunk_map_def split: option.splits)
  moreover have "read_loop d (ne_reads e) = Some (Some d)"
    using assms(1) by (intro read_loop_completes) (simp_all add: disk_ready_def)
  ultimately show ?thesis
    using assms(1) by (simp add: retrieve_def async_retrieve_chunk_def disk_ready_def Let_def)
qed

text \<open>The store request over the wire.\<close>

lemma wire_store:
  assumes k: "codec_ok k" and inv: "storage_inv (store nd)" and rm: "room (store nd)"
    and disk: "disk_ready e (length d)"
    and fits: "sendable (enc_chunk k \<lparr>cm_id = i, cm_filename = f, cm_data = d\<rparr>)"
  obtains st' where "handle_connection k e (request_frame 1 (enc_chunk k \<lparr>cm_id = i, cm_filename = f, cm_data = d\<rparr>)) nd =
      Some (nd\<lparr>store := st'\<rparr>, reply_frame (enc_chunk_resp k \<lparr>xr_ok = True, xr_id = i, xr_error = [],
        xr_path = chunk_path (storage_path (store nd)) i (ne_epoch e) (seq (store nd) + 1)\<rparr>))"
    and "storage_inv st'" and "chunk_map st' = (chunk_map (store nd))(i \<mapsto> d)"
    and "seq st' = seq (store nd) + 1" and "storage_path st' = storage_path (store nd)"
proof -
  obtain st' where st': "async_store_chunk i d (ne_epoch e) (ne_open e) (ne_writes e) (store nd) =
      Some (st', True, chunk_path (storage_path (store nd)) i (ne_epoch e) (seq (store nd) + 1))"
    "seq st' = seq (store nd) + 1" "storage_path st' = storage_path (store nd)"
    using store_ready [OF disk] by blast
  moreover have "storage_inv st' \<and> chunk_map st' = (chunk_map (store nd))(i \<mapsto> d)"
    using store_refines [OF inv rm st'(1)] by simp
  moreover have "parse_from_array (dec_chunk k) (enc_chunk k \<lparr>cm_id = i, cm_filename = f, cm_data = d\<rparr>) =
      Some \<lparr>cm_id = i, cm_filename = f, cm_data = d\<rparr>"
    using k fits by (simp add: parse_from_array_def codec_ok_def)
  ultimately show ?thesis
    by (intro that [of st'])
      (simp_all add: handle_connection_def track_def serve_frame [OF fits] handle_store_def)
qed

lemma wire_fetch:
  assumes k: "codec_ok k" and inv: "storage_inv (store nd)" and d: "chunk_map (store nd) i = Some d"
    and disk: "disk_ready e (length d)" and fits: "sendable (enc_fetch k \<lparr>fm_id = i, fm_path = f\<rparr>)"
  shows "handle_connection k e (request_frame 2 (enc_fetch k \<lparr>fm_id = i, fm_path = f\<rparr>)) nd =
    Some (nd, reply_frame (enc_fetch_resp k \<lparr>fr_ok = (d \<noteq> []), fr_id = i, fr_data = d,
      fr_error = (if d \<noteq> [] then [] else ''Chunk not found on this server'')\<rparr>))"
proof -
  have "parse_from_array (dec_fetch k) (enc_fetch k \<lparr>fm_id = i, fm_path = f\<rparr>) = Some \<lparr>fm_id = i, fm_path = f\<rparr>"
    using k fits by (simp add: parse_from_array_def codec_ok_def)
  moreover have "retrieve e i f (nd\<lparr>active_connections := active_connections nd + 1\<rparr>) =
      Some (nd\<lparr>active_connections := active_connections nd + 1\<rparr>, d)"
    using retrieve_ready [OF disk] inv d by simp
  ultimately show ?thesis
    by (simp add: handle_connection_def track_def serve_frame [OF fits] handle_fetch_def)
qed

text \<open>What the bytes of a connection ask to store, when they are a complete request of type 1.\<close>

definition store_request :: "codec \<Rightarrow> byte list \<Rightarrow> chunk_msg option" where
  "store_request k s =
     (if length s < 8 \<or> ntohl_bytes (take 4 s) \<noteq> 1 then None
      else (let len = unat (ntohl_bytes (take 4 (drop 4 s))); rest = drop 8 s in
            if length rest < len then None else parse_from_array (dec_chunk k) (take len rest)))"

lemma async_retrieve_keeps:
  assumes "async_retrieve_chunk j fallback open_ok rs st = Some (st', d)" "chunk_map st i \<noteq> None"
  shows "chunk_map st' i = chunk_map st i"
proof (cases "st' = st")
  case False
  then have n: "map_of (chunk_registry st) j = None" and st': "st' = st\<lparr>chunk_registry := AList.update j fallback (chunk_registry st)\<rparr>"
    using async_retrieve_state [OF assms(1)] by simp_all
  have "i \<noteq> j" using n assms(2) by (auto simp: chunk_map_def)
  then show ?thesis unfolding st' by (simp add: chunk_map_def umap.lookup_upd split: option.split)
qed simp

lemma retrieve_keeps:
  assumes "retrieve e j fallback nd = Some (nd', d)"
  shows "active_connections nd' = active_connections nd \<and> is_dead nd' = is_dead nd"
    and "chunk_map (store nd) i \<noteq> None \<Longrightarrow> chunk_map (store nd') i = chunk_map (store nd) i"
proof -
  obtain st where st: "async_retrieve_chunk j fallback (ne_open e) (ne_reads e) (store nd) = Some (st, d)"
    and nd': "nd' = nd\<lparr>store := st\<rparr>"
    using assms by (auto simp: retrieve_def)
  show "active_connections nd' = active_connections nd \<and> is_dead nd' = is_dead nd" by (simp add: nd')
  show "chunk_map (store nd') i = chunk_map (store nd) i" if "chunk_map (store nd) i \<noteq> None"
    using async_retrieve_keeps [OF st that] by (simp add: nd')
qed

text \<open>A handler that keeps the connection count, the liveness flag and the bytes of chunk \<open>i\<close>.\<close>

definition keeps :: "string \<Rightarrow> node \<Rightarrow> (node \<times> byte list) option \<Rightarrow> bool" where
  "keeps i nd r \<longleftrightarrow> (\<forall>nd' out. r = Some (nd', out) \<longrightarrow>
     active_connections nd' = active_connections nd \<and> chunk_map (store nd') i = chunk_map (store nd) i)"

lemma keeps_same [simp]: "keeps i nd (Some (nd, out))" "keeps i nd (Some (nd\<lparr>is_dead := b\<rparr>, out))"
  by (simp_all add: keeps_def)

lemma keeps_retrieve:
  "chunk_map (store nd) i \<noteq> None \<Longrightarrow> keeps i nd (map_option (\<lambda>(nd', d). (nd', f nd' d)) (retrieve e j fb nd))"
  unfolding keeps_def by (auto dest: retrieve_keeps)

lemma keeps_store:
  assumes "storage_inv (store nd)" "room (store nd)"
    and "\<And>m. parse_from_array (dec_chunk k) buf = Some m \<Longrightarrow> cm_id m \<noteq> i"
  shows "keeps i nd (handle_store k e buf nd)"
proof (cases "parse_from_array (dec_chunk k) buf")
  case (Some m)
  have "chunk_map st' i = chunk_map (store nd) i"
    if "async_store_chunk (cm_id m) (cm_data m) t oo ws (store nd) = Some (st', ok, path)" for t oo ws st' ok path
    using store_refines [OF assms(1,2) that] assms(3) [OF Some] by simp
  then show ?thesis by (auto simp: keeps_def handle_store_def Some)
qed (simp add: handle_store_def)

lemma keeps_serve:
  assumes "storage_inv (store nd)" "room (store nd)" "chunk_map (store nd) i \<noteq> None"
    and "\<And>m. store_request k s = Some m \<Longrightarrow> cm_id m \<noteq> i"
  shows "keeps i nd (serve k e s nd)"
proof -
  note ret = keeps_retrieve [OF assms(3)]
  have "keeps i nd (handle_fetch k e b nd)" "keeps i nd (handle_hash k e b nd)"
    "keeps i nd (handle_replicate k e b nd)" for b
    by (simp_all add: handle_fetch_def handle_hash_def handle_replicate_def ret split: option.split)
  moreover have "keeps i nd (handle_store k e (take n (drop 8 s)) nd)"
    if "length s \<ge> 8" "ntohl_bytes (take 4 s) = 1" "n = unat (ntohl_bytes (take 4 (drop 4 s)))"
      "n \<le> length (drop 8 s)" for n
    using that assms(4) by (intro keeps_store [OF assms(1,2)]) (simp add: store_request_def)
  ultimately show ?thesis by (simp add: serve_def Let_def)
qed

lemma keeps_track:
  assumes "keeps i (nd\<lparr>active_connections := active_connections nd + 1\<rparr>)
    (h (nd\<lparr>active_connections := active_connections nd + 1\<rparr>))"
  shows "keeps i nd (track h nd)"
  using assms by (auto simp: keeps_def track_def)

lemma split_cmdline_arg:
  "CHR 0x00 \<notin> set a \<Longrightarrow> split_cmdline (a @ CHR 0x00 # s) = (if a = [] then [] else [a]) @ split_cmdline s"
proof -
  assume "CHR 0x00 \<notin> set a"
  then have "takeWhile (\<lambda>c. c \<noteq> CHR 0x00) (a @ CHR 0x00 # s) = a" by (induction a) auto
  then show ?thesis by (subst split_cmdline.simps) (simp add: Let_def)
qed

text \<open>A restart passes on the command line without its empty arguments.\<close>

lemma split_cmdline_args:
  "\<forall>a \<in> set args. CHR 0x00 \<notin> set a \<Longrightarrow>
   split_cmdline (concat (map (\<lambda>a. a @ [CHR 0x00]) args)) = filter (\<lambda>a. a \<noteq> []) args"
  by (induction args) (simp_all add: split_cmdline_arg split_cmdline.simps [of "[]"])

section \<open>Properties\<close>

text \<open>C7. The transfer protocol stores and serves: a store request is answered with success and the
  path of the new file, and a later fetch of that id over the wire returns exactly the bytes sent,
  for every codec with the documented round trip and every disk whose calls complete, however the
  reads and writes are split.\<close>

theorem wire_store_then_fetch:
  assumes "codec_ok k" "storage_inv (store nd)" "room (store nd)" "d \<noteq> []"
    and "disk_ready e (length d)" "disk_ready e' (length d)"
    and "sendable (enc_chunk k \<lparr>cm_id = i, cm_filename = f, cm_data = d\<rparr>)"
    and "sendable (enc_fetch k \<lparr>fm_id = i, fm_path = p\<rparr>)"
    and "sendable (enc_chunk_resp k \<lparr>xr_ok = True, xr_id = i, xr_error = [],
          xr_path = chunk_path (storage_path (store nd)) i (ne_epoch e) (seq (store nd) + 1)\<rparr>)"
    and "sendable (enc_fetch_resp k \<lparr>fr_ok = True, fr_id = i, fr_data = d, fr_error = []\<rparr>)"
  shows "\<exists>nd' out out'.
    handle_connection k e (request_frame 1 (enc_chunk k \<lparr>cm_id = i, cm_filename = f, cm_data = d\<rparr>)) nd
      = Some (nd', out) \<and>
    parse_reply (dec_chunk_resp k) out = Some \<lparr>xr_ok = True, xr_id = i, xr_error = [],
      xr_path = chunk_path (storage_path (store nd)) i (ne_epoch e) (seq (store nd) + 1)\<rparr> \<and>
    handle_connection k e' (request_frame 2 (enc_fetch k \<lparr>fm_id = i, fm_path = p\<rparr>)) nd' = Some (nd', out') \<and>
    parse_reply (dec_fetch_resp k) out' = Some \<lparr>fr_ok = True, fr_id = i, fr_data = d, fr_error = []\<rparr>"
proof -
  obtain st' where st': "handle_connection k e (request_frame 1 (enc_chunk k \<lparr>cm_id = i, cm_filename = f, cm_data = d\<rparr>)) nd =
      Some (nd\<lparr>store := st'\<rparr>, reply_frame (enc_chunk_resp k \<lparr>xr_ok = True, xr_id = i, xr_error = [],
        xr_path = chunk_path (storage_path (store nd)) i (ne_epoch e) (seq (store nd) + 1)\<rparr>))"
    and "storage_inv st'" "chunk_map st' = (chunk_map (store nd))(i \<mapsto> d)"
    using wire_store [OF assms(1-3,5,7)] by blast
  then have "handle_connection k e' (request_frame 2 (enc_fetch k \<lparr>fm_id = i, fm_path = p\<rparr>)) (nd\<lparr>store := st'\<rparr>) =
    Some (nd\<lparr>store := st'\<rparr>, reply_frame (enc_fetch_resp k \<lparr>fr_ok = (d \<noteq> []), fr_id = i, fr_data = d,
      fr_error = (if d \<noteq> [] then [] else ''Chunk not found on this server'')\<rparr>))"
    by (intro wire_fetch [OF assms(1) _ _ assms(6,8)]) simp_all
  with st' show ?thesis
    using assms(1,4,9,10) by (simp add: codec_ok_def)
qed

definition sample_node :: node where
  "sample_node = \<lparr>nd_id = 1, nd_ip = ''10.0.0.1'', nd_port = 8080, nd_transfer_port = 8180, nd_public_port = 8280,
     store = \<lparr>storage_path = ''/s/'', chunk_registry = [], seq = 0, filesys = []\<rparr>,
     active_connections = 0, is_dead = False\<rparr>"

definition sample_env :: node_env where
  "sample_env = \<lparr>ne_epoch = 7, ne_open = True, ne_writes = [Ready 1, Again 0, Ready 1],
     ne_reads = [Ready 1, Ready 1], ne_cpu = 0, ne_ram = 0, ne_peer = (\<lambda>_ _ _. None)\<rparr>"

lemma sample_node_ok: "storage_inv (store sample_node)" "room (store sample_node)"
  by (simp_all add: sample_node_def storage_inv_def room_def umap_wf_def)

theorem wire_store_then_fetch_witness:
  "\<exists>nd' out out'.
    handle_connection field_codec sample_env
      (request_frame 1 (enc_chunk field_codec \<lparr>cm_id = ''f_chunk_0'', cm_filename = ''f'', cm_data = [1, 0]\<rparr>)) sample_node
      = Some (nd', out) \<and>
    parse_reply (dec_chunk_resp field_codec) out = Some \<lparr>xr_ok = True, xr_id = ''f_chunk_0'', xr_error = [],
      xr_path = chunk_path (storage_path (store sample_node)) ''f_chunk_0'' (ne_epoch sample_env)
        (seq (store sample_node) + 1)\<rparr> \<and>
    handle_connection field_codec sample_env
      (request_frame 2 (enc_fetch field_codec \<lparr>fm_id = ''f_chunk_0'', fm_path = []\<rparr>)) nd' = Some (nd', out') \<and>
    parse_reply (dec_fetch_resp field_codec) out' =
      Some \<lparr>fr_ok = True, fr_id = ''f_chunk_0'', fr_data = [1, 0], fr_error = []\<rparr>"
  by (rule wire_store_then_fetch [OF field_codec_ok sample_node_ok])
    (simp_all add: disk_ready_def progress_def sendable_def field_codec_def enc_fields_def
      enc_field_def str_bytes_def bool_bytes_def chunk_path_def sample_node_def sample_env_def show_int_def
      show_nat.simps [of 7] show_nat.simps [of "Suc 0"])

text \<open>C32. Isolation: whatever bytes a connection carries, it leaves the contents of every stored
  chunk as they were, unless it is a well-formed store request for that very chunk, and the count
  of active connections is back where it was when the handler ends.\<close>

theorem connection_isolation:
  assumes "storage_inv (store nd)" "room (store nd)" "chunk_map (store nd) i \<noteq> None"
    and "store_request k s \<noteq> None \<longrightarrow> cm_id (the (store_request k s)) \<noteq> i"
    and "handle_connection k e s nd = Some (nd', out)"
  shows "chunk_map (store nd') i = chunk_map (store nd) i \<and> active_connections nd' = active_connections nd"
proof -
  let ?nd = "nd\<lparr>active_connections := active_connections nd + 1\<rparr>"
  have "keeps i ?nd (serve k e s ?nd)" using assms(1-4) by (intro keeps_serve) auto
  then have "keeps i nd (handle_connection k e s nd)" unfolding handle_connection_def by (rule keeps_track)
  then show ?thesis using assms(5) by (simp add: keeps_def)
qed

definition sample_holder :: node where
  "sample_holder = sample_node\<lparr>store := \<lparr>storage_path = ''/s/'', chunk_registry = [(''a'', chunk_path ''/s/'' ''a'' 7 1)],
     seq = 1, filesys = [(chunk_path ''/s/'' ''a'' 7 1, [5, 6])]\<rparr>\<rparr>"

lemma sample_holder_ok:
  "storage_inv (store sample_holder)" "room (store sample_holder)" "chunk_map (store sample_holder) ''a'' = Some [5, 6]"
proof -
  have "\<exists>j t n. chunk_path ''/s/'' ''a'' 7 1 = chunk_path ''/s/'' j t n \<and> unat n \<le> unat (1 :: 64 word)"
    by (intro exI [of _ "''a''"] exI [of _ 7] exI [of _ 1]) simp
  then show "storage_inv (store sample_holder)"
    by (simp add: storage_inv_def sample_holder_def umap_wf_def)
qed (simp_all add: sample_holder_def room_def chunk_map_def)

theorem connection_isolation_witness:
  "chunk_map (store (fst (the (handle_connection field_codec sample_env [0, 0, 0, 9, 0, 0, 0, 0] sample_holder)))) ''a''
     = Some [5, 6]"
proof -
  have run: "\<exists>nd' out. handle_connection field_codec sample_env [0, 0, 0, 9, 0, 0, 0, 0] sample_holder = Some (nd', out)"
    by (simp add: handle_connection_def track_def serve_def kill_word_def str_bytes_def ntohl_bytes_def)
  then obtain nd' out where r: "handle_connection field_codec sample_env [0, 0, 0, 9, 0, 0, 0, 0] sample_holder = Some (nd', out)"
    by blast
  have "store_request field_codec [0, 0, 0, 9, 0, 0, 0, 0] = None"
    by (simp add: store_request_def ntohl_bytes_def)
  then show ?thesis
    using connection_isolation [OF sample_holder_ok(1,2) _ _ r, of "''a''"] sample_holder_ok(3) r by simp
qed

text \<open>The emergency port looks for its commands anywhere in the message, in the order kill,
  restart, delete.  So a request to delete a chunk of a file whose name contains \<^verbatim>\<open>DEAD\<close> or
  \<^verbatim>\<open>KILL\<close> terminates the storage server and deletes nothing; a request that contains none of the
  other commands deletes exactly the chunk it names.\<close>

theorem emergency_delete:
  assumes "word_ok (f @ ''_chunk_'' @ i)"
  shows "(contains ''DEAD'' f \<or> contains ''KILL'' f \<longrightarrow>
      emergency_message cl ok (''DELETE_CHUNK '' @ (f @ ''_chunk_'' @ i) @ [nl]) nd =
        (nd\<lparr>is_dead := True\<rparr>, ''OK'' @ [nl], Stop_listening)) \<and>
    (\<not> contains ''DEAD'' (''DELETE_CHUNK '' @ (f @ ''_chunk_'' @ i) @ [nl]) \<and>
     \<not> contains ''KILL'' (''DELETE_CHUNK '' @ (f @ ''_chunk_'' @ i) @ [nl]) \<and>
     \<not> contains ''RESTART'' (''DELETE_CHUNK '' @ (f @ ''_chunk_'' @ i) @ [nl]) \<longrightarrow>
      emergency_message cl ok (''DELETE_CHUNK '' @ (f @ ''_chunk_'' @ i) @ [nl]) nd =
        (nd\<lparr>store := fst (Chunk_Storage.delete_chunk (f @ ''_chunk_'' @ i) ok (store nd))\<rparr>,
         if snd (Chunk_Storage.delete_chunk (f @ ''_chunk_'' @ i) ok (store nd)) then ''SUCCESS'' @ [nl] else ''ERROR'' @ [nl],
         Accept_next))"
proof -
  let ?m = "''DELETE_CHUNK '' @ (f @ ''_chunk_'' @ i) @ [nl]"
  have in_msg: "contains c f \<Longrightarrow> contains c ?m" for c
    unfolding contains_iff by (metis append.assoc)
  have "read_word (drop 13 ?m) = Some (f @ ''_chunk_'' @ i, [nl])"
    using read_word_word [OF assms, of "[nl]"] by (simp add: is_space_def nl_def)
  moreover have "contains ''DELETE_CHUNK '' ?m" by (rule contains_prefix)
  moreover have "?m \<noteq> []" by simp
  ultimately show ?thesis
    using in_msg [of "''DEAD''"] in_msg [of "''KILL''"]
    unfolding emergency_message_def by (auto split: prod.split simp del: append.simps append_assoc)
qed

theorem emergency_delete_witness:
  "emergency_message [] True (''DELETE_CHUNK '' @ (''DEADLINE.txt'' @ ''_chunk_'' @ ''0'') @ [nl]) sample_node =
     (sample_node\<lparr>is_dead := True\<rparr>, ''OK'' @ [nl], Stop_listening)"
proof -
  have "word_ok (''DEADLINE.txt'' @ ''_chunk_'' @ ''0'')"
    by (simp add: word_ok_def is_space_def)
  moreover have "contains ''DEAD'' ''DEADLINE.txt''" by code_simp
  ultimately show ?thesis using emergency_delete [of "''DEADLINE.txt''" "''0''"] by blast
qed

text \<open>After a restart the chunks are still on disk, and the transfer port serves one when the
  request carries its path; the public port has no path to fall back on and serves none of them.\<close>

theorem restart_visibility:
  assumes "map_of (chunk_registry (store nd)) i = Some p" "map_of (filesys (store nd)) p = Some d" "p \<noteq> []"
    and "disk_ready e (length d)"
  shows "map_option snd (retrieve e i p (restarted nd)) = Some d \<and>
    (\<forall>s nd' out. handle_public_connection e s (restarted nd) = Some (nd', out) \<longrightarrow>
       out = [] \<or> out = str_bytes (''ERROR: Chunk not found'' @ [nl]))"
proof -
  have "read_loop d (ne_reads e) = Some (Some d)"
    using assms(4) by (intro read_loop_completes) (simp_all add: disk_ready_def)
  then have "map_option snd (retrieve e i p (restarted nd)) = Some d"
    using assms by (simp add: retrieve_def async_retrieve_chunk_def restarted_def disk_ready_def Let_def)
  moreover have "retrieve e j [] m = Some (m, [])" if "chunk_registry (store m) = []" for j m
    using that by (simp add: retrieve_def async_retrieve_chunk_def Let_def)
  ultimately show ?thesis
    by (auto simp: handle_public_connection_def track_def serve_public_def restarted_def
        split: option.splits if_splits prod.splits)
qed

theorem restart_visibility_witness:
  "map_option snd (retrieve sample_env ''a'' (chunk_path ''/s/'' ''a'' 7 1) (restarted sample_holder)) = Some [5, 6]"
proof -
  have "disk_ready sample_env (length [5 :: byte, 6])"
    by (simp add: disk_ready_def progress_def sample_env_def)
  moreover have "map_of (chunk_registry (store sample_holder)) ''a'' = Some (chunk_path ''/s/'' ''a'' 7 1)"
    "map_of (filesys (store sample_holder)) (chunk_path ''/s/'' ''a'' 7 1) = Some [5, 6]"
    "chunk_path ''/s/'' ''a'' 7 1 \<noteq> []"
    by (simp_all add: sample_holder_def chunk_path_def)
  ultimately show ?thesis using restart_visibility by blast
qed

end
