(* ===== verification/Control_API.thy ===== *)
theory Control_API
  imports Server_Registry Health_Monitor
begin

text \<open>
  The HTTP control interface of the head server, \<^verbatim>\<open>src/head_server/control_api.hpp\<close>: request dispatch,
  the handlers and the small JSON reader.  The state is the registry and the health monitor; storage
  servers that are told to restart are listed in the result.  How a \<^verbatim>\<open>float\<close> is printed and which
  servers accept a connection are parameters.
\<close>

type_synonym api_state = "registry \<times> monitor"

record api_env =
  ae_now :: int
  ae_float :: "rat \<Rightarrow> string"
  ae_reachable :: "string \<Rightarrow> int \<Rightarrow> bool"

datatype api_effect = Restart_node string int | Restart_head

section \<open>JSON\<close>

definition quoted :: "string \<Rightarrow> string" where
  "quoted s = [dquote] @ s @ [dquote]"

definition extract_json_string :: "string \<Rightarrow> string \<Rightarrow> string" where
  "extract_json_string json key =
     (case find_str (quoted key) json of
        None \<Rightarrow> []
      | Some p0 \<Rightarrow>
          (case find_char_from (CHR '':'') p0 json of
             None \<Rightarrow> []
           | Some p1 \<Rightarrow>
               (case find_char_from dquote p1 json of
                  None \<Rightarrow> []
                | Some p2 \<Rightarrow>
                    (case find_char_from dquote (p2 + 1) json of
                       None \<Rightarrow> []
                     | Some e \<Rightarrow> take (e - p2 - 1) (drop (p2 + 1) json)))))"

definition extract_json_int :: "string \<Rightarrow> string \<Rightarrow> int" where
  "extract_json_int json key =
     (case find_str (quoted key) json of
        None \<Rightarrow> 0
      | Some p0 \<Rightarrow>
          (case find_char_from (CHR '':'') p0 json of
             None \<Rightarrow> 0
           | Some p1 \<Rightarrow>
               (case stoi (dropWhile (\<lambda>c. c = CHR '' '' \<or> c = tab) (drop (p1 + 1) json)) of
                  Inl _ \<Rightarrow> 0
                | Inr i \<Rightarrow> i)))"

definition status_text :: "int \<Rightarrow> string" where
  "status_text code =
     (if code = 200 then ''OK'' else if code = 201 then ''Created'' else if code = 400 then ''Bad Request''
      else if code = 404 then ''Not Found'' else ''Error'')"

definition make_response :: "int \<Rightarrow> string \<Rightarrow> string" where
  "make_response code body =
     ''HTTP/1.1 '' @ show_int code @ '' '' @ status_text code @ [cr, nl]
     @ ''Content-Type: application/json'' @ [cr, nl]
     @ ''Content-Length: '' @ show_int (int (length body)) @ [cr, nl]
     @ ''Connection: close'' @ [cr, nl] @ [cr, nl] @ body"

text \<open>A member of a JSON object: the quoted key, a colon and the value.\<close>

definition member :: "string \<Rightarrow> string \<Rightarrow> string" where
  "member key v = quoted key @ '':'' @ v"

definition show_bool :: "bool \<Rightarrow> string" where
  "show_bool b = (if b then ''true'' else ''false'')"

definition error_body :: "string \<Rightarrow> string" where
  "error_body msg = ''{'' @ member ''error'' (quoted msg) @ ''}''"

section \<open>Handlers\<close>

definition handle_server_health :: "api_env \<Rightarrow> string \<Rightarrow> api_state \<Rightarrow> string" where
  "handle_server_health env id_str s =
     (case stoi id_str of
        Inl _ \<Rightarrow> make_response 400 (error_body ''Invalid server ID'')
      | Inr i \<Rightarrow>
          (case map_of (get_all_health (snd s)) i of
             None \<Rightarrow> make_response 404 (''{'' @ member ''error'' (quoted ''Server not found'') @ '',''
               @ member ''healthy'' ''false'' @ ''}'')
           | Some h \<Rightarrow>
               make_response 200 (''{'' @ member ''id'' (show_int i) @ '','' @ member ''ip'' (quoted (sh_ip h)) @ '',''
                 @ member ''healthy'' (show_bool (sh_healthy h)) @ '','' @ member ''missed_heartbeats'' (show_int (sh_missed h))
                 @ '','' @ member ''cpu'' (ae_float env (sh_cpu h)) @ '','' @ member ''ram'' (ae_float env (sh_ram h))
                 @ '','' @ member ''disk'' (ae_float env (sh_disk h)) @ ''}'')))"

definition server_json :: "api_env \<Rightarrow> monitor \<Rightarrow> server_entry \<Rightarrow> string" where
  "server_json env mon e =
     ''{'' @ member ''id'' (show_int (se_id e)) @ '','' @ member ''host'' (quoted (se_host e)) @ '',''
     @ member ''port'' (show_int (se_port e)) @ '','' @ member ''status'' (quoted (se_status e))
     @ (case map_of (get_all_health mon) (se_id e) of
          None \<Rightarrow> []
        | Some h \<Rightarrow> '','' @ member ''cpu'' (ae_float env (sh_cpu h)) @ '','' @ member ''ram'' (ae_float env (sh_ram h))
            @ '','' @ member ''disk'' (ae_float env (sh_disk h)) @ '','' @ member ''healthy'' (show_bool (sh_healthy h)))
     @ ''}''"

fun commas :: "string list \<Rightarrow> string" where
  "commas [] = []"
| "commas [x] = x"
| "commas (x # xs) = x @ '','' @ commas xs"

definition handle_list_servers :: "api_env \<Rightarrow> api_state \<Rightarrow> string" where
  "handle_list_servers env s =
     (let es = get_all (fst s) in
      make_response 200 (''{'' @ member ''servers'' (''['' @ commas (map (server_json env (snd s)) es) @ '']'')
        @ '','' @ member ''total'' (show_int (int (length es))) @ ''}''))"

definition handle_add_server :: "api_env \<Rightarrow> string \<Rightarrow> api_state \<Rightarrow> api_state \<times> string" where
  "handle_add_server env body s =
     (let host = extract_json_string body ''host''; port = extract_json_int body ''port'';
          tp = extract_json_int body ''transfer_port''; pp = extract_json_int body ''public_port'' in
      if host = [] \<or> port \<le> 0 then (s, make_response 400 (error_body ''Missing host or port''))
      else
        (let (reg, i, _) = add_server (ae_now env) host port tp pp (fst s);
             mon = register_server (ae_now env) i (host @ '':'' @ show_int port) (snd s)
         in ((reg, mon), make_response 201 (''{'' @ member ''id'' (show_int i) @ '','' @ member ''host'' (quoted host)
              @ '','' @ member ''port'' (show_int port) @ '','' @ member ''status'' (quoted ''active'') @ ''}''))))"

definition handle_remove_server :: "string \<Rightarrow> api_state \<Rightarrow> api_state \<times> string" where
  "handle_remove_server id_str s =
     (case stoi id_str of
        Inl _ \<Rightarrow> (s, make_response 400 (error_body ''Invalid server ID''))
      | Inr i \<Rightarrow>
          (let (reg, removed, _) = remove_server i (fst s) in
           if removed
           then ((reg, deregister_server i (snd s)),
             make_response 200 (''{'' @ member ''removed'' ''true'' @ '','' @ member ''id'' (show_int i) @ ''}''))
           else (s, make_response 404 (error_body ''Server not found''))))"

definition handle_restart_head :: "string" where
  "handle_restart_head = make_response 200 (''{'' @ member ''head_server_restarting'' ''true'' @ ''}'')"

definition handle_restart_cluster_node :: "api_env \<Rightarrow> string \<Rightarrow> api_state \<Rightarrow> string \<times> api_effect list" where
  "handle_restart_cluster_node env id_str s =
     (case stoi id_str of
        Inl _ \<Rightarrow> (make_response 400 (error_body ''Invalid server ID''), [])
      | Inr i \<Rightarrow>
          (case find (\<lambda>e. se_id e = i) (get_all (fst s)) of
             None \<Rightarrow> (make_response 404 (error_body ''Server not found''), [])
           | Some e \<Rightarrow>
               if ae_reachable env (se_host e) (se_port e)
               then (make_response 200 (''{'' @ member ''restarted_cluster_id'' (show_int i) @ ''}''),
                 [Restart_node (se_host e) (se_port e)])
               else (make_response 500 (error_body ''Could not connect to cluster server''), [])))"

definition handle_restart_all :: "api_env \<Rightarrow> api_state \<Rightarrow> string \<times> api_effect list" where
  "handle_restart_all env s =
     (let up = filter (\<lambda>e. ae_reachable env (se_host e) (se_port e)) (get_all (fst s)) in
      (make_response 200 (''{'' @ member ''restarted_clusters'' (show_int (int (length up)))
         @ '','' @ member ''head_server_restarting'' ''true'' @ ''}''),
       map (\<lambda>e. Restart_node (se_host e) (se_port e)) up @ [Restart_head]))"

definition handle_self_register :: "api_env \<Rightarrow> string \<Rightarrow> api_state \<Rightarrow> api_state \<times> string" where
  "handle_self_register env body s =
     (let server_id = extract_json_int body ''server_id''; host = extract_json_string body ''host'';
          port = extract_json_int body ''port''; tp = extract_json_int body ''transfer_port'';
          pp = extract_json_int body ''public_port'' in
      if host = [] \<or> port \<le> 0 then (s, make_response 400 (error_body ''Missing host or port''))
      else
        (let reg0 = (if server_id > 0
               then set_next_id (max (wrap_int (server_id + 1)) (wrap_int (count_servers (fst s) + 1))) (fst s)
               else fst s);
             (reg, i, _) = add_server (ae_now env) host port tp pp reg0;
             mon = register_server (ae_now env) i (host @ '':'' @ show_int port) (snd s)
         in ((reg, mon), make_response 200 (''{'' @ member ''id'' (show_int i) @ '','' @ member ''registered'' ''true'' @ ''}''))))"

definition handle_status :: "api_state \<Rightarrow> string" where
  "handle_status s =
     (let hm = get_all_health (snd s);
          healthy = int (length (filter (\<lambda>(_, h). sh_healthy h) hm));
          unhealthy = int (length (filter (\<lambda>(_, h). \<not> sh_healthy h) hm)) in
      make_response 200 (''{'' @ member ''total_servers'' (show_int (int (length (get_all (fst s)))))
        @ '','' @ member ''healthy'' (show_int healthy) @ '','' @ member ''unhealthy'' (show_int unhealthy)
        @ '','' @ member ''status'' (quoted (if unhealthy = 0 then ''OK'' else ''DEGRADED'')) @ ''}''))"

section \<open>Dispatch\<close>

definition cluster_path :: string where
  "cluster_path = ''/api/v1/servers/cluster''"

text \<open>\<^verbatim>\<open>iss >> method >> path\<close> and the text after the blank line.\<close>

definition request_parts :: "string \<Rightarrow> string \<times> string \<times> string" where
  "request_parts request =
     (let (method, path) = (case read_word request of
            None \<Rightarrow> ([], [])
          | Some (a, r) \<Rightarrow> (case read_word r of None \<Rightarrow> (a, []) | Some (b, _) \<Rightarrow> (a, b)));
          body = (case find_str crlf2 request of None \<Rightarrow> [] | Some p \<Rightarrow> drop (p + 4) request)
      in (method, path, body))"

text \<open>\<^verbatim>\<open>path.substr(start, end - start)\<close> for a found \<open>end\<close> and, when it is \<^verbatim>\<open>npos\<close>, up to the end.\<close>

definition between :: "nat \<Rightarrow> nat option \<Rightarrow> string \<Rightarrow> string" where
  "between start e path = (case e of None \<Rightarrow> drop start path
     | Some n \<Rightarrow> if start \<le> n then take (n - start) (drop start path) else drop start path)"

definition handle_request :: "api_env \<Rightarrow> string \<Rightarrow> api_state \<Rightarrow> api_state \<times> string \<times> api_effect list" where
  "handle_request env request s =
     (let (method, path, body) = request_parts request in
      if method = ''GET'' \<and> path = cluster_path then (s, handle_list_servers env s, [])
      else if method = ''GET'' \<and> starts_with (cluster_path @ ''/'') path \<and> contains ''/health'' path
      then (s, handle_server_health env (between 23 (find_str ''/health'' path) path) s, [])
      else if method = ''POST'' \<and> path = cluster_path
      then (let (s', r) = handle_add_server env body s in (s', r, []))
      else if method = ''DELETE'' \<and> starts_with (cluster_path @ ''/'') path
      then (let (s', r) = handle_remove_server (drop 23 path) s in (s', r, []))
      else if method = ''GET'' \<and> path = ''/api/v1/status'' then (s, handle_status s, [])
      else if method = ''POST'' \<and> path = ''/api/v1/system/restart_all''
      then (let (r, fx) = handle_restart_all env s in (s, r, fx))
      else if method = ''POST'' \<and> path = ''/api/v1/system/restart_head'' then (s, handle_restart_head, [Restart_head])
      else if method = ''POST'' \<and> starts_with (cluster_path @ ''/'') path \<and> contains ''/restart'' path
      then (let (r, fx) = handle_restart_cluster_node env (between 24 (find_str_from ''/restart'' 24 path) path) s in (s, r, fx))
      else if method = ''POST'' \<and> path = cluster_path @ ''/register''
      then (let (s', r) = handle_self_register env body s in (s', r, []))
      else (s, make_response 404 (error_body ''Not found''), []))"

section \<open>Lemmas\<close>

lemma stoi_slash: "stoi (CHR ''/'' # s) = Inl Invalid_argument"
  by (simp add: stoi_def parse_number_nondigit is_space_def is_digit_def)

lemma stoi_Nil: "stoi [] = Inl Invalid_argument"
  by (simp add: stoi_def parse_number_def skip_space_def parse_digits_def)

lemma drop_cluster_path: "starts_with (cluster_path @ ''/'') path \<Longrightarrow> \<exists>t. drop 23 path = CHR ''/'' # t"
  by (drule starts_withE) (auto simp: cluster_path_def)

lemma stoi_between:
  assumes "starts_with (cluster_path @ ''/'') path"
  shows "stoi (between 23 e path) = Inl Invalid_argument"
proof -
  obtain t where t: "drop 23 path = CHR ''/'' # t" using drop_cluster_path [OF assms] by blast
  then have "between 23 e path = [] \<or> (\<exists>u. between 23 e path = CHR ''/'' # u)"
    by (auto simp: between_def take_Cons' split: option.split)
  then show ?thesis by (auto simp: stoi_slash stoi_Nil)
qed

section \<open>Properties\<close>

lemma json_int_at:
  assumes "json = a @ quoted key @ '':'' @ show_int i @ c # r" "find_str (quoted key) json = Some (length a)"
    and "CHR '':'' \<notin> set key" "\<not> is_digit c" "in_int i"
  shows "extract_json_int json key = i"
proof -
  have k: "CHR '':'' \<notin> set (quoted key)"
    using assms(3) by (simp add: quoted_def dquote_def)
  have f: "find_char_from (CHR '':'') (length a) json = Some (length a + length (quoted key))"
    using k by (simp add: find_char_from_def assms(1) find_char_append)
  have d: "drop (length a + length (quoted key) + 1) json = show_int i @ c # r"
    by (simp add: assms(1))
  have s: "dropWhile (\<lambda>c. c = CHR '' '' \<or> c = tab) (show_int i @ c # r) = show_int i @ c # r"
    using word_ok_show_int [of i] by (cases "show_int i") (auto simp: word_ok_def is_space_def tab_def)
  show ?thesis
    unfolding extract_json_int_def assms(2) option.case f d s
    using assms(4,5) by (simp add: stoi_def parse_number_show_int)
qed

lemma json_string_at:
  assumes "json = a @ quoted key @ '':'' @ quoted v @ r" "find_str (quoted key) json = Some (length a)"
    and "CHR '':'' \<notin> set key" "dquote \<notin> set v"
  shows "extract_json_string json key = v"
proof -
  have k: "CHR '':'' \<notin> set (quoted key)"
    using assms(3) by (simp add: quoted_def dquote_def)
  let ?p = "length a + length (quoted key)"
  have f: "find_char_from (CHR '':'') (length a) json = Some ?p"
    using k by (simp add: find_char_from_def assms(1) find_char_append)
  have g: "find_char_from dquote ?p json = Some (?p + 1)"
    by (simp add: find_char_from_def assms(1) quoted_def dquote_def)
  have "json = (a @ quoted key) @ [CHR '':'', dquote] @ (v @ dquote # r)"
    by (simp add: assms(1) quoted_def)
  then have e: "drop (?p + 1 + 1) json = v @ dquote # r"
    using drop_middle [of 2 "[CHR '':'', dquote]" "a @ quoted key" "v @ dquote # r"] by simp
  have "?p + 1 + 1 \<le> length json"
    by (simp add: assms(1) quoted_def)
  then have h: "find_char_from dquote (?p + 1 + 1) json = Some (?p + 2 + length v)"
    unfolding find_char_from_def e using assms(4) by (simp add: find_char_append)
  have d: "take (?p + 2 + length v - (?p + 1) - 1) (drop (?p + 1 + 1) json) = v"
    unfolding e by simp
  show ?thesis
    unfolding extract_json_string_def assms(2) option.case f g h d ..
qed

text \<open>The parts of a request that is written as a request line, headers and a body.\<close>

lemma request_parts_at:
  assumes "request = m @ '' '' @ path @ '' '' @ rest" "word_ok m" "word_ok path"
    and "request = a @ crlf2 @ body" "find_str crlf2 request = Some (length a)"
  shows "request_parts request = (m, path, body)"
proof -
  have "read_word (m @ CHR '' '' # t) = Some (m, CHR '' '' # t)" "read_word (CHR '' '' # path @ CHR '' '' # t) = Some (path, CHR '' '' # t)" for t
    unfolding read_word_blank by (rule read_word_word [OF assms(2)] read_word_word [OF assms(3)], simp add: is_space_def)+
  then have w: "read_word request = Some (m, CHR '' '' # path @ CHR '' '' # rest)" "read_word (CHR '' '' # path @ CHR '' '' # rest) = Some (path, CHR '' '' # rest)"
    by (simp_all add: assms(1))
  have d: "drop (length a + 4) request = body"
    unfolding assms(4) by (rule drop_middle) (simp add: crlf2_def)
  show ?thesis
    unfolding request_parts_def w assms(5) by (simp only: option.case prod.case w(2) Let_def d)
qed

lemma find_crlf2_skip:
  "CHR 0x0D \<notin> set a \<Longrightarrow> find_str (CHR 0x0D # p) (a @ b) = map_option ((+) (length a)) (find_str (CHR 0x0D # p) b)"
  by (rule find_str_skip) simp_all

lemma cr_not_in_numbers: "CHR 0x0D \<notin> set (show_nat n)" "CHR 0x0D \<notin> set (show_int i)"
  using show_nat_digits [of n] show_int_chars [of "CHR 0x0D" i] by (auto simp: is_digit_def)

lemmas crlf2_search = crlf2_def cr_def nl_def starts_with_def find_crlf2_skip cr_not_in_numbers

lemma path_id_rejected:
  assumes "request_parts request = (method, path, body)" "starts_with (cluster_path @ ''/'') path"
    and "method = ''DELETE'' \<or> (method = ''GET'' \<and> contains ''/health'' path)"
  shows "handle_request env request s = (s, make_response 400 (error_body ''Invalid server ID''), [])"
proof -
  obtain t where t: "drop 23 path = CHR ''/'' # t" using drop_cluster_path [OF assms(2)] by blast
  have "path \<noteq> cluster_path" using starts_withE [OF assms(2)] by auto
  then show ?thesis
    using assms stoi_between [OF assms(2)] t
    by (auto simp: handle_request_def handle_server_health_def handle_remove_server_def stoi_slash)
qed

text \<open>The requests that name a server in their path never reach it: the path prefix has 24 characters but
  the identifier is read from position 23, so it starts with a slash, and removing a server or asking for
  its health is answered with status 400 and changes nothing, whatever the identifier and the state.\<close>

theorem api_ids_unreadable:
  assumes "request_parts request = (method, path, body)" "starts_with (cluster_path @ ''/'') path"
    and "method = ''DELETE'' \<or> (method = ''GET'' \<and> contains ''/health'' path)"
  shows "handle_request env request s = (s, make_response 400 (error_body ''Invalid server ID''), [])"
  using assms by (rule path_id_rejected)

definition sample_api :: api_env where
  "sample_api = \<lparr>ae_now = 0, ae_float = (\<lambda>r. []), ae_reachable = (\<lambda>h p. False)\<rparr>"

lemma sample_delete_parts:
  "request_parts ''DELETE /api/v1/servers/cluster/1 HTTP/1.1'' = (''DELETE'', ''/api/v1/servers/cluster/1'', [])"
  by code_simp

theorem api_ids_unreadable_witness:
  "handle_request sample_api ''DELETE /api/v1/servers/cluster/1 HTTP/1.1''
     (fst (add_server 0 ''a'' 1 1 1 new_registry), new_monitor 60 10) =
   ((fst (add_server 0 ''a'' 1 1 1 new_registry), new_monitor 60 10), make_response 400 (error_body ''Invalid server ID''), [])"
  by (rule api_ids_unreadable [OF sample_delete_parts]) (simp_all add: starts_with_def cluster_path_def)

text \<open>Every other request keeps the registry's invariant: adding and removing servers, listing, status and
  restarts, with any path and body.\<close>

theorem api_keeps_registry:
  assumes "registry_inv (fst s)" "1 \<le> next_id (fst s)" "next_id (fst s) < int_max"
    and "request_parts request = (method, path, body)" "path \<noteq> cluster_path @ ''/register''"
  shows "registry_inv (fst (fst (handle_request env request s)))"
proof -
  have add: "registry_inv (fst (add_server now h p tp pp (fst s)))" for now h p tp pp
    using registry_exec_inv [OF assms(1,2), of "Add_server now h p tp pp"] assms(3)
    by (simp add: case_prod_unfold Let_def)
  have rem: "registry_inv (fst (remove_server i (fst s)))" for i
    using registry_exec_inv [OF assms(1,2), of "Remove_server i"] by (simp add: case_prod_unfold Let_def)
  have a: "registry_inv (fst (fst (handle_add_server env b s)))" for b
    using add assms(1) by (simp add: handle_add_server_def Let_def case_prod_unfold)
  have r: "registry_inv (fst (fst (handle_remove_server x s)))" for x
    using rem assms(1) by (simp add: handle_remove_server_def Let_def case_prod_unfold split: sum.split)
  show ?thesis
    unfolding handle_request_def assms(4) Let_def prod.case
    using assms(1,5) a r by (simp add: case_prod_unfold)
qed

theorem api_keeps_registry_witness:
  "registry_inv (fst (fst (handle_request sample_api ''DELETE /api/v1/servers/cluster/1 HTTP/1.1'' (new_registry, new_monitor 60 10))))"
  by (rule api_keeps_registry [OF _ _ _ sample_delete_parts])
    (simp_all add: cluster_path_def new_registry_def registry_inv_def int_max_def)

definition register_json :: "string \<Rightarrow> string \<Rightarrow> string" where
  "register_json sid host = ''{'' @ member ''server_id'' sid @ '','' @ member ''host'' (quoted host) @ '','' @ member ''port'' ''9}''"

definition register_scenario :: "api_state \<Rightarrow> api_state" where
  "register_scenario s =
     (let s1 = fst (handle_self_register sample_api (register_json ''1'' ''a'') s);
          s2 = fst (handle_self_register sample_api (register_json ''2'' ''b'') s1);
          s3 = fst (handle_self_register sample_api (register_json ''1'' ''a'') s2)
      in fst (handle_add_server sample_api (''{'' @ member ''host'' (quoted ''c'') @ '','' @ member ''port'' ''9}'') s3))"

text \<open>Self-registration can lose a server: two servers register themselves, the first one repeats its
  registration as it does every few seconds, and a third is added without an identifier.  The third then
  takes the place of the second, which is no longer registered.\<close>

theorem self_register_loses_server:
  "map se_host (get_all (fst (register_scenario (new_registry, new_monitor 60 10)))) = [''a'', ''c'']"
  by code_simp

end
