(* ===== verification/Grid.thy ===== *)
theory Grid
  imports Client Head_Server Cluster_Node Control_API
begin

text \<open>
  The components together: the client against the head server and the storage servers, and the head servers among
  themselves.  The parameters that stand for the network in the component theories are here the handlers of the
  component at the other end.
\<close>

section \<open>An upload from the client to the metadata\<close>

text \<open>The head server as the peer of an upload.  The state of the world is its metadata and the network behind it.
  It answers the request with its first line, and what follows with its second.\<close>

definition first_line :: "string \<Rightarrow> string" where
  "first_line s = takeWhile (\<lambda>c. c \<noteq> nl) s"

definition second_line :: "string \<Rightarrow> string" where
  "second_line s = first_line (drop 1 (dropWhile (\<lambda>c. c \<noteq> nl) s))"

definition head_talk :: "'w head_env \<Rightarrow> sorter \<Rightarrow> 'w ctl \<Rightarrow> (mstore \<times> 'w) talk" where
  "head_talk env srt ctl ip port req sw =
     (case handle_client env srt ctl (bytes_str req) [] (fst sw) (snd sw) of
        Inl x \<Rightarrow> (None, sw)
      | Inr (_, out, _) \<Rightarrow>
          (Some (first_line out, \<lambda>body sw.
             (case handle_client env srt ctl (bytes_str req) body (fst sw) (snd sw) of
                Inl x \<Rightarrow> ([], sw)
              | Inr (st', out, w') \<Rightarrow> (second_line out, (st', w')))), sw))"

lemma ready_lines [simp]: "first_line (''READY'' @ [nl] @ x) = ''READY''" "second_line ready_success = ''SUCCESS''"
  by (simp_all add: first_line_def second_line_def ready_success_def nl_def)

lemma str_bytes_inverse [simp]: "bytes_str (str_bytes s) = s"
  by (induction s) (simp_all add: bytes_str_def str_bytes_def)

text \<open>The request reaches \<^verbatim>\<open>handle_client_upload\<close> without its newline.\<close>

lemma handle_client_upload_line:
  assumes "word_ok f" "CHR 0x00 \<notin> set f" "word_ok h" "CHR 0x00 \<notin> set h"
  shows "handle_client env srt ctl (upload_line f sz n h @ [nl]) input st w =
    (case handle_client_upload env (upload_line f sz n h) input st w of
       Inl x \<Rightarrow> Inl x | Inr (out, st', w') \<Rightarrow> Inr (st', out, w'))"
proof -
  let ?l = "upload_line f sz n h"
  have z: "CHR 0x00 \<notin> set (show_int i)" for i using show_int_chars by (fastforce simp: is_digit_def)
  have "List.last ?l \<noteq> nl \<and> List.last ?l \<noteq> cr \<and> ?l \<noteq> []"
    using word_ok_last [OF assms(3), of "''UPLOAD '' @ f @ '' '' @ show_int (int sz) @ '' '' @ show_int (int n) @ '' ''"]
    unfolding upload_line_def append_assoc .
  then have s: "strip_eol (?l @ [nl]) = ?l" by (intro strip_eol_line) blast+
  have t: "takeWhile (\<lambda>c. c \<noteq> CHR 0x00) (?l @ [nl]) = ?l @ [nl]"
    using assms(2,4) z by (intro takeWhile_all) (auto simp: upload_line_def nl_def)
  show ?thesis
    unfolding handle_client_def Let_def t s by (simp add: upload_line_def starts_with_def)
qed

lemma digest_no_zero: "CHR 0x00 \<notin> set (sha256 d)"
  using sha256_hex [of d] by auto

lemma client_chunk_count: "length (client_chunks content) = num_chunks DEFAULT_CHUNK_SIZE (length content)"
  by (simp add: client_chunks_def)

lemma client_chunk_count_bound:
  assumes "length content < 2 ^ 50"
  shows "length (client_chunks content) < 2 ^ 30"
proof -
  have "(length content + DEFAULT_CHUNK_SIZE - 1) div DEFAULT_CHUNK_SIZE \<le> (2 ^ 50 + DEFAULT_CHUNK_SIZE) div DEFAULT_CHUNK_SIZE"
    using assms by (intro div_le_mono) simp
  then show ?thesis by (simp add: client_chunk_count num_chunks_def DEFAULT_CHUNK_SIZE_def)
qed

lemma client_chunk_length: "d \<in> set (client_chunks content) \<Longrightarrow> length d \<le> max_vector"
proof -
  assume "d \<in> set (client_chunks content)"
  then have "length d \<le> DEFAULT_CHUNK_SIZE" unfolding client_chunks_def by (rule chunks_from_bound)
  then show ?thesis by (simp add: max_vector_def DEFAULT_CHUNK_SIZE_def)
qed

lemma client_chunks_ok:
  assumes "length content < 2 ^ 50"
  shows "\<forall>(i, d) \<in> set (indexed 0 (client_chunks content)). in_int i \<and> length d \<le> max_vector"
proof (intro ballI, clarify)
  fix i d assume m: "(i, d) \<in> set (indexed 0 (client_chunks content))"
  then have "i \<in> set (map int [0..<length (client_chunks content)])"
    using map_fst_indexed [of 0 "client_chunks content"] image_eqI [of i fst "(i, d)"] by (metis add_0 fst_conv list.set_map)
  then have "in_int i" using client_chunk_count_bound [OF assms] by (auto simp: in_int_def int_min_def int_max_def)
  moreover have "d \<in> set (map snd (indexed 0 (client_chunks content)))" using image_eqI [OF _ m, of d snd] unfolding set_map by simp
  then have "length d \<le> max_vector" unfolding map_snd_indexed by (rule client_chunk_length)
  ultimately show "in_int i \<and> length d \<le> max_vector" by simp
qed

text \<open>Without any chunk after the request the head server has only said that it is ready.\<close>

lemma upload_ready:
  assumes "word_ok f" "word_ok h" "sz < 2 ^ 64" "n < 2 ^ 64" "0 < sz" "0 < n"
  shows "handle_client_upload env (upload_line f sz n h) [] st w = Inr (''READY'' @ [nl], st, w)"
proof -
  have "receive_chunks env f n 0 [] (sha_new (replicate 64 0)) [] w = (Rx_closed [], w)"
    using assms(6) by (subst receive_chunks.simps) simp
  then show ?thesis using assms(5) by (simp add: handle_client_upload_def parse_upload_text [OF assms(1-4)])
qed

text \<open>An upload from the local file to the metadata of the head server: with a connection that takes its lines whole
  and its data in any portions, the client exits with code 0 as soon as one replica of one chunk was stored, and the
  metadata has the SHA-256 of the local file and the records of the stored replicas.\<close>

lemma upload_reaches_metadata:
  assumes "fs path = Some content" "content \<noteq> []" "length content < 2 ^ 50" "word_ok f" "CHR 0x00 \<notin> set f"
    and "taking n rs" "3 < n" "length (upload_request_line f content) < n"
    and "\<forall>(j, d) \<in> set (indexed 0 (client_chunks content)). length (chunk_header j d) < n"
    and "length content + length (client_chunks content) + 2 \<le> length rs"
    and "submit_all env f (indexed 0 (client_chunks content)) [] w = (pending, w')"
    and "\<exists>t \<in> set pending. tr_outcome t \<noteq> None" "\<forall>t \<in> set pending. transfer_ok t"
    and "int (length pending) \<le> int_max" "in_int (he_replication env)" "umap_wf (files st)"
  shows "\<exists>st'. file_upload (head_talk env srt ctl) rs ip port path f fs (st, w) = Some (0, (st', w')) \<and>
    fr_hash (query_metadata f st') = sha256 content \<and>
    fr_chunks (query_metadata f st') = map info_record (collect_transfers f pending) \<and>
    (\<forall>g. g \<noteq> f \<longrightarrow> query_metadata g st' = query_metadata g st)"
proof -
  let ?rx = "indexed 0 (client_chunks content)" and ?h = "sha256 content"
  let ?n = "length (client_chunks content)"
  let ?l = "upload_line f (length content) ?n ?h"
  have line: "upload_request_line f content = ?l" by (simp add: upload_request_line_eq client_chunk_count)
  have data: "concat (map snd ?rx) = content" by (simp add: client_chunks_concat)
  have n: "0 < ?n" using assms(2) client_chunks_concat [of content] by (cases "client_chunks content") auto
  have b: "length content < 2 ^ 64" "?n < 2 ^ 64" using assms(3) client_chunk_count_bound [OF assms(3)] by simp_all
  have run: "handle_client env srt ctl (?l @ [nl]) input st w =
      (case handle_client_upload env ?l input st w of Inl x \<Rightarrow> Inl x | Inr (out, st', w') \<Rightarrow> Inr (st', out, w'))" for input
    by (rule handle_client_upload_line [OF assms(4,5) sha256_word_ok digest_no_zero])
  have ready: "handle_client_upload env ?l [] st w = Inr (''READY'' @ [nl], st, w)"
    using assms(2) n by (intro upload_ready assms(4) sha256_word_ok b) simp_all
  obtain st' where st': "handle_client_upload env ?l (upload_body content) st w = Inr (ready_success, st', w')"
    "query_metadata f st' = \<lparr>fr_hash = ?h, fr_replicas = stored_count (he_replication env) (map info_record (collect_transfers f pending)),
      fr_chunks = map info_record (collect_transfers f pending)\<rparr>" "\<forall>g. g \<noteq> f \<longrightarrow> query_metadata g st' = query_metadata g st"
    using upload_stores [OF assms(4) _ _ _ client_chunks_ok [OF assms(3)] assms(11-16), of "str_bytes (''EOF'' @ [nl])",
        unfolded data map_snd_indexed(2)] assms(2) b unfolding upload_body_def by blast
  have "head_talk env srt ctl ip port (str_bytes (upload_request_line f content @ [nl])) (st, w) =
     (Some (''READY'', \<lambda>body sw. case handle_client env srt ctl (?l @ [nl]) body (fst sw) (snd sw) of
                Inl x \<Rightarrow> ([], sw) | Inr (st', out, w') \<Rightarrow> (second_line out, (st', w'))), (st, w))"
    using ready_lines(1) [of "[]"] by (simp add: head_talk_def line run ready)
  then show ?thesis
    using st' file_upload_protocol [where fs = fs and path = path, OF assms(1,6,8,7,9,10), of "head_talk env srt ctl" ip port "(st, w)"]
    by (simp add: run starts_with_def)
qed

section \<open>A download from the storage servers to the local file\<close>

text \<open>The request of a client on the public port of a storage server.\<close>

definition get_line :: "string \<Rightarrow> int \<Rightarrow> string" where
  "get_line f i = ''GET_CHUNK '' @ show_int i @ '' '' @ f"

lemma public_line_text: "length l < n \<Longrightarrow> nl \<notin> set l \<Longrightarrow> public_line n (str_bytes (l @ [nl])) = Some l"
proof (induction l arbitrary: n)
  case Nil
  then show ?case by (cases n) (simp_all add: str_bytes_def of_char_newline)
next
  case (Cons c l)
  then obtain m where "n = Suc m" "length l < m" by (cases n) auto
  then show ?case using Cons by (auto simp: str_bytes_def of_char_newline)
qed

lemma two_words_text: "word_ok a \<Longrightarrow> word_ok b \<Longrightarrow> two_words (a @ '' '' @ b) = (a, b)"
  using read_word_word [of a "CHR '' '' # b"] read_word_word [of b "[]"]
  by (simp add: two_words_def read_word_blank is_space_def)

lemma public_port_serves:
  assumes "word_ok f" "length (get_line f i) < 255" "storage_inv (store nd)"
    and "chunk_map (store nd) (unique_chunk_id f i) = Some d" "d \<noteq> []" "disk_ready e (length d)"
  shows "handle_public_connection e (str_bytes (get_line f i @ [nl])) nd = Some (nd, chunk_reply d)"
proof -
  have "nl \<notin> set (get_line f i)"
    using word_ok_no_nl [OF assms(1)] word_ok_no_nl [OF word_ok_show_int [of i]] by (simp add: get_line_def nl_def)
  then have l: "public_line 255 (str_bytes (get_line f i @ [nl])) = Some (get_line f i)"
    using assms(2) by (intro public_line_text)
  have w: "two_words (drop 10 (get_line f i)) = (show_int i, f)"
    using two_words_text [OF word_ok_show_int assms(1)] by (simp add: get_line_def)
  have "retrieve e (f @ ''_chunk_'' @ show_int i) [] (nd\<lparr>active_connections := active_connections nd + 1\<rparr>) =
      Some (nd\<lparr>active_connections := active_connections nd + 1\<rparr>, d)"
    using assms(3,4) by (intro retrieve_ready [OF assms(6)]) (simp_all add: unique_chunk_id_def)
  then show ?thesis
    using l w assms(5)
    by (simp add: handle_public_connection_def track_def serve_public_def chunk_reply_def) (simp add: get_line_def starts_with_def)
qed

text \<open>The storage servers by their address, and the network that reaches them: \<open>locate\<close> says which server, if any, listens
  at an address and port.  The environment \<open>e\<close> gives each server its disk and clock.\<close>

type_synonym cluster = "string \<Rightarrow> node"
type_synonym locator = "string \<Rightarrow> int \<Rightarrow> string option"

definition cluster_net :: "codec \<Rightarrow> (string \<Rightarrow> node_env) \<Rightarrow> locator \<Rightarrow> cluster net" where
  "cluster_net k e locate ip port req c =
     (case locate ip port of
        None \<Rightarrow> (None, c)
      | Some s \<Rightarrow>
          (case handle_connection k (e s) req (c s) of
             None \<Rightarrow> (None, c)
           | Some (nd, out) \<Rightarrow> (Some out, c(s := nd))))"

definition planned :: "registry \<Rightarrow> fetch_plan \<Rightarrow> remote_chunk" where
  "planned reg p = \<lparr>rc_id = fp_chunk p, rc_ip = ip_only (cl_server (fp_server p)),
     rc_port = public_port_of reg (cl_server (fp_server p)), rc_hash = fp_hash p\<rparr>"

lemma loc_msg_line: "loc_msg reg = (\<lambda>p. ''CHUNK_LOC '' @ loc_line (planned reg p) @ [nl])"
  by (rule ext) (simp add: loc_msg_def loc_line_def planned_def)

subsection \<open>Storing\<close>

text \<open>The messages about chunk \<open>i\<close> of file \<open>f\<close> fit into a frame, with \<open>q\<close> the number of the file on disk.\<close>

definition chunk_fits :: "codec \<Rightarrow> node_env \<Rightarrow> node \<Rightarrow> string \<Rightarrow> int \<Rightarrow> byte list \<Rightarrow> 64 word \<Rightarrow> bool" where
  "chunk_fits k e nd f i d q \<longleftrightarrow>
     (let u = unique_chunk_id f i; p = chunk_path (storage_path (store nd)) u (ne_epoch e) q in
      sendable (enc_chunk k \<lparr>cm_id = u, cm_filename = f, cm_data = d\<rparr>) \<and>
      sendable (enc_chunk_resp k \<lparr>xr_ok = True, xr_id = u, xr_error = [], xr_path = p\<rparr>) \<and>
      sendable (enc_fetch_hash k \<lparr>fm_id = u, fm_path = p\<rparr>) \<and>
      sendable (enc_hash_resp k \<lparr>hr_ok = True, hr_id = u, hr_hash = sha256 d, hr_error = [],
        hr_load = ne_cpu e + ne_ram e, hr_active = active_connections nd + 1\<rparr>))"

text \<open>A storage server that can take \<open>n\<close> chunks of the file, whose contents are \<open>g\<close>.\<close>

definition takes :: "codec \<Rightarrow> node_env \<Rightarrow> string \<Rightarrow> int set \<Rightarrow> (int \<Rightarrow> byte list) \<Rightarrow> nat \<Rightarrow> node \<Rightarrow> bool" where
  "takes k e f I g n nd \<longleftrightarrow>
     storage_inv (store nd) \<and> unat (seq (store nd)) + n + 1 < 2 ^ 64 \<and>
     (\<forall>c \<in> set (storage_path (store nd)). \<not> is_space c) \<and>
     (\<forall>i \<in> I. disk_ready e (length (g i)) \<and> length (get_line f i) < 255 \<and>
        (\<forall>q. unat (seq (store nd)) < unat q \<and> unat q \<le> unat (seq (store nd)) + n \<longrightarrow> chunk_fits k e nd f i (g i) q))"

text \<open>What is left of the state after \<open>j\<close> stores.\<close>

definition after_stores :: "node \<Rightarrow> nat \<Rightarrow> node \<Rightarrow> bool" where
  "after_stores nd0 j nd \<longleftrightarrow> storage_inv (store nd) \<and> storage_path (store nd) = storage_path (store nd0) \<and>
     active_connections nd = active_connections nd0 \<and>
     unat (seq (store nd0)) \<le> unat (seq (store nd)) \<and> unat (seq (store nd)) \<le> unat (seq (store nd0)) + j"

definition disk_path :: "node_env \<Rightarrow> node \<Rightarrow> string \<Rightarrow> int \<Rightarrow> 64 word \<Rightarrow> string" where
  "disk_path e nd f i q = chunk_path (storage_path (store nd)) (unique_chunk_id f i) (ne_epoch e) q"

lemma send_to_cluster:
  assumes "codec_ok k" "locate (fst (parse_address 8080 s)) (transfer_port_of reg s) = Some s"
    and "takes k (e s) f I g n nd0" "after_stores nd0 j (c s)" "j < n" "i \<in> I"
  obtains nd q where "send_chunk_to_server k (cluster_net k e locate) reg s i (g i) f c = (Some (disk_path (e s) nd0 f i q), c(s := nd))"
    and "after_stores nd0 (Suc j) nd" "chunk_map (store nd) = (chunk_map (store (c s)))(unique_chunk_id f i \<mapsto> g i)"
    and "unat (seq (store nd0)) < unat q" "unat q \<le> unat (seq (store nd0)) + n"
proof -
  let ?nd = "c s" and ?u = "unique_chunk_id f i" and ?q = "seq (store (c s)) + 1"
  have t: "storage_inv (store nd0)" "unat (seq (store nd0)) + n + 1 < 2 ^ 64" "disk_ready (e s) (length (g i))"
    "\<And>q. unat (seq (store nd0)) < unat q \<Longrightarrow> unat q \<le> unat (seq (store nd0)) + n \<Longrightarrow> chunk_fits k (e s) nd0 f i (g i) q"
    using assms(3,6) by (auto simp: takes_def)
  have a: "storage_inv (store ?nd)" "storage_path (store ?nd) = storage_path (store nd0)"
    "active_connections ?nd = active_connections nd0" "unat (seq (store nd0)) \<le> unat (seq (store ?nd))"
    "unat (seq (store ?nd)) \<le> unat (seq (store nd0)) + j"
    using assms(4) by (auto simp: after_stores_def)
  have rm: "room (store ?nd)" using t(2) a(5) assms(5) by (simp add: room_def)
  have q: "unat ?q = unat (seq (store ?nd)) + 1" using rm by (rule generate_room)
  have fits: "chunk_fits k (e s) nd0 f i (g i) ?q" using q a(4,5) assms(5) by (intro t(4)) simp_all
  obtain st' where st': "handle_connection k (e s) (request_frame 1 (enc_chunk k \<lparr>cm_id = ?u, cm_filename = f, cm_data = g i\<rparr>)) ?nd =
      Some (?nd\<lparr>store := st'\<rparr>, reply_frame (enc_chunk_resp k \<lparr>xr_ok = True, xr_id = ?u, xr_error = [],
        xr_path = chunk_path (storage_path (store ?nd)) ?u (ne_epoch (e s)) ?q\<rparr>))"
    "storage_inv st'" "chunk_map st' = (chunk_map (store ?nd))(?u \<mapsto> g i)" "seq st' = ?q" "storage_path st' = storage_path (store ?nd)"
    using wire_store [OF assms(1) a(1) rm t(3)] fits by (auto simp: chunk_fits_def Let_def)
  have r: "dec_chunk_resp k (enc_chunk_resp k r) = Some r" for r using assms(1) by (simp add: codec_ok_def)
  have "send_chunk_to_server k (cluster_net k e locate) reg s i (g i) f c =
      (Some (disk_path (e s) nd0 f i ?q), c(s := ?nd\<lparr>store := st'\<rparr>))"
    using st'(1) fits assms(2) a(2)
    by (simp add: send_chunk_to_server_def transfer_request_def case_prod_unfold cluster_net_def disk_path_def chunk_fits_def Let_def r)
  moreover have "after_stores nd0 (Suc j) (?nd\<lparr>store := st'\<rparr>)" using st' a q by (simp add: after_stores_def)
  ultimately show ?thesis using st'(3) q a(4,5) assms(5) by (intro that [of ?q "?nd\<lparr>store := st'\<rparr>"]) simp_all
qed

text \<open>The transfers of an upload as one sequence of stores, each a server and a chunk.\<close>

fun run_stores :: "'w head_env \<Rightarrow> string \<Rightarrow> (int \<Rightarrow> byte list) \<Rightarrow> (string \<times> int) list \<Rightarrow> 'w \<Rightarrow> transfer list \<times> 'w" where
  "run_stores env f g [] w = ([], w)"
| "run_stores env f g ((s, i) # xs) w =
     (let (r, w1) = send_chunk_to_server (he_codec env) (he_net env) (he_registry env) s i (g i) f w;
          (ts, w2) = run_stores env f g xs w1
      in (\<lparr>tr_chunk = i, tr_server = s, tr_checksum = sha256 (g i), tr_size = length (g i), tr_outcome = r\<rparr> # ts, w2))"

lemma run_stores_append:
  "run_stores env f g (xs @ ys) w =
   (let (a, w1) = run_stores env f g xs w; (b, w2) = run_stores env f g ys w1 in (a @ b, w2))"
proof (induction xs arbitrary: w)
  case (Cons x xs)
  then show ?case by (cases x) (simp add: Let_def case_prod_unfold)
qed (simp add: case_prod_unfold)

lemma run_transfers_stores:
  "run_transfers env ts i (g i) f (sha256 (g i)) w = run_stores env f g (map (\<lambda>s. (s, i)) ts) w"
  by (induction ts arbitrary: w) (simp_all add: Let_def case_prod_unfold)

definition store_plan :: "string list \<Rightarrow> (int \<times> byte list) list \<Rightarrow> (string \<times> int) list" where
  "store_plan ts rx = concat (map (\<lambda>(i, d). map (\<lambda>s. (s, i)) ts) rx)"

lemma submit_all_stores:
  assumes "\<forall>(i, d) \<in> set rx. d = g i"
  shows "submit_all env f rx p w =
    (let (ts, w') = run_stores env f g (store_plan (select_servers_for_chunk env (he_replication env)) rx) w in (p @ ts, w'))"
  using assms
proof (induction rx arbitrary: p w)
  case (Cons x rx)
  obtain i where x: "x = (i, g i)" using Cons.prems by (cases x) auto
  show ?case using Cons
    by (simp add: x store_plan_def run_stores_append submit_chunk_transfers_def run_transfers_stores Let_def case_prod_unfold)
qed (simp add: store_plan_def)

text \<open>All stores succeed, and afterwards every server has the chunks that were sent to it.\<close>

definition stored_as :: "(string \<Rightarrow> node_env) \<Rightarrow> cluster \<Rightarrow> string \<Rightarrow> (int \<Rightarrow> byte list) \<Rightarrow> nat \<Rightarrow> string \<times> int \<Rightarrow> transfer \<Rightarrow> bool" where
  "stored_as e c0 f g n x t \<longleftrightarrow> tr_server t = fst x \<and> tr_chunk t = snd x \<and> tr_checksum t = sha256 (g (snd x)) \<and>
     (\<exists>q. tr_outcome t = Some (disk_path (e (fst x)) (c0 (fst x)) f (snd x) q) \<and>
        unat (seq (store (c0 (fst x)))) < unat q \<and> unat q \<le> unat (seq (store (c0 (fst x)))) + n)"

lemma unique_chunk_id_inj [simp]: "unique_chunk_id f i = unique_chunk_id f j \<longleftrightarrow> i = j"
  by (simp add: unique_chunk_id_def)

lemma stores_succeed:
  assumes "codec_ok (he_codec env)" "he_net env = cluster_net (he_codec env) e locate"
    and "\<forall>s \<in> S. locate (fst (parse_address 8080 s)) (transfer_port_of (he_registry env) s) = Some s"
    and "\<forall>s \<in> S. takes (he_codec env) (e s) f I g n (c0 s)"
    and "set xs \<subseteq> S \<times> I" "\<forall>s \<in> S. after_stores (c0 s) j (c s)" "j + length xs \<le> n"
  shows "\<exists>ts c'. run_stores env f g xs c = (ts, c') \<and> list_all2 (stored_as e c0 f g n) xs ts \<and>
    (\<forall>s \<in> S. after_stores (c0 s) (j + length xs) (c' s)) \<and>
    (\<forall>s i. chunk_map (store (c' s)) (unique_chunk_id f i) =
       (if (s, i) \<in> set xs then Some (g i) else chunk_map (store (c s)) (unique_chunk_id f i)))"
  using assms(5-7)
proof (induction xs arbitrary: c j)
  case (Cons x xs)
  obtain s i where x: "x = (s, i)" "s \<in> S" "i \<in> I" using Cons.prems(1) by (cases x) auto
  have "j < n" using Cons.prems(3) by simp
  then obtain nd q where nd: "send_chunk_to_server (he_codec env) (he_net env) (he_registry env) s i (g i) f c =
      (Some (disk_path (e s) (c0 s) f i q), c(s := nd))"
    "after_stores (c0 s) (Suc j) nd" "chunk_map (store nd) = (chunk_map (store (c s)))(unique_chunk_id f i \<mapsto> g i)"
    "unat (seq (store (c0 s))) < unat q" "unat q \<le> unat (seq (store (c0 s))) + n"
    using send_to_cluster [OF assms(1) _ _ _ _ x(3), of locate s "he_registry env" e f g n "c0 s" j c] assms(2-4) Cons.prems(2) x(2)
    by metis
  have len: "Suc j + length xs \<le> n" using Cons.prems(3) by simp
  have aft: "\<forall>t \<in> S. after_stores (c0 t) (Suc j) ((c(s := nd)) t)" using Cons.prems(2) nd(2) by (auto simp: after_stores_def)
  obtain ts c' where ts: "run_stores env f g xs (c(s := nd)) = (ts, c')" "list_all2 (stored_as e c0 f g n) xs ts"
    "\<forall>s \<in> S. after_stores (c0 s) (Suc j + length xs) (c' s)"
    "\<forall>s' i. chunk_map (store (c' s')) (unique_chunk_id f i) =
       (if (s', i) \<in> set xs then Some (g i) else chunk_map (store ((c(s := nd)) s')) (unique_chunk_id f i))"
    using Cons.IH [of "Suc j" "c(s := nd)", OF _ aft len] Cons.prems(1) unfolding list.set by blast
  let ?t = "\<lparr>tr_chunk = i, tr_server = s, tr_checksum = sha256 (g i), tr_size = length (g i),
    tr_outcome = Some (disk_path (e s) (c0 s) f i q)\<rparr>"
  have "run_stores env f g (x # xs) c = (?t # ts, c')" using nd(1) ts(1) by (simp add: x(1))
  moreover have "stored_as e c0 f g n x ?t" using nd(4,5) by (auto simp: stored_as_def x(1))
  ultimately show ?case using ts nd(3) by (intro exI [of _ "?t # ts"] exI [of _ c']) (auto simp: x(1))
qed simp

subsection \<open>Asking for hashes\<close>

lemma wire_hash:
  assumes k: "codec_ok k" and inv: "storage_inv (store nd)" and d: "chunk_map (store nd) i = Some d" "d \<noteq> []"
    and disk: "disk_ready e (length d)" and fits: "sendable (enc_fetch_hash k \<lparr>fm_id = i, fm_path = f\<rparr>)"
  shows "handle_connection k e (request_frame 3 (enc_fetch_hash k \<lparr>fm_id = i, fm_path = f\<rparr>)) nd =
    Some (nd, reply_frame (enc_hash_resp k \<lparr>hr_ok = True, hr_id = i, hr_hash = sha256 d, hr_error = [],
      hr_load = ne_cpu e + ne_ram e, hr_active = active_connections nd + 1\<rparr>))"
proof -
  have "parse_from_array (dec_fetch_hash k) (enc_fetch_hash k \<lparr>fm_id = i, fm_path = f\<rparr>) = Some \<lparr>fm_id = i, fm_path = f\<rparr>"
    using k fits by (simp add: parse_from_array_def codec_ok_def)
  moreover have "retrieve e i f (nd\<lparr>active_connections := active_connections nd + 1\<rparr>) =
      Some (nd\<lparr>active_connections := active_connections nd + 1\<rparr>, d)"
    using retrieve_ready [OF disk] inv d by simp
  ultimately show ?thesis
    using d(2) by (simp add: handle_connection_def track_def serve_frame [OF fits] handle_hash_def)
qed

text \<open>A replica recorded in the metadata that its server really has.\<close>

definition replica_held :: "codec \<Rightarrow> (string \<Rightarrow> node_env) \<Rightarrow> cluster \<Rightarrow> string \<Rightarrow> (int \<Rightarrow> byte list) \<Rightarrow> chunk_location \<Rightarrow> bool" where
  "replica_held k e c f g l \<longleftrightarrow>
     (let s = cl_server l; i = cl_id l; u = unique_chunk_id f i in
      storage_inv (store (c s)) \<and> chunk_map (store (c s)) u = Some (g i) \<and> g i \<noteq> [] \<and> disk_ready (e s) (length (g i)) \<and>
      length (get_line f i) < 255 \<and> sendable (enc_fetch_hash k \<lparr>fm_id = u, fm_path = cl_path l\<rparr>) \<and>
      sendable (enc_hash_resp k \<lparr>hr_ok = True, hr_id = u, hr_hash = sha256 (g i), hr_error = [],
        hr_load = ne_cpu (e s) + ne_ram (e s), hr_active = active_connections (c s) + 1\<rparr>))"

lemma hash_of_held:
  assumes "codec_ok k" "locate (fst (parse_address 8080 (cl_server l))) (transfer_port_of reg (cl_server l)) = Some (cl_server l)"
    and "replica_held k e c f g l"
  shows "\<exists>r. get_chunk_hash k (cluster_net k e locate) reg l f c = (r, c) \<and> hr_ok r \<and> hr_hash r = sha256 (g (cl_id l))"
proof -
  let ?s = "cl_server l" and ?u = "unique_chunk_id f (cl_id l)"
  let ?r = "\<lparr>hr_ok = True, hr_id = ?u, hr_hash = sha256 (g (cl_id l)), hr_error = [],
        hr_load = ne_cpu (e ?s) + ne_ram (e ?s), hr_active = active_connections (c ?s) + 1\<rparr>"
  note h = assms(3) [unfolded replica_held_def Let_def]
  have "handle_connection k (e ?s) (request_frame 3 (enc_fetch_hash k \<lparr>fm_id = ?u, fm_path = cl_path l\<rparr>)) (c ?s) =
      Some (c ?s, reply_frame (enc_hash_resp k ?r))"
    using h by (intro wire_hash assms(1)) auto
  moreover have "dec_hash_resp k (enc_hash_resp k ?r) = Some ?r" using assms(1) by (simp add: codec_ok_def)
  ultimately have "get_chunk_hash k (cluster_net k e locate) reg l f c = (?r, c)"
    using assms(2) h by (simp add: get_chunk_hash_def transfer_request_def case_prod_unfold cluster_net_def parse_from_array_def)
  then show ?thesis by simp
qed

lemma query_hashes_held:
  assumes "codec_ok k"
    and "\<forall>l \<in> set locs. locate (fst (parse_address 8080 (cl_server l))) (transfer_port_of reg (cl_server l)) = Some (cl_server l) \<and>
      replica_held k e c f g l"
  shows "\<exists>rs. query_hashes k (cluster_net k e locate) reg f locs c = (rs, c) \<and> map fst rs = locs \<and>
    (\<forall>(l, r) \<in> set rs. hr_ok r \<and> hr_hash r = sha256 (g (cl_id l)))"
  using assms(2)
proof (induction locs)
  case (Cons l locs)
  obtain r where r: "get_chunk_hash k (cluster_net k e locate) reg l f c = (r, c)" "hr_ok r" "hr_hash r = sha256 (g (cl_id l))"
    using hash_of_held [OF assms(1)] Cons.prems by (meson list.set_intros(1))
  obtain rs where rs: "query_hashes k (cluster_net k e locate) reg f locs c = (rs, c)" "map fst rs = locs"
    "\<forall>(l, r) \<in> set rs. hr_ok r \<and> hr_hash r = sha256 (g (cl_id l))"
    using Cons by auto
  then show ?case using r by (intro exI [of _ "(l, r) # rs"]) simp
qed simp

text \<open>When all replicas of a chunk report the same hash, it is planned.\<close>

lemma plan_unanimous:
  assumes "std_sort_ok less_loaded srt" "rs \<noteq> []" "\<forall>(l, r) \<in> set rs. hr_ok r \<and> hr_hash r = h"
  shows "\<exists>p. plan_chunk srt i rs = Some p \<and> fp_chunk p = i \<and> fp_hash p = h \<and> fp_server p \<in> fst ` set rs"
proof -
  obtain l r rs' where "rs = (l, r) # rs'" using assms(2) by (cases rs) auto
  then have "votes rs \<noteq> []" using assms(3) by (simp add: votes_def)
  then obtain p where p: "plan_chunk srt i rs = Some p" by (simp add: plan_chunk_def Let_def)
  from plan_chunk_spec [OF assms(1) p, of h] obtain r where "fp_chunk p = i" "(fp_server p, r) \<in> set rs" "hr_hash r = fp_hash p"
    by blast
  then show ?thesis using p assms(3) by force
qed

lemma make_plans_unanimous:
  assumes "std_sort_ok less_loaded srt" "\<forall>(i, rs) \<in> set cs. rs \<noteq> [] \<and> (\<forall>(l, r) \<in> set rs. hr_ok r \<and> hr_hash r = h i)"
  shows "\<exists>ps. make_plans srt cs = Inr ps \<and> map fp_chunk ps = map fst cs \<and>
    list_all2 (\<lambda>(i, rs) p. fp_hash p = h i \<and> fp_server p \<in> fst ` set rs) cs ps"
  using assms(2)
proof (induction cs)
  case (Cons c cs)
  obtain i rs where c: "c = (i, rs)" by force
  then have "rs \<noteq> []" "\<forall>(l, r) \<in> set rs. hr_ok r \<and> hr_hash r = h i" using Cons.prems by auto
  then obtain p where "plan_chunk srt i rs = Some p" "fp_chunk p = i" "fp_hash p = h i" "fp_server p \<in> fst ` set rs"
    using plan_unanimous [OF assms(1)] by blast
  moreover obtain ps where "make_plans srt cs = Inr ps" "map fp_chunk ps = map fst cs"
    "list_all2 (\<lambda>(i, rs) p. fp_hash p = h i \<and> fp_server p \<in> fst ` set rs) cs ps"
    using Cons by auto
  ultimately show ?case by (intro exI [of _ "p # ps"]) (simp add: c)
qed simp

lemma keys_upto:
  fixes m :: "(int \<times> 'v) list"
  assumes "omap_wf m" "fst ` set m = int ` {0..<n}"
  shows "map fst m = map int [0..<n]"
proof -
  have "sorted_wrt (<) (map int [0..<n])" by (simp add: sorted_wrt_map)
  then show ?thesis
    using assms unfolding omap_wf_def by (intro sorted_distinct_set_unique) (auto simp: strict_sorted_iff)
qed

lemma stream_held:
  assumes "codec_ok k" "std_sort_ok less_loaded srt" "get_chunk_locations_from_metadata f st = (locs, h)"
    and "cl_id ` set locs = int ` {0..<n}" "0 < n"
    and "\<forall>l \<in> set locs. locate (fst (parse_address 8080 (cl_server l))) (transfer_port_of reg (cl_server l)) = Some (cl_server l) \<and>
      replica_held k e c f g l"
  shows "\<exists>plans. stream_file_to_client k (cluster_net k e locate) srt reg st f c = (True, announcement h (map (planned reg) plans), c) \<and>
    map fp_chunk plans = map int [0..<n] \<and>
    (\<forall>p \<in> set plans. fp_hash p = sha256 (g (fp_chunk p)) \<and> fp_server p \<in> set locs \<and> cl_id (fp_server p) = fp_chunk p)"
proof -
  let ?q = "concat (map snd (group_keys cl_id locs))"
  have q: "set ?q = set locs" using set_group_keys [of cl_id locs] by auto
  note held = assms(6) [folded q]
  obtain rs where rs: "query_hashes k (cluster_net k e locate) reg f ?q c = (rs, c)" "map fst rs = ?q"
    "\<forall>(l, r) \<in> set rs. hr_ok r \<and> hr_hash r = sha256 (g (cl_id l))"
    using query_hashes_held [OF assms(1) held] by blast
  let ?key = "\<lambda>(l :: chunk_location, r :: hash_resp). cl_id l"
  let ?gs = "group_keys ?key rs"
  have "?key ` set rs = cl_id ` fst ` set rs" by force
  also have "fst ` set rs = set locs" using q rs(2) by (metis list.set_map)
  finally have "fst ` set ?gs = int ` {0..<n}" "fst ` set (group_keys cl_id locs) = int ` {0..<n}"
    using assms(4) by (simp_all only: dom_group_keys)
  then have keys: "map fst ?gs = map int [0..<n]" "map fst (group_keys cl_id locs) = map int [0..<n]"
    by (simp_all only: keys_upto omap_wf_group_keys)
  have "\<forall>(i, ys) \<in> set ?gs. ys \<noteq> [] \<and> (\<forall>(l, r) \<in> set ys. hr_ok r \<and> hr_hash r = sha256 (g i))"
    using rs(3) by (auto simp: group_keys_mem)
  then obtain ps where ps: "make_plans srt ?gs = Inr ps" "map fp_chunk ps = map fst ?gs"
    "list_all2 (\<lambda>(i, ys) p. fp_hash p = sha256 (g i) \<and> fp_server p \<in> fst ` set ys) ?gs ps"
    using make_plans_unanimous [OF assms(2), of ?gs "\<lambda>i. sha256 (g i)"] by blast
  have "fp_hash p = sha256 (g (fp_chunk p)) \<and> fp_server p \<in> set locs \<and> cl_id (fp_server p) = fp_chunk p" if p: "p \<in> set ps" for p
  proof -
    obtain x where x: "x < length ps" "p = ps ! x" using p by (metis in_set_conv_nth)
    obtain i ys where g: "?gs ! x = (i, ys)" by force
    have len: "length ?gs = length ps" using ps(3) by (rule list_all2_lengthD)
    have "fp_chunk p = i" using arg_cong [OF ps(2), of "\<lambda>l. l ! x"] x len g by simp
    moreover have "fp_hash p = sha256 (g i)" "fp_server p \<in> fst ` set ys"
      using list_all2_nthD2 [OF ps(3) x(1)] x(2) g by auto
    moreover have "ys = filter (\<lambda>z. ?key z = i) rs" using nth_mem [of x ?gs] x(1) len g by (auto simp: group_keys_mem)
    moreover have "fst ` set rs = set locs" using q rs(2) by (metis list.set_map)
    ultimately show ?thesis by force
  qed
  moreover have "length (group_keys cl_id locs) = length ps"
    using arg_cong [OF keys(1), of length] arg_cong [OF keys(2), of length] arg_cong [OF ps(2), of length] by simp
  moreover from this have "stream_file_to_client k (cluster_net k e locate) srt reg st f c = (True, announcement h (map (planned reg) ps), c)"
    using assms(4,5)
    unfolding stream_file_to_client_def assms(3) Let_def prod.case rs(1) ps(1) sum.case
    by (auto simp: announcement_def loc_msg_line comp_def)
  ultimately show ?thesis using ps(2) keys(1) by auto
qed

subsection \<open>The client's view\<close>

text \<open>The network of a client: the head server at its address, and the storage servers at their public ports.\<close>

definition grid_dial ::
  "cluster head_env \<Rightarrow> sorter \<Rightarrow> cluster ctl \<Rightarrow> string \<times> int \<Rightarrow> (string \<Rightarrow> node_env) \<Rightarrow> locator \<Rightarrow> (mstore \<times> cluster) dial" where
  "grid_dial env srt ctl head e locate ip port req w =
     (if (ip, port) = head then
        (case handle_client env srt ctl req [] (fst w) (snd w) of
           Inl x \<Rightarrow> (None, w)
         | Inr (st, out, c) \<Rightarrow> (Some (str_bytes out), (st, c)))
      else
        (case locate ip port of
           None \<Rightarrow> (None, w)
         | Some s \<Rightarrow>
             (case handle_public_connection (e s) (str_bytes req) (snd w s) of
                None \<Rightarrow> (None, w)
              | Some (nd, out) \<Rightarrow> (Some out, (fst w, (snd w)(s := nd))))))"

lemma handle_client_download_line:
  assumes "word_ok f" "CHR 0x00 \<notin> set f"
  shows "handle_client env srt ctl (''DOWNLOAD '' @ f @ [nl]) input st w =
    (let (out, w') = handle_client_download (he_codec env) (he_net env) srt (he_registry env) st f w in Inr (st, out, w'))"
proof -
  have t: "takeWhile (\<lambda>c. c \<noteq> CHR 0x00) (''DOWNLOAD '' @ f @ [nl]) = ''DOWNLOAD '' @ f @ [nl]"
    using assms(2) by (intro takeWhile_all) (auto simp: nl_def)
  have "f \<noteq> []" "List.last f \<noteq> nl" "List.last f \<noteq> cr" using word_ok_last [OF assms(1), of "[]"] by auto
  then have "strip_eol (f @ [nl]) = f" by (rule strip_eol_line)
  then show ?thesis unfolding handle_client_def Let_def t by (simp add: starts_with_def)
qed

lemma download_held:
  assumes "codec_ok (he_codec env)" "he_net env = cluster_net (he_codec env) e locate" "std_sort_ok less_loaded srt"
    and "word_ok f" "CHR 0x00 \<notin> set f"
    and "get_chunk_locations_from_metadata f st = (locs, sha256 (concat (map (\<lambda>i. g (int i)) [0..<n])))"
    and "cl_id ` set locs = int ` {0..<n}" "0 < n" "int n \<le> int_max" "\<forall>i < n. length (g (int i)) \<le> max_vector"
    and "\<forall>l \<in> set locs. locate (fst (parse_address 8080 (cl_server l))) (transfer_port_of (he_registry env) (cl_server l)) = Some (cl_server l) \<and>
      replica_held (he_codec env) e c f g l"
    and "\<forall>l \<in> set locs. let s = cl_server l; a = (ip_only s, public_port_of (he_registry env) s) in
      a \<noteq> head \<and> public (fst a) (snd a) = Some s \<and> word_ok (fst a) \<and> in_int (snd a)"
    and "\<And>cs. mset (sched cs) = mset cs" "ldisk out = Some k" "k (concat (map (\<lambda>i. g (int i)) [0..<n])) = concat (map (\<lambda>i. g (int i)) [0..<n])"
  shows "file_download (grid_dial env srt ctl head e public) sched ldisk (fst head) (snd head) f out fs (st, c) =
    (Inr (0, fs(out := Some (concat (map (\<lambda>i. g (int i)) [0..<n])))), (st, c))"
proof -
  let ?reg = "he_registry env" and ?d = "grid_dial env srt ctl head e public" and ?h = "sha256 (concat (map (\<lambda>i. g (int i)) [0..<n]))"
  obtain plans where p: "stream_file_to_client (he_codec env) (he_net env) srt ?reg st f c = (True, announcement ?h (map (planned ?reg) plans), c)"
    "map fp_chunk plans = map int [0..<n]"
    "\<forall>p \<in> set plans. fp_hash p = sha256 (g (fp_chunk p)) \<and> fp_server p \<in> set locs \<and> cl_id (fp_server p) = fp_chunk p"
    using stream_held [OF assms(1,3,6,7,8,11)] assms(2) by metis
  let ?cs = "map (planned ?reg) plans" and ?g = "\<lambda>c. g (rc_id c)"
  have ids: "map rc_id ?cs = map int [0..<n]" using p(2) by (simp add: planned_def comp_def)
  then have n: "length ?cs = n" by (metis length_map length_upt diff_zero)
  have cat: "map ?g ?cs = map (\<lambda>i. g (int i)) [0..<n]" using arg_cong [OF ids, of "map g"] by (simp add: comp_def)
  have "?d (fst head) (snd head) (''DOWNLOAD '' @ f @ [nl]) (st, c) = (Some (str_bytes (announcement ?h ?cs)), (st, c))"
    using handle_client_download_line [OF assms(4,5), of env srt ctl "[]" st c] p(1)
    by (simp add: grid_dial_def handle_client_download_def)
  moreover have "remote_ok x \<and> served (\<lambda>w. w = (st, c)) ?d f ?g x" if x: "x \<in> set ?cs" for x
  proof -
    obtain q where q: "q \<in> set plans" "x = planned ?reg q" using x by auto
    let ?l = "fp_server q"
    note l = p(3) [rule_format, OF q(1)]
    have loc: "?l \<in> set locs" using l by simp
    obtain i where i: "fp_chunk q = int i" "i < n" using q(1) arg_cong [OF p(2), of set] by (metis (no_types, lifting) atLeast_upt image_iff lessThan_iff list.set_map)
    note held = assms(11) [rule_format, OF loc, THEN conjunct2, unfolded replica_held_def Let_def]
    note a = assms(12) [rule_format, OF loc, unfolded Let_def fst_conv snd_conv]
    have "handle_public_connection (e (cl_server ?l)) (str_bytes (get_line f (fp_chunk q) @ [nl])) (c (cl_server ?l)) =
        Some (c (cl_server ?l), chunk_reply (g (fp_chunk q)))"
      using held l by (intro public_port_serves assms(4)) auto
    then have "?d (rc_ip x) (rc_port x) (''GET_CHUNK '' @ show_int (rc_id x) @ '' '' @ f @ [nl]) (st, c) =
        (Some (chunk_reply (g (rc_id x))), (st, c))"
      using a unfolding get_line_def append_assoc by (simp add: grid_dial_def q(2) planned_def)
    moreover have "in_int (rc_id x)" using i assms(9) by (simp add: q(2) planned_def in_int_def int_min_def)
    ultimately show ?thesis
      using a l i assms(10) sha256_word_ok by (simp add: remote_ok_def served_def q(2) planned_def)
  qed
  ultimately show ?thesis
    using file_download_served [of ?d "fst head" "snd head" f "(st, c)" ?g ?cs "(st, c)" "\<lambda>w. w = (st, c)" sched ldisk out k fs]
      ids n assms(13-15) unfolding cat by auto
qed

section \<open>Upload and download\<close>

lemma chunks_from_nonempty: "d \<in> set (chunks_from cs n xs) \<Longrightarrow> 0 < cs \<Longrightarrow> (n - 1) * cs < length xs \<Longrightarrow> d \<noteq> []"
proof (induction n arbitrary: xs)
  case (Suc n)
  let ?k = "min cs (length xs)"
  from Suc.prems(1) consider "d = take ?k xs" | "d \<in> set (chunks_from cs n (drop ?k xs))" by auto
  then show ?case
  proof cases
    case 1
    then show ?thesis using Suc.prems(2,3) by auto
  next
    case 2
    then have "n > 0" by (cases n) auto
    then have "(n - 1) * cs + cs = n * cs" by (cases n) auto
    then have "(n - 1) * cs < length (drop ?k xs)" using Suc.prems(2,3) by simp
    then show ?thesis using Suc.IH [OF 2 Suc.prems(2)] by simp
  qed
qed simp

lemma client_chunks_nonempty: "d \<in> set (client_chunks content) \<Longrightarrow> content \<noteq> [] \<Longrightarrow> d \<noteq> []"
proof -
  let ?cs = DEFAULT_CHUNK_SIZE and ?m = "length content"
  assume d: "d \<in> set (client_chunks content)" and c: "content \<noteq> []"
  have cs: "?cs > 0" by (simp add: DEFAULT_CHUNK_SIZE_def)
  have m: "?m > 0" using c by simp
  have e: "?m + ?cs - 1 = (?m - 1) + ?cs" using m by linarith
  have "(?m + ?cs - 1) div ?cs = (?m - 1) div ?cs + 1" unfolding e using cs by (intro div_add_self2) simp
  moreover have "(?m - 1) div ?cs * ?cs \<le> ?m - 1" by (rule div_times_less_eq_dividend)
  then have "(?m - 1) div ?cs * ?cs < ?m" using m by linarith
  ultimately have "((?m + ?cs - 1) div ?cs - 1) * ?cs < ?m" by simp
  then show ?thesis
    using d cs c unfolding client_chunks_def num_chunks_def by (intro chunks_from_nonempty) auto
qed

text \<open>The chunks of a file by their number.\<close>

definition chunk_of :: "byte list \<Rightarrow> int \<Rightarrow> byte list" where
  "chunk_of content i = client_chunks content ! nat i"

lemma chunk_of_all: "map (\<lambda>i. chunk_of content (int i)) [0..<length (client_chunks content)] = client_chunks content"
  by (simp add: chunk_of_def map_nth)

lemma indexed_chunk_of: "\<forall>(i, d) \<in> set (indexed 0 (client_chunks content)). d = chunk_of content i"
  by (auto simp: indexed_def chunk_of_def in_set_zip)

lemma set_store_plan: "set (store_plan ts (indexed 0 ds)) = set ts \<times> int ` {0..<length ds}"
proof -
  have "fst ` set (indexed 0 ds) = int ` {0..<length ds}" using map_fst_indexed [of 0 ds] by (metis add_0 list.set_map set_upt)
  moreover have "set (store_plan ts (indexed 0 ds)) = set ts \<times> fst ` set (indexed 0 ds)" by (force simp: store_plan_def)
  ultimately show ?thesis by simp
qed

lemma length_store_plan: "length (store_plan ts rx) = length rx * length ts"
  by (induction rx) (auto simp: store_plan_def)

lemma disk_path_word: "word_ok f \<Longrightarrow> \<forall>c \<in> set (storage_path (store nd)). \<not> is_space c \<Longrightarrow> word_ok (disk_path e nd f i q)"
proof -
  assume f: "word_ok f" and b: "\<forall>c \<in> set (storage_path (store nd)). \<not> is_space c"
  have l: "\<forall>c \<in> set (''chunk_'' @ ''_'' @ ''.dat''). \<not> is_space c" by code_simp
  have n: "\<forall>c \<in> set (show_int j). \<not> is_space c" for j using word_ok_show_int [of j] by (simp add: word_ok_def)
  show ?thesis
    using f b l n unfolding word_ok_def disk_path_def chunk_path_def unique_chunk_id_def set_append ball_Un by simp
qed

text \<open>A storage server that the head server and the client both reach under its registered address, and that can take
  the chunks of the file.\<close>

definition reachable ::
  "cluster head_env \<Rightarrow> string \<times> int \<Rightarrow> (string \<Rightarrow> node_env) \<Rightarrow> locator \<Rightarrow> locator \<Rightarrow> string \<Rightarrow> byte list \<Rightarrow> nat \<Rightarrow> cluster \<Rightarrow> string \<Rightarrow> bool" where
  "reachable env head e locate public f content n c s \<longleftrightarrow>
     word_ok s \<and> locate (fst (parse_address 8080 s)) (transfer_port_of (he_registry env) s) = Some s \<and>
     (let a = (ip_only s, public_port_of (he_registry env) s) in
        a \<noteq> head \<and> public (fst a) (snd a) = Some s \<and> word_ok (fst a) \<and> in_int (snd a)) \<and>
     takes (he_codec env) (e s) f (int ` {0..<length (client_chunks content)}) (chunk_of content) n (c s)"

lemma stored_transfer_ok:
  assumes "stored_as e c0 f g n x t" "word_ok f" "word_ok (fst x)" "in_int (snd x)"
    and "\<forall>ch \<in> set (storage_path (store (c0 (fst x)))). \<not> is_space ch"
  shows "transfer_ok t" "tr_outcome t \<noteq> None"
  using assms sha256_word_ok disk_path_word [OF assms(2,5)] by (auto simp: stored_as_def transfer_ok_def)

text \<open>The replicas the metadata names after the stores are where it says.\<close>

definition transfer_loc :: "transfer \<Rightarrow> chunk_location" where
  "transfer_loc t = \<lparr>cl_id = tr_chunk t, cl_server = tr_server t, cl_path = the (tr_outcome t)\<rparr>"

lemma collected_locations:
  assumes "\<forall>t \<in> set ts. in_int (tr_chunk t) \<and> (\<exists>p. tr_outcome t = Some p \<and> p \<noteq> [])"
    and "fr_chunks (query_metadata f st) = map info_record (collect_transfers f ts)"
  shows "get_chunk_locations_from_metadata f st = (map transfer_loc ts, fr_hash (query_metadata f st))"
proof -
  have "filter (\<lambda>t. tr_outcome t \<noteq> None) ts = ts" using assms(1) by (auto simp: filter_id_conv)
  then show ?thesis
    using assms(1) unfolding get_chunk_locations_from_metadata_def Let_def assms(2)
    by (auto simp: collect_transfers_def Let_def info_record_def transfer_loc_def wrap_int_id split: option.split list.split)
qed

lemma stored_location_held:
  assumes "stored_as e c0 f (chunk_of content) n (s, i) t" "content \<noteq> []" "i \<in> int ` {0..<length (client_chunks content)}"
    and "reachable env head e locate public f content n c0 s" "after_stores (c0 s) n (c s)"
    and "chunk_map (store (c s)) (unique_chunk_id f i) = Some (chunk_of content i)"
  shows "replica_held (he_codec env) e c f (chunk_of content) (transfer_loc t)"
proof -
  obtain q where q: "tr_server t = s" "tr_chunk t = i" "tr_outcome t = Some (disk_path (e s) (c0 s) f i q)"
    "unat (seq (store (c0 s))) < unat q" "unat q \<le> unat (seq (store (c0 s))) + n"
    using assms(1) by (auto simp: stored_as_def)
  have t: "disk_ready (e s) (length (chunk_of content i))" "length (get_line f i) < 255"
    "chunk_fits (he_codec env) (e s) (c0 s) f i (chunk_of content i) q"
    using assms(3,4) q(4,5) by (auto simp: reachable_def takes_def)
  have "nat i < length (client_chunks content)" using assms(3) by auto
  then have "chunk_of content i \<noteq> []" unfolding chunk_of_def using client_chunks_nonempty [OF nth_mem assms(2)] by blast
  then show ?thesis
    using q(1-3) t assms(5,6) by (simp add: replica_held_def transfer_loc_def Let_def after_stores_def chunk_fits_def disk_path_def)
qed

text \<open>All transfers of an upload to reachable servers, and the state of the servers afterwards.\<close>

lemma all_transfers_held:
  assumes "list_all2 (stored_as e c0 f (chunk_of content) N) (store_plan ts (indexed 0 (client_chunks content))) tr"
    and "\<forall>s \<in> set ts. reachable env head e locate public f content N c0 s" "\<forall>s \<in> set ts. after_stores (c0 s) N (c s)"
    and "\<forall>s \<in> set ts. \<forall>i \<in> int ` {0..<length (client_chunks content)}. chunk_map (store (c s)) (unique_chunk_id f i) = Some (chunk_of content i)"
    and "content \<noteq> []" "word_ok f" "length content < 2 ^ 50" "t \<in> set tr"
  shows "transfer_ok t \<and> (\<exists>p. tr_outcome t = Some p \<and> p \<noteq> []) \<and> in_int (tr_chunk t) \<and> tr_server t \<in> set ts \<and>
      replica_held (he_codec env) e c f (chunk_of content) (transfer_loc t)"
proof -
  obtain j where j: "j < length tr" "t = tr ! j" using assms(8) by (auto simp: in_set_conv_nth)
  obtain x where x: "x \<in> set (store_plan ts (indexed 0 (client_chunks content)))" "stored_as e c0 f (chunk_of content) N x t"
    using list_all2_nthD2 [OF assms(1) j(1)] list_all2_lengthD [OF assms(1)] j by (metis nth_mem)
  obtain s i where si: "x = (s, i)" "s \<in> set ts" "i \<in> int ` {0..<length (client_chunks content)}"
    using x(1) unfolding set_store_plan by (cases x) auto
  note r = assms(2) [rule_format, OF si(2)]
  have w: "word_ok s" "\<forall>ch \<in> set (storage_path (store (c0 s))). \<not> is_space ch" using r by (auto simp: reachable_def takes_def)
  have i: "in_int i" using si(3) client_chunk_count_bound [OF assms(7)] by (auto simp: in_int_def int_min_def int_max_def)
  have t: "transfer_ok t" "tr_chunk t = i" "tr_server t = s" "\<exists>q. tr_outcome t = Some (disk_path (e s) (c0 s) f i q)"
    using stored_transfer_ok(1) [OF x(2) assms(6)] x(2) w i by (auto simp: si(1) stored_as_def)
  moreover have "disk_path (e s) (c0 s) f i q \<noteq> []" for q using disk_path_word [OF assms(6) w(2)] by (auto simp: word_ok_def)
  moreover have "replica_held (he_codec env) e c f (chunk_of content) (transfer_loc t)"
    using stored_location_held [OF x(2) [unfolded si(1)] assms(5) si(3) r] assms(3,4) si(2,3) by blast
  ultimately show ?thesis using i si(2) by auto
qed

lemma upload_places:
  assumes "codec_ok (he_codec env)" "he_net env = cluster_net (he_codec env) e locate"
    and "fs path = Some content" "content \<noteq> []" "length content < 2 ^ 50" "word_ok f" "CHR 0x00 \<notin> set f"
    and "taking n rs" "3 < n" "length (upload_request_line f content) < n"
    and "\<forall>(j, d) \<in> set (indexed 0 (client_chunks content)). length (chunk_header j d) < n"
    and "length content + length (client_chunks content) + 2 \<le> length rs"
    and "ts = select_servers_for_chunk env (he_replication env)" "ts \<noteq> []" "in_int (he_replication env)"
    and "N = length (client_chunks content) * length ts" "int N \<le> int_max"
    and "\<forall>s \<in> set ts. reachable env head e locate public f content N c s"
    and "umap_wf (files st)"
  shows "\<exists>st' c' locs. file_upload (head_talk env srt ctl) rs (fst head) (snd head) path f fs (st, c) = Some (0, (st', c')) \<and>
    get_chunk_locations_from_metadata f st' = (locs, sha256 content) \<and> cl_id ` set locs = int ` {0..<length (client_chunks content)} \<and>
    (\<forall>l \<in> set locs. cl_server l \<in> set ts \<and> replica_held (he_codec env) e c' f (chunk_of content) l)"
proof -
  let ?m = "length (client_chunks content)" and ?g = "chunk_of content"
  let ?I = "int ` {0..<?m}" and ?xs = "store_plan ts (indexed 0 (client_chunks content))"
  have xs: "set ?xs = set ts \<times> ?I" "length ?xs = N" by (simp_all add: set_store_plan length_store_plan assms(16))
  have start: "\<forall>s \<in> set ts. after_stores (c s) 0 (c s)" using assms(18) by (auto simp: reachable_def takes_def after_stores_def)
  have R: "\<forall>s \<in> set ts. locate (fst (parse_address 8080 s)) (transfer_port_of (he_registry env) s) = Some s"
    "\<forall>s \<in> set ts. takes (he_codec env) (e s) f ?I ?g N (c s)" using assms(18) by (auto simp: reachable_def)
  obtain tr c' where tr: "run_stores env f ?g ?xs c = (tr, c')" "list_all2 (stored_as e c f ?g N) ?xs tr"
    "\<forall>s \<in> set ts. after_stores (c s) N (c' s)"
    "\<forall>s i. chunk_map (store (c' s)) (unique_chunk_id f i) = (if (s, i) \<in> set ?xs then Some (?g i) else chunk_map (store (c s)) (unique_chunk_id f i))"
    using stores_succeed [OF assms(1,2) R equalityD1 [OF xs(1)] start] xs(2) by auto
  have sub: "submit_all env f (indexed 0 (client_chunks content)) [] c = (tr, c')"
    using submit_all_stores [OF indexed_chunk_of, of env f content "[]" c] tr(1) assms(13) by simp
  have "\<forall>s \<in> set ts. \<forall>i \<in> ?I. chunk_map (store (c' s)) (unique_chunk_id f i) = Some (?g i)" using tr(4) xs(1) by auto
  note each = all_transfers_held [OF tr(2) assms(18) tr(3) this assms(4,6,5)]
  have len: "length tr = N" using list_all2_lengthD [OF tr(2)] xs(2) by simp
  then have "tr \<noteq> []" using client_chunks_concat [of content] assms(4,14,16) by auto
  then have "\<exists>t \<in> set tr. tr_outcome t \<noteq> None" using each by (metis hd_in_set option.distinct(1))
  moreover have "\<forall>t \<in> set tr. transfer_ok t" using each by blast
  moreover have "int (length tr) \<le> int_max" using len assms(17) by simp
  ultimately obtain st' where up: "file_upload (head_talk env srt ctl) rs (fst head) (snd head) path f fs (st, c) = Some (0, (st', c'))"
    "fr_hash (query_metadata f st') = sha256 content" "fr_chunks (query_metadata f st') = map info_record (collect_transfers f tr)"
    using upload_reaches_metadata [where fs = fs and path = path and st = st, OF assms(3-12) sub _ _ _ assms(15,19)] by metis
  have "\<forall>t \<in> set tr. in_int (tr_chunk t) \<and> (\<exists>p. tr_outcome t = Some p \<and> p \<noteq> [])" using each by blast
  then have locs: "get_chunk_locations_from_metadata f st' = (map transfer_loc tr, sha256 content)"
    using collected_locations [OF _ up(3)] unfolding up(2) by blast
  have "map tr_chunk tr = map snd ?xs"
    using tr(2) by (intro nth_equalityI) (auto simp: list_all2_conv_all_nth stored_as_def)
  then have "tr_chunk ` set tr = ?I" using xs(1) assms(14) by (metis list.set_map set_empty snd_image_times)
  then have "cl_id ` set (map transfer_loc tr) = ?I" by (simp add: transfer_loc_def image_comp comp_def)
  moreover have "\<forall>l \<in> set (map transfer_loc tr). cl_server l \<in> set ts \<and> replica_held (he_codec env) e c' f ?g l"
    using each by (auto simp: transfer_loc_def)
  ultimately show ?thesis using up(1) locs by blast
qed

text \<open>One storage server, registered nowhere, behind the address of the configuration.\<close>

definition sample_book :: "int \<Rightarrow> locator" where
  "sample_book p ip port = (if ip = ''a'' \<and> port = p then Some ''a:1'' else None)"

definition sample_grid :: "cluster head_env" where
  "sample_grid = \<lparr>he_codec = field_codec, he_net = cluster_net field_codec (\<lambda>s. sample_env) (sample_book 8180),
     he_sort = (\<lambda>hm xs. xs), he_config_servers = [(''a'', 1)], he_registry = new_registry,
     he_monitor = new_monitor 60 10, he_replication = 1, he_chunk_size = 4\<rparr>"

lemma sample_grid_servers: "select_servers_for_chunk sample_grid 1 = [''a:1'']"
  by (simp add: select_servers_for_chunk_def sample_grid_def get_all_health_def new_monitor_def get_addresses_def
      new_registry_def load_cluster_servers_def usable_def show_int_def show_nat.simps [of "Suc 0"] digit_char_def
      in_int_def int_min_def int_max_def Let_def) code_simp

lemma sample_client_chunks: "client_chunks [7] = [[7]]"
  by (simp add: client_chunks_def num_chunks_def DEFAULT_CHUNK_SIZE_def)

lemma length_escaped [simp]: "length (concat (map ((\<lambda>b. [1, b]) \<circ> h) xs)) = 2 * length xs"
  by (induction xs) simp_all

lemma sample_chunk_fits: "chunk_fits field_codec sample_env sample_node ''f'' 0 [7] 1"
  by (simp add: chunk_fits_def Let_def sendable_def field_codec_def enc_fields_def enc_field_def str_bytes_def bool_bytes_def
      int_bytes_def chunk_path_def unique_chunk_id_def sample_node_def sample_env_def show_int_def
      show_nat.simps [of 7] show_nat.simps [of "Suc 0"] show_nat.simps [of 0])

lemma sample_takes: "takes field_codec sample_env ''f'' (int ` {0..<1}) (chunk_of [7]) 1 sample_node"
proof -
  have q: "q = 1" if "unat q \<le> 1" "0 < unat q" for q :: "64 word" using that by (metis le_antisym Suc_le_eq One_nat_def unat_1 word_unat_eq_iff)
  have n: "seq (store sample_node) = 0" "storage_path (store sample_node) = ''/s/''" by (simp_all add: sample_node_def)
  have d: "disk_ready sample_env 1" by (simp add: disk_ready_def progress_def sample_env_def)
  show ?thesis
    using sample_chunk_fits sample_node_ok(1) d
    by (auto simp: takes_def chunk_of_def sample_client_chunks get_line_def show_int_def show_nat.simps [of 0] n is_space_def) (metis q One_nat_def)
qed

lemma sample_reachable:
  "reachable sample_grid (''h'', 1) (\<lambda>s. sample_env) (sample_book 8180) (sample_book 8080) ''f'' [7] 1 (\<lambda>s. sample_node) ''a:1''"
proof -
  have "parse_address 8080 ''a:1'' = (''a'', 1)" "ip_only ''a:1'' = ''a''" "word_ok ''a:1''" "word_ok ''a''" by code_simp+
  then show ?thesis
    using sample_takes
    by (simp add: reachable_def sample_grid_def sample_client_chunks transfer_port_of_def public_port_of_def get_all_def new_registry_def
        sample_book_def in_int_def int_min_def int_max_def)
qed

lemma sample_header_length: "length (upload_request_line ''f'' [7]) < 200" "length (chunk_header 0 [7]) < 200"
  by (simp_all add: upload_request_line_eq upload_line_def chunk_header_def num_chunks_def DEFAULT_CHUNK_SIZE_def show_int_def
      show_nat.simps [of "Suc 0"] show_nat.simps [of 0])

text \<open>C1. What is uploaded is what is downloaded.  Let every server the head server selects be reachable: registered
  under the address at which it listens, with a disk whose calls complete and with frames that fit its messages.
  Then the client's upload of a file exits with code 0, and a download of that name, from the state of the head server and
  the storage servers that the upload left, exits with code 0 and writes exactly the bytes of the file; in between are the
  framed transfer protocol, the files on the disks, the metadata, the vote on the hashes and the public ports.\<close>

theorem upload_then_download:
  assumes "codec_ok (he_codec env)" "he_net env = cluster_net (he_codec env) e locate" "std_sort_ok less_loaded srt"
    and "fs path = Some content" "content \<noteq> []" "length content < 2 ^ 50" "word_ok f" "CHR 0x00 \<notin> set f"
    and "taking n rs" "3 < n" "length (upload_request_line f content) < n"
    and "\<forall>(j, d) \<in> set (indexed 0 (client_chunks content)). length (chunk_header j d) < n"
    and "length content + length (client_chunks content) + 2 \<le> length rs"
    and "ts = select_servers_for_chunk env (he_replication env)" "ts \<noteq> []" "in_int (he_replication env)"
    and "N = length (client_chunks content) * length ts" "int N \<le> int_max"
    and "\<forall>s \<in> set ts. reachable env head e locate public f content N c s"
    and "umap_wf (files st)" "\<And>cs. mset (sched cs) = mset cs" "ldisk out = Some k" "k content = content"
  shows "\<exists>st' c'. file_upload (head_talk env srt ctl) rs (fst head) (snd head) path f fs (st, c) = Some (0, (st', c')) \<and>
    file_download (grid_dial env srt ctl head e public) sched ldisk (fst head) (snd head) f out fs (st', c') =
      (Inr (0, fs(out := Some content)), (st', c'))"
proof -
  let ?m = "length (client_chunks content)" and ?g = "chunk_of content"
  obtain st' c' locs where up: "file_upload (head_talk env srt ctl) rs (fst head) (snd head) path f fs (st, c) = Some (0, (st', c'))"
    "get_chunk_locations_from_metadata f st' = (locs, sha256 content)" "cl_id ` set locs = int ` {0..<?m}"
    "\<forall>l \<in> set locs. cl_server l \<in> set ts \<and> replica_held (he_codec env) e c' f ?g l"
    using upload_places [where fs = fs and path = path and st = st and srt = srt and ctl = ctl, OF assms(1,2,4-20)] by blast
  have m: "0 < ?m" using assms(5) client_chunks_concat [of content] by (cases "client_chunks content") auto
  have bound: "int ?m \<le> int_max" using client_chunk_count_bound [OF assms(6)] by (simp add: int_max_def)
  have cat: "concat (map (\<lambda>i. ?g (int i)) [0..<?m]) = content" unfolding chunk_of_all client_chunks_concat ..
  then have kc: "k (concat (map (\<lambda>i. ?g (int i)) [0..<?m])) = concat (map (\<lambda>i. ?g (int i)) [0..<?m])" using assms(23) by simp
  have len: "\<forall>i < ?m. length (?g (int i)) \<le> max_vector" by (auto simp: chunk_of_def intro: client_chunk_length nth_mem)
  have reach: "\<forall>l \<in> set locs. reachable env head e locate public f content N c (cl_server l)" using up(4) assms(19) by blast
  have "file_download (grid_dial env srt ctl head e public) sched ldisk (fst head) (snd head) f out fs (st', c') =
      (Inr (0, fs(out := Some (concat (map (\<lambda>i. ?g (int i)) [0..<?m])))), (st', c'))"
    using up(4) reach unfolding reachable_def
    by (intro download_held [where locate = locate and g = ?g and locs = locs and k = k] assms(1-3,7,8,21,22) kc up(3) m bound len) (simp_all add: cat up(2))
  then show ?thesis using up(1) unfolding cat by blast
qed

theorem upload_then_download_witness:
  "\<exists>st' c'. file_upload (head_talk sample_grid (sort_key (\<lambda>x. (hr_active (snd x), hr_load (snd x)))) (\<lambda>ip port m w. (None, w)))
       (replicate 4 (Ready 200)) ''h'' 1 ''p'' ''f'' (Map.empty(''p'' := Some [7])) (open_store None True, \<lambda>s. sample_node) = Some (0, (st', c')) \<and>
     file_download (grid_dial sample_grid (sort_key (\<lambda>x. (hr_active (snd x), hr_load (snd x)))) (\<lambda>ip port m w. (None, w)) (''h'', 1)
       (\<lambda>s. sample_env) (sample_book 8080)) rev (\<lambda>p. Some id) ''h'' 1 ''f'' ''o'' (Map.empty(''p'' := Some [7])) (st', c') =
       (Inr (0, Map.empty(''p'' := Some [7], ''o'' := Some [7])), (st', c'))"
proof -
  have srt: "std_sort_ok less_loaded (sort_key (\<lambda>x. (hr_active (snd x), hr_load (snd x))))"
    unfolding less_loaded_key by (rule std_sort_ok_sort_key)
  have wf: "umap_wf (files (open_store None True))" by (simp add: umap_wf_def open_store_def load_from_disk_def)
  have env: "codec_ok (he_codec sample_grid)" "he_net sample_grid = cluster_net (he_codec sample_grid) (\<lambda>s. sample_env) (sample_book 8180)"
    "he_replication sample_grid = 1"
    using field_codec_ok by (simp_all add: sample_grid_def)
  have "word_ok ''f''" by code_simp
  then show ?thesis
    using upload_then_download [where fs = "Map.empty(''p'' := Some [7])" and path = "''p''" and content = "[7]" and f = "''f''" and n = 200
        and rs = "replicate 4 (Ready 200)" and ts = "[''a:1'']" and N = 1 and head = "(''h'', 1)" and public = "sample_book 8080"
        and c = "\<lambda>s. sample_node" and st = "open_store None True" and sched = rev and ldisk = "\<lambda>p. Some id" and k = id and out = "''o''"
        and ctl = "\<lambda>ip port m w. (None, w)", OF env(1,2) srt] sample_reachable sample_header_length wf
    by (simp add: env(3) sample_grid_servers sample_client_chunks taking_def in_int_def int_min_def int_max_def)
qed

section \<open>Listing\<close>

text \<open>C39. Listing, end to end: the client prints exactly the names in the metadata, in their order, as long as each is a name
  the line protocol can carry: not empty, without a newline, not \<^verbatim>\<open>EOF\<close> and not like an error message.\<close>

theorem list_end_to_end:
  assumes "\<forall>f \<in> set (list_files_snapshot (fst w)). listable f"
  shows "file_list (grid_dial env srt ctl head e public) (fst head) (snd head) w = (0, list_files_snapshot (fst w), w)"
proof -
  have t: "takeWhile (\<lambda>c. c \<noteq> CHR 0x00) (''LIST'' @ [nl]) = ''LIST'' @ [nl]" by (simp add: nl_def)
  have "handle_client env srt ctl (''LIST'' @ [nl]) [] (fst w) (snd w) =
      Inr (fst w, concat (map (\<lambda>f. f @ [nl]) (list_files_snapshot (fst w))) @ ''EOF'' @ [nl], snd w)"
    unfolding handle_client_def Let_def t by (simp add: starts_with_def)
  then show ?thesis using list_lines_names [OF assms] by (simp add: file_list_def grid_dial_def)
qed

theorem list_end_to_end_witness:
  "file_list (grid_dial sample_grid id (\<lambda>ip port m w. (None, w)) (''h'', 1) (\<lambda>s. sample_env) (sample_book 8080)) ''h'' 1
     (sample_file, \<lambda>s. sample_node) = (0, [''f''], (sample_file, \<lambda>s. sample_node))"
proof -
  have l: "list_files_snapshot sample_file = [''f'']" by code_simp
  have "listable ''f''" by (simp add: listable_def starts_with_def nl_def)
  then show ?thesis
    using list_end_to_end [of "(sample_file, \<lambda>s. sample_node)" sample_grid id "\<lambda>ip port m w. (None, w)" "(''h'', 1)"] l by simp
qed

section \<open>The vote of the head servers\<close>

lemma health_query_parts:
  "\<exists>body. request_parts (health_query host sid) = (''GET'', cluster_path @ ''/'' @ show_int sid @ ''/health'', body)"
proof -
  let ?p = "cluster_path @ ''/'' @ show_int sid @ ''/health''"
  obtain r where q: "health_query host sid = ''GET'' @ CHR '' '' # ?p @ CHR '' '' # r"
    by (simp add: health_query_def cluster_path_def)
  have sp: "is_space (CHR '' '')" by (simp add: is_space_def)
  have "\<forall>c \<in> set (cluster_path @ ''/'' @ ''/health''). \<not> is_space c" "word_ok ''GET''" by code_simp+
  moreover have "\<forall>c \<in> set (show_int sid). \<not> is_space c" using word_ok_show_int by (simp add: word_ok_def)
  ultimately have w: "word_ok ''GET''" "word_ok ?p" unfolding word_ok_def set_append ball_Un by auto
  have "read_word (health_query host sid) = Some (''GET'', CHR '' '' # ?p @ CHR '' '' # r)"
    unfolding q using sp by (intro read_word_word [OF w(1)]) simp
  moreover have "read_word (CHR '' '' # ?p @ CHR '' '' # r) = Some (?p, CHR '' '' # r)"
    unfolding read_word_blank using sp by (intro read_word_word [OF w(2)]) simp
  ultimately show ?thesis by (simp add: request_parts_def Let_def)
qed

lemma contains_suffix: "contains t (s @ t)"
proof (induction s)
  case Nil
  show ?case by (cases t) (simp_all add: contains_def starts_with_def)
next
  case (Cons c s)
  then show ?case by (auto simp: contains_def)
qed

text \<open>A head server never reports another server as healthy.\<close>

lemma peer_answer: "\<not> says_healthy (fst (snd (handle_request env (health_query host sid) s)))"
proof -
  obtain body where p: "request_parts (health_query host sid) = (''GET'', cluster_path @ ''/'' @ show_int sid @ ''/health'', body)"
    using health_query_parts by blast
  have "contains ''/health'' (cluster_path @ ''/'' @ show_int sid @ ''/health'')"
    using contains_suffix [of "''/health''" "cluster_path @ ''/'' @ show_int sid"] by simp
  moreover have "starts_with (cluster_path @ ''/'') (cluster_path @ ''/'' @ show_int sid @ ''/health'')" by (simp add: starts_with_def)
  ultimately have "handle_request env (health_query host sid) s = (s, make_response 400 (error_body ''Invalid server ID''), [])"
    using path_id_rejected [OF p] by blast
  moreover have "\<not> says_healthy (make_response 400 (error_body ''Invalid server ID''))" by code_simp
  ultimately show ?thesis by simp
qed

text \<open>The vote on a failing server has no voters: as long as the peers run this control API, no answer of any of
  them, in any state, says that the server is healthy, so the vote among the head servers always confirms the failure.\<close>

theorem peers_never_veto:
  assumes "\<And>host port req w r w'. http host port req w = (Some r, w') \<Longrightarrow> \<exists>env s. r = fst (snd (handle_request env req s))"
  shows "fst (query_peers http sid peers w)"
proof (induction peers arbitrary: w)
  case (Cons p peers)
  obtain host port where p: "p = (host, port)" by force
  obtain r w' where r: "http host port (health_query host sid) w = (r, w')" by force
  have "\<not> says_healthy x" if "r = Some x" for x using assms [OF r [unfolded that]] peer_answer by auto
  then show ?case using Cons r p by (cases r) simp_all
qed simp

text \<open>A peer that knows the server and believes it healthy.\<close>

definition sample_peer :: "unit ctl" where
  "sample_peer host port req w =
     (Some (fst (snd (handle_request sample_api req (new_registry, register_server 0 3 ''a:1'' (new_monitor 60 10))))), w)"

theorem peers_never_veto_witness: "fst (query_peers sample_peer 3 [(''h'', 9)] ())"
  by (rule peers_never_veto) (auto simp: sample_peer_def)

end
