(* ===== verification/Zk_Monitor.thy ===== *)
theory Zk_Monitor
  imports Zookeeper Config_Loader Complex_Main
begin

text \<open>
  The monitor of the head servers, \<^verbatim>\<open>src/zk_monitor/zk_monitor.cpp\<close>: the wrapper of the ZooKeeper client, the
  discovery and health checks of head servers, the leader election, the report, the management API and the command
  line.  What the process has from outside is the record \<open>mon_env\<close> over a state \<open>'w\<close> of the world: the steady clock in
  nanoseconds, one connection attempt to a head server, sleeping, and the conversions between floating-point
  numbers, which are rationals here, and text.  Metrics and messages are left out.
\<close>

section \<open>The client wrapper\<close>

record wrapper =
  wr_client :: zk_client
  wr_connected :: bool

type_synonym zkw = "wrapper \<times> zk_store"

definition wr_connect :: "wrapper \<Rightarrow> wrapper \<times> bool" where
  "wr_connect wr =
     (if wr_connected wr then (wr, True)
      else
        (let (c, ok, _) = zk_connect (set_watch_callback True (wr_client wr))
         in if ok then (\<lparr>wr_client = c, wr_connected = True\<rparr>, True) else (wr\<lparr>wr_client := c\<rparr>, False)))"

definition handle_watch_event :: "int \<Rightarrow> wrapper \<Rightarrow> wrapper" where
  "handle_watch_event state wr =
     (if state = 3 then wr\<lparr>wr_connected := True\<rparr>
      else if state = -112 then fst (wr_connect (wr\<lparr>wr_connected := False\<rparr>))
      else if state = -113 then wr\<lparr>wr_connected := False\<rparr>
      else wr)"

definition new_wrapper :: "string \<Rightarrow> wrapper" where
  "new_wrapper hosts = fst (wr_connect \<lparr>wr_client = new_client hosts, wr_connected = False\<rparr>)"

text \<open>Every operation connects first; \<open>d\<close> is what it returns when that fails.\<close>

definition with_connection :: "'a \<Rightarrow> (zk_client \<Rightarrow> zk_store \<Rightarrow> 'a \<times> zk_store) \<Rightarrow> zkw \<Rightarrow> 'a \<times> zkw" where
  "with_connection d act zw =
     (let (wr, ok) = wr_connect (fst zw) in
      if \<not> ok then (d, (wr, snd zw))
      else (let (r, st) = act (wr_client wr) (snd zw) in (r, (wr, st))))"

text \<open>\<^verbatim>\<open>create_node\<close> makes the missing parents first, without data.\<close>

function make_node :: "zk_client \<Rightarrow> string \<Rightarrow> string \<Rightarrow> bool \<Rightarrow> zk_store \<Rightarrow> bool \<times> zk_store" where
  "make_node c path data ephemeral st =
     (let st1 = (case find_last_char (CHR ''/'') path of
                   None \<Rightarrow> st
                 | Some pos \<Rightarrow>
                     if pos \<noteq> 0 \<and> \<not> node_exists (take pos path) st
                     then snd (make_node c (take pos path) [] False st) else st);
          (st2, rc, _) = create_node c path data ephemeral False st1
      in (rc = ZOK \<or> rc = ZNODEEXISTS, st2))"
  by pat_completeness auto
termination
  by (relation "measure (\<lambda>(c, path, _). length path)") (auto dest: find_last_char_less)

declare make_node.simps [simp del]

definition wr_create_node :: "string \<Rightarrow> string \<Rightarrow> bool \<Rightarrow> zkw \<Rightarrow> bool \<times> zkw" where
  "wr_create_node path data ephemeral = with_connection False (\<lambda>c. make_node c path data ephemeral)"

definition wr_update_node :: "string \<Rightarrow> string \<Rightarrow> zkw \<Rightarrow> bool \<times> zkw" where
  "wr_update_node path data =
     with_connection False (\<lambda>c st. let (st', rc, _) = set_node_data c path data st in (rc = ZOK, st'))"

definition wr_get_node_data :: "string \<Rightarrow> zkw \<Rightarrow> string \<times> zkw" where
  "wr_get_node_data path = with_connection [] (\<lambda>c st. (get_node_data path st, st))"

definition wr_node_exists :: "string \<Rightarrow> zkw \<Rightarrow> bool \<times> zkw" where
  "wr_node_exists path = with_connection False (\<lambda>c st. (node_exists path st, st))"

definition wr_delete_node :: "string \<Rightarrow> zkw \<Rightarrow> bool \<times> zkw" where
  "wr_delete_node path =
     with_connection False (\<lambda>c st. let (st', rc, _) = delete_node c path st in (rc = ZOK, st'))"

definition wr_list_children :: "string \<Rightarrow> zkw \<Rightarrow> string list \<times> zkw" where
  "wr_list_children path = with_connection [] (\<lambda>c st. (get_children path st, st))"

text \<open>\<^verbatim>\<open>if (node_exists(p)) update_node(p, data); else create_node(p, data, ephemeral)\<close>.\<close>

definition put_node :: "string \<Rightarrow> string \<Rightarrow> bool \<Rightarrow> zkw \<Rightarrow> bool \<times> zkw" where
  "put_node path data ephemeral zw =
     (let (ex, zw1) = wr_node_exists path zw in
      if ex then wr_update_node path data zw1 else wr_create_node path data ephemeral zw1)"

section \<open>Head servers\<close>

record head_info =
  hi_id :: string
  hi_ip :: string
  hi_port :: int
  hi_heartbeat :: int
  hi_check :: int
  hi_leader :: bool
  hi_status :: string
  hi_cpu :: rat
  hi_memory :: rat
  hi_connections :: int
  hi_failures :: int

text \<open>The constructor sets the time of the last check; the port is left uninitialised and holds \<open>junk\<close>.\<close>

definition new_head_info :: "int \<Rightarrow> int \<Rightarrow> head_info" where
  "new_head_info junk now = \<lparr>hi_id = [], hi_ip = [], hi_port = junk, hi_heartbeat = 0, hi_check = now, hi_leader = False,
     hi_status = ''unknown'', hi_cpu = 0, hi_memory = 0, hi_connections = 0, hi_failures = 0\<rparr>"

text \<open>One attempt to connect: no socket, an unknown host, a connection at once, one in progress with whether the socket
  became writable in five seconds and its error code, or a refusal.\<close>

datatype probe_res = No_socket | No_host | Connected | In_progress bool int | Refused

record 'w mon_env =
  me_clock :: "'w \<Rightarrow> int \<times> 'w"
  me_probe :: "string \<Rightarrow> int \<Rightarrow> 'w \<Rightarrow> probe_res \<times> 'w"
  me_sleep :: "'w \<Rightarrow> 'w"
  me_stod :: "string \<Rightarrow> cxx_exn + rat"
  me_to_string :: "rat \<Rightarrow> string"
  me_put :: "rat \<Rightarrow> string"
  me_junk :: "string \<Rightarrow> int"

text \<open>\<^verbatim>\<open>std::getline(iss, token, ',')\<close>.\<close>

fun split_commas :: "string \<Rightarrow> string \<Rightarrow> string list" where
  "split_commas acc [] = (if acc = [] then [] else [rev acc])"
| "split_commas acc (c # cs) = (if c = CHR '','' then rev acc # split_commas [] cs else split_commas (c # acc) cs)"

definition set_field :: "(string \<Rightarrow> cxx_exn + rat) \<Rightarrow> string \<Rightarrow> string \<Rightarrow> head_info \<Rightarrow> cxx_exn + head_info" where
  "set_field stod key val info =
     (if key = ''ip'' then Inr (info\<lparr>hi_ip := val\<rparr>)
      else if key = ''port'' then map_sum id (\<lambda>n. info\<lparr>hi_port := n\<rparr>) (stoi val)
      else if key = ''status'' then Inr (info\<lparr>hi_status := val\<rparr>)
      else if key = ''cpu_usage'' then map_sum id (\<lambda>r. info\<lparr>hi_cpu := r\<rparr>) (stod val)
      else if key = ''memory_usage'' then map_sum id (\<lambda>r. info\<lparr>hi_memory := r\<rparr>) (stod val)
      else if key = ''active_connections'' then map_sum id (\<lambda>n. info\<lparr>hi_connections := n\<rparr>) (stoi val)
      else if key = ''last_update'' then map_sum id (\<lambda>n. info\<lparr>hi_heartbeat := n\<rparr>) (stoll val)
      else Inr info)"

fun parse_fields :: "(string \<Rightarrow> cxx_exn + rat) \<Rightarrow> string list \<Rightarrow> head_info \<Rightarrow> cxx_exn + head_info" where
  "parse_fields stod [] info = Inr info"
| "parse_fields stod (t # ts) info =
     (case find_char (CHR ''='') t of
        None \<Rightarrow> parse_fields stod ts info
      | Some p \<Rightarrow>
          (case set_field stod (take p t) (drop (p + 1) t) info of
             Inl e \<Rightarrow> Inl e
           | Inr info' \<Rightarrow> parse_fields stod ts info'))"

definition parse_server_data :: "(string \<Rightarrow> cxx_exn + rat) \<Rightarrow> int \<Rightarrow> int \<Rightarrow> string \<Rightarrow> cxx_exn + head_info" where
  "parse_server_data stod junk now data = parse_fields stod (split_commas [] data) (new_head_info junk now)"

section \<open>Health checks\<close>

fun probe_ok :: "probe_res \<Rightarrow> bool" where
  "probe_ok Connected = True"
| "probe_ok (In_progress writable err) = (writable \<and> err = 0)"
| "probe_ok r = False"

text \<open>The attempts left to make; a second passes between two of them, unless the socket or the host was missing.\<close>

fun attempts :: "'w mon_env \<Rightarrow> string \<Rightarrow> int \<Rightarrow> nat \<Rightarrow> 'w \<Rightarrow> bool \<times> 'w" where
  "attempts env ip port 0 w = (False, w)"
| "attempts env ip port (Suc n) w =
     (let (r, w') = me_probe env ip port w in
      if probe_ok r then (True, w')
      else attempts env ip port n (if r = No_socket \<or> r = No_host \<or> n = 0 then w' else me_sleep env w'))"

type_synonym fail_counts = "(string \<times> int) list"

definition server_key :: "head_info \<Rightarrow> string" where
  "server_key s = hi_id s @ '':'' @ hi_ip s @ '':'' @ show_int (hi_port s)"

definition check_head_server_health ::
  "'w mon_env \<Rightarrow> head_info \<Rightarrow> fail_counts \<Rightarrow> 'w \<Rightarrow> bool \<times> head_info \<times> fail_counts \<times> 'w" where
  "check_head_server_health env s fc w =
     (let (now, w1) = me_clock env w in
      if now - hi_check s < 5000000000 \<and> hi_status s = ''healthy'' then (True, s, fc, w1)
      else
        (let (ok, w2) = attempts env (hi_ip s) (hi_port s mod 65536) 3 w1 in
         if ok then (True, s\<lparr>hi_check := now\<rparr>, AList.update (server_key s) 0 fc, w2)
         else
           (let failures = (case map_of fc (server_key s) of None \<Rightarrow> 0 | Some n \<Rightarrow> n) + 1
            in (False, if failures \<ge> 3 then s\<lparr>hi_status := ''unhealthy''\<rparr> else s,
                AList.update (server_key s) failures fc, w2))))"

section \<open>The monitor\<close>

record monitor_state =
  ms_zk :: zkw
  ms_servers :: "(string \<times> head_info) list"
  ms_fails :: fail_counts
  ms_id :: string
  ms_leader :: string

definition zk_root :: string where "zk_root = ''/distributed_file_grid''"
definition heads_path :: string where "heads_path = zk_root @ ''/head_servers''"
definition monitors_path :: string where "monitors_path = zk_root @ ''/monitors''"
definition reports_path :: string where "reports_path = zk_root @ ''/health_reports''"
definition leader_path :: string where "leader_path = zk_root @ ''/leader''"

text \<open>The constructor: the monitor's id and the nodes it creates.\<close>

definition new_zk_monitor :: "string \<Rightarrow> int \<Rightarrow> int \<Rightarrow> zk_store \<Rightarrow> monitor_state" where
  "new_zk_monitor hosts pid now st =
     (let zw0 = (new_wrapper hosts, st);
          zw1 = snd (wr_create_node zk_root ''Distributed File Grid Root'' False zw0);
          zw2 = snd (wr_create_node heads_path ''Head Servers Registry'' False zw1);
          zw3 = snd (wr_create_node monitors_path ''Monitors Registry'' False zw2);
          zw4 = snd (wr_create_node reports_path ''Health Reports'' False zw3)
      in \<lparr>ms_zk = zw4, ms_servers = [], ms_fails = [], ms_id = ''monitor_'' @ show_int pid @ ''_'' @ show_int now,
          ms_leader = []\<rparr>)"

definition register_monitor :: "int \<Rightarrow> string \<Rightarrow> monitor_state \<Rightarrow> bool \<times> monitor_state" where
  "register_monitor now host m =
     (let (ok, zw) = wr_create_node (monitors_path @ ''/'' @ ms_id m)
            (''monitor_id='' @ ms_id m @ '',start_time='' @ show_int now @ '',host='' @ host) True (ms_zk m)
      in (ok, m\<lparr>ms_zk := zw\<rparr>))"

text \<open>Discovery fills the map anew; an exception leaves what was filled in so far.\<close>

fun discover_children ::
  "'w mon_env \<Rightarrow> string list \<Rightarrow> (string \<times> head_info) list \<Rightarrow> zkw \<Rightarrow> 'w \<Rightarrow>
   cxx_exn option \<times> (string \<times> head_info) list \<times> zkw \<times> 'w" where
  "discover_children env [] hs zw w = (None, hs, zw, w)"
| "discover_children env (name # names) hs zw w =
     (let (data, zw1) = wr_get_node_data (heads_path @ ''/'' @ name) zw in
      if data = [] then discover_children env names hs zw1 w
      else
        (let (now, w1) = me_clock env w in
         case parse_server_data (me_stod env) (me_junk env name) now data of
           Inl e \<Rightarrow> (Some e, hs, zw1, w1)
         | Inr info \<Rightarrow> discover_children env names (omap_upd name (info\<lparr>hi_id := name\<rparr>) hs) zw1 w1))"

definition discover_head_servers ::
  "'w mon_env \<Rightarrow> monitor_state \<Rightarrow> 'w \<Rightarrow> cxx_exn option \<times> monitor_state \<times> 'w" where
  "discover_head_servers env m w =
     (let (names, zw) = wr_list_children heads_path (ms_zk m);
          (e, hs, zw', w') = discover_children env names [] zw w
      in (e, m\<lparr>ms_servers := hs, ms_zk := zw'\<rparr>, w'))"

text \<open>The health checks of the monitor loop.\<close>

fun check_all ::
  "'w mon_env \<Rightarrow> (string \<times> head_info) list \<Rightarrow> fail_counts \<Rightarrow> 'w \<Rightarrow> (string \<times> head_info) list \<times> fail_counts \<times> 'w" where
  "check_all env [] fc w = ([], fc, w)"
| "check_all env ((i, s) # hs) fc w =
     (let (ok, s', fc1, w1) = check_head_server_health env s fc w;
          (hs', fc2, w2) = check_all env hs fc1 w1
      in ((i, s'\<lparr>hi_status := if ok then ''healthy'' else ''unhealthy''\<rparr>) # hs', fc2, w2))"

section \<open>Leader election\<close>

text \<open>The search for the current leader: its name and whether it is still healthy; an unhealthy one is demoted.\<close>

fun find_leader ::
  "'w mon_env \<Rightarrow> (string \<times> head_info) list \<Rightarrow> fail_counts \<Rightarrow> 'w \<Rightarrow>
   (string \<times> head_info \<times> bool) option \<times> (string \<times> head_info) list \<times> fail_counts \<times> 'w" where
  "find_leader env [] fc w = (None, [], fc, w)"
| "find_leader env ((i, s) # hs) fc w =
     (if hi_leader s then
        (let (ok, s1, fc1, w1) = check_head_server_health env s fc w;
             s2 = (if ok then s1 else s1\<lparr>hi_leader := False, hi_status := ''unhealthy''\<rparr>)
         in (Some (i, s2, ok), (i, s2) # hs, fc1, w1))
      else
        (let (r, hs', fc', w') = find_leader env hs fc w in (r, (i, s) # hs', fc', w')))"

definition demoted_data :: "int \<Rightarrow> head_info \<Rightarrow> string" where
  "demoted_data now s = ''ip='' @ hi_ip s @ '',port='' @ show_int (hi_port s) @ '',status=unhealthy'' @
     '',last_update='' @ show_int now"

definition demote_node :: "int \<Rightarrow> head_info \<Rightarrow> zkw \<Rightarrow> zkw" where
  "demote_node now s zw =
     (let path = heads_path @ ''/'' @ hi_id s; (ex, zw1) = wr_node_exists path zw
      in if ex then snd (wr_update_node path (demoted_data now s) zw1) else zw1)"

text \<open>The candidate kept so far is replaced by one that is better in both measures, or equal in both and smaller
  in its name.\<close>

definition better :: "string \<times> head_info \<Rightarrow> (string \<times> head_info) option \<Rightarrow> bool" where
  "better c best \<longleftrightarrow>
     (case best of
        None \<Rightarrow> True
      | Some (j, b) \<Rightarrow>
          hi_cpu (snd c) < hi_cpu b \<and> hi_memory (snd c) < hi_memory b \<or>
          hi_cpu (snd c) = hi_cpu b \<and> hi_memory (snd c) = hi_memory b \<and> fst c < hi_id b)"

fun find_candidate ::
  "'w mon_env \<Rightarrow> (string \<times> head_info) option \<Rightarrow> (string \<times> head_info) list \<Rightarrow> fail_counts \<Rightarrow> 'w \<Rightarrow>
   (string \<times> head_info) option \<times> (string \<times> head_info) list \<times> fail_counts \<times> 'w" where
  "find_candidate env best [] fc w = (best, [], fc, w)"
| "find_candidate env best ((i, s) # hs) fc w =
     (let (ok, s1, fc1, w1) = (if hi_status s \<noteq> ''healthy'' then check_head_server_health env s fc w else (True, s, fc, w));
          best1 = (if ok \<and> better (i, s1) best then Some (i, s1) else best);
          (r, hs', fc2, w2) = find_candidate env best1 hs fc1 w1
      in (r, (i, s1) # hs', fc2, w2))"

fun least_failures :: "(string \<times> head_info) option \<Rightarrow> (string \<times> head_info) list \<Rightarrow> (string \<times> head_info) option" where
  "least_failures best [] = best"
| "least_failures best (c # hs) =
     least_failures (case best of None \<Rightarrow> Some c
                     | Some b \<Rightarrow> if hi_failures (snd c) < hi_failures (snd b) then Some c else best) hs"

definition leader_data :: "int \<Rightarrow> head_info \<Rightarrow> string" where
  "leader_data now s = ''server_id='' @ hi_id s @ '',elected_at='' @ show_int now @
     '',ip='' @ hi_ip s @ '',port='' @ show_int (hi_port s)"

definition degraded_data :: "int \<Rightarrow> head_info \<Rightarrow> string" where
  "degraded_data now s = ''server_id='' @ hi_id s @ '',status=degraded'' @ '',elected_at='' @ show_int now @
     '',ip='' @ hi_ip s @ '',port='' @ show_int (hi_port s)"

definition leading_data :: "(rat \<Rightarrow> string) \<Rightarrow> int \<Rightarrow> head_info \<Rightarrow> string" where
  "leading_data str now s = ''ip='' @ hi_ip s @ '',port='' @ show_int (hi_port s) @ '',status=leader'' @
     '',cpu_usage='' @ str (hi_cpu s) @ '',memory_usage='' @ str (hi_memory s) @
     '',active_connections='' @ show_int (hi_connections s) @ '',last_update='' @ show_int now"

definition unset_leader :: "string \<Rightarrow> (string \<times> head_info) list \<Rightarrow> (string \<times> head_info) list" where
  "unset_leader i hs =
     (case map_of hs i of Some s \<Rightarrow> if i \<noteq> [] then omap_upd i (s\<lparr>hi_leader := False\<rparr>) hs else hs | None \<Rightarrow> hs)"

definition promote :: "'w mon_env \<Rightarrow> int \<Rightarrow> string \<Rightarrow> string \<times> head_info \<Rightarrow> monitor_state \<Rightarrow> monitor_state" where
  "promote env now current c m =
     (let s = (snd c)\<lparr>hi_leader := True, hi_status := ''healthy''\<rparr>;
          zw1 = snd (put_node leader_path (leader_data now s) False (ms_zk m));
          zw2 = snd (put_node (heads_path @ ''/'' @ hi_id s) (leading_data (me_to_string env) now s) True zw1)
      in m\<lparr>ms_servers := omap_upd (fst c) s (unset_leader current (ms_servers m)), ms_leader := hi_id s, ms_zk := zw2\<rparr>)"

definition promote_degraded :: "int \<Rightarrow> string \<times> head_info \<Rightarrow> monitor_state \<Rightarrow> monitor_state" where
  "promote_degraded now c m =
     (let s = (snd c)\<lparr>hi_leader := True, hi_status := ''degraded''\<rparr>;
          zw = snd (put_node leader_path (degraded_data now s) False (ms_zk m))
      in m\<lparr>ms_servers := omap_upd (fst c) s (ms_servers m), ms_leader := hi_id s, ms_zk := zw\<rparr>)"

definition perform_leader_election :: "'w mon_env \<Rightarrow> monitor_state \<Rightarrow> 'w \<Rightarrow> monitor_state \<times> 'w" where
  "perform_leader_election env m w =
     (let (now, w0) = me_clock env w;
          (found, hs1, fc1, w1) = find_leader env (ms_servers m) (ms_fails m) w0
      in case found of
           Some (i, s, True) \<Rightarrow> (m\<lparr>ms_servers := hs1, ms_fails := fc1\<rparr>, w1)
         | _ \<Rightarrow>
           (let (current, zw1) = (case found of None \<Rightarrow> ([], ms_zk m) | Some (i, s, _) \<Rightarrow> (i, demote_node now s (ms_zk m)));
                (best, hs2, fc2, w2) = find_candidate env None hs1 fc1 w1;
                m2 = m\<lparr>ms_servers := hs2, ms_fails := fc2, ms_zk := zw1\<rparr>
            in case best of
                 Some c \<Rightarrow> (promote env now current c m2, w2)
               | None \<Rightarrow>
                   (case least_failures None hs2 of
                      None \<Rightarrow> (m2, w2)
                    | Some c \<Rightarrow> (promote_degraded now c m2, w2))))"

section \<open>The report and the loop\<close>

definition report_line :: "'w mon_env \<Rightarrow> string \<times> head_info \<Rightarrow> string" where
  "report_line env c =
     (let s = snd c in
      ''  Server: '' @ fst c @ '' | Status: '' @ hi_status s @ '' | Address: '' @ hi_ip s @ '':'' @ show_int (hi_port s) @
      '' | Leader: '' @ (if hi_leader s then ''Yes'' else ''No'') @ '' | CPU: '' @ me_put env (hi_cpu s) @ ''%'' @
      '' | Memory: '' @ me_put env (hi_memory s) @ ''%'' @ '' | Connections: '' @ show_int (hi_connections s) @ [nl])"

definition health_report :: "'w mon_env \<Rightarrow> monitor_state \<Rightarrow> string" where
  "health_report env m =
     (let hs = ms_servers m; healthy = length (filter (\<lambda>c. hi_status (snd c) = ''healthy'') hs) in
      ''=== Head Server Health Report ==='' @ [nl] @ ''Monitor ID: '' @ ms_id m @ [nl] @
      ''Current Leader: '' @ (if ms_leader m = [] then ''None'' else ms_leader m) @ [nl] @
      ''Total Head Servers: '' @ show_nat (length hs) @ [nl] @ concat (map (report_line env) hs) @
      ''Healthy Servers: '' @ show_nat healthy @ ''/'' @ show_nat (length hs) @ [nl])"

definition generate_health_report :: "'w mon_env \<Rightarrow> monitor_state \<Rightarrow> monitor_state" where
  "generate_health_report env m =
     (let zw1 = snd (wr_create_node reports_path [] False (ms_zk m));
          zw2 = snd (put_node (reports_path @ ''/'' @ ms_id m) (health_report env m) False zw1)
      in m\<lparr>ms_zk := zw2\<rparr>)"

text \<open>One turn of the monitor loop; an exception ends it early.\<close>

definition monitor_round :: "'w mon_env \<Rightarrow> monitor_state \<Rightarrow> 'w \<Rightarrow> cxx_exn option \<times> monitor_state \<times> 'w" where
  "monitor_round env m w =
     (case discover_head_servers env m w of
        (Some e, m1, w1) \<Rightarrow> (Some e, m1, w1)
      | (None, m1, w1) \<Rightarrow>
          (let (hs, fc, w2) = check_all env (ms_servers m1) (ms_fails m1) w1;
               (m2, w3) = perform_leader_election env (m1\<lparr>ms_servers := hs, ms_fails := fc\<rparr>) w2
           in (None, generate_health_report env m2, w3)))"

section \<open>The management API\<close>

definition json_head :: "string \<times> head_info \<Rightarrow> string" where
  "json_head c =
     (let s = snd c; q = [dquote] in
      ''{'' @ q @ ''id'' @ q @ '':'' @ q @ fst c @ q @ '','' @ q @ ''ip'' @ q @ '':'' @ q @ hi_ip s @ q @ '','' @
      q @ ''port'' @ q @ '':'' @ show_int (hi_port s) @ '','' @ q @ ''status'' @ q @ '':'' @ q @ hi_status s @ q @ '','' @
      q @ ''is_leader'' @ q @ '':'' @ (if hi_leader s then ''true'' else ''false'') @ ''}'')"

fun join_commas :: "string list \<Rightarrow> string" where
  "join_commas [] = []"
| "join_commas [x] = x"
| "join_commas (x # xs) = x @ '','' @ join_commas xs"

definition http_ok :: string where
  "http_ok = ''HTTP/1.1 200 OK'' @ [cr, nl] @ ''Content-Type: application/json'' @ [cr, nl] @
     ''Connection: close'' @ crlf2"

definition success_json :: "bool \<Rightarrow> string" where
  "success_json b = ''{'' @ [dquote] @ ''success'' @ [dquote] @ '':'' @ (if b then ''true'' else ''false'') @ ''}''"

definition post_data :: "string \<Rightarrow> string" where
  "post_data req =
     (let body = (case find_str crlf2 req of None \<Rightarrow> [] | Some p \<Rightarrow> drop (p + 4) req);
          key = [dquote] @ ''data'' @ [dquote] @ '':'' @ [dquote]
      in case find_str key body of
           None \<Rightarrow> []
         | Some p \<Rightarrow>
             (case find_char_from dquote (p + 8) body of
                None \<Rightarrow> []
              | Some e \<Rightarrow> take (e - (p + 8)) (drop (p + 8) body)))"

definition znode_request :: "string \<Rightarrow> string \<Rightarrow> string \<Rightarrow> zkw \<Rightarrow> string \<times> zkw" where
  "znode_request method path req zw =
     (let query = (case find_char (CHR ''?'') path of None \<Rightarrow> [] | Some p \<Rightarrow> drop (p + 1) path);
          zpath = (if starts_with ''path='' query then drop 5 query else []);
          q = [dquote]
      in if zpath = [] then
           (''HTTP/1.1 400 Bad Request'' @ crlf2 @ ''{'' @ q @ ''error'' @ q @ '':'' @ q @ ''Missing path parameter'' @ q @ ''}'',
            zw)
         else if method = ''GET'' then
           (let (data, zw1) = wr_get_node_data zpath zw in
            (http_ok @ ''{'' @ q @ ''path'' @ q @ '':'' @ q @ zpath @ q @ '','' @ q @ ''data'' @ q @ '':'' @ q @ data @ q @ ''}'', zw1))
         else if method = ''DELETE'' then
           (let (ok, zw1) = wr_delete_node zpath zw in (http_ok @ success_json ok, zw1))
         else if method = ''POST'' then
           (let (ok, zw1) = put_node zpath (post_data req) False zw in (http_ok @ success_json ok, zw1))
         else (http_ok, zw))"

text \<open>The handler on the bytes that one \<^verbatim>\<open>recv\<close> gave; the buffer is read as a C string.\<close>

definition master_api :: "string \<Rightarrow> monitor_state \<Rightarrow> string \<times> monitor_state" where
  "master_api received m =
     (let req = takeWhile (\<lambda>c. c \<noteq> CHR 0x00) (take 4095 received);
          (method, rest) = (case read_word req of None \<Rightarrow> ([], []) | Some (a, r) \<Rightarrow> (a, r));
          path = (case read_word rest of None \<Rightarrow> [] | Some (p, _) \<Rightarrow> p);
          q = [dquote]
      in if path = ''/api/v1/master/head_servers'' then
           (http_ok @ ''{'' @ q @ ''head_servers'' @ q @ '':['' @ join_commas (map json_head (ms_servers m)) @ '']}'', m)
         else if starts_with ''/api/v1/master/znode'' path then
           (let (resp, zw) = znode_request method path req (ms_zk m) in (resp, m\<lparr>ms_zk := zw\<rparr>))
         else (''HTTP/1.1 404 Not Found'' @ crlf2 @ ''{'' @ q @ ''error'' @ q @ '':'' @ q @ ''Not Found'' @ q @ ''}'', m))"

section \<open>Registration and the command line\<close>

text \<open>The three numbers are the results of \<^verbatim>\<open>std::rand\<close>.\<close>

definition registration_data :: "(rat \<Rightarrow> string) \<Rightarrow> nat \<times> nat \<times> nat \<Rightarrow> int \<Rightarrow> string \<Rightarrow> int \<Rightarrow> string" where
  "registration_data str rnd now ip port =
     (case rnd of (r1, r2, r3) \<Rightarrow>
        ''ip='' @ ip @ '',port='' @ show_int port @ '',status=healthy,cpu_usage='' @ str (10 + of_nat (r1 mod 30)) @
        '',memory_usage='' @ str (40 + of_nat (r2 mod 50)) @ '',active_connections='' @ show_int (int (r3 mod 100)) @
        '',last_update='' @ show_int now)"

definition simulate_head_server_registration ::
  "'w mon_env \<Rightarrow> nat \<times> nat \<times> nat \<Rightarrow> string \<Rightarrow> string \<Rightarrow> int \<Rightarrow> monitor_state \<Rightarrow> 'w \<Rightarrow> bool \<times> monitor_state \<times> 'w" where
  "simulate_head_server_registration env rnd sid ip port m w =
     (let (now, w1) = me_clock env w;
          (ok, zw) = wr_create_node (heads_path @ ''/'' @ sid) (registration_data (me_to_string env) rnd now ip port) True (ms_zk m)
      in (ok, m\<lparr>ms_zk := zw\<rparr>, w1))"

text \<open>One line of the interactive mode; \<open>False\<close> ends it.\<close>

definition interactive_line ::
  "'w mon_env \<Rightarrow> nat \<times> nat \<times> nat \<Rightarrow> string \<Rightarrow> monitor_state \<Rightarrow> 'w \<Rightarrow> bool \<times> monitor_state \<times> 'w" where
  "interactive_line env rnd line m w =
     (let (command, rest) = (case read_word line of None \<Rightarrow> ([], []) | Some (a, r) \<Rightarrow> (a, r)) in
      if command = ''register'' then
        (case read_word rest of
           None \<Rightarrow> (True, m, w)
         | Some (sid, rest1) \<Rightarrow>
             (case read_word rest1 of
                None \<Rightarrow> (True, m, w)
              | Some (ip, rest2) \<Rightarrow>
                  (case read_int rest2 of
                     None \<Rightarrow> (True, m, w)
                   | Some (port, _) \<Rightarrow>
                       (let (_, m', w') = simulate_head_server_registration env rnd sid ip port m w in (True, m', w')))))
      else if command = ''status'' then (True, generate_health_report env m, w)
      else if command = ''quit'' then (False, m, w)
      else (True, m, w))"

text \<open>The arguments after the program's name: the hosts and the interactive flag, or \<open>None\<close> for \<^verbatim>\<open>--help\<close>.\<close>

fun monitor_args :: "string list \<Rightarrow> string \<times> bool \<Rightarrow> (string \<times> bool) option" where
  "monitor_args [] st = Some st"
| "monitor_args [arg] st =
     (if arg = ''-i'' \<or> arg = ''--interactive'' then Some (fst st, True) else if arg = ''--help'' then None else Some st)"
| "monitor_args (arg # arg' # args) st =
     (if arg = ''--zk-hosts'' then monitor_args args (arg', snd st)
      else if arg = ''-i'' \<or> arg = ''--interactive'' then monitor_args (arg' # args) (fst st, True)
      else if arg = ''--help'' then None
      else monitor_args (arg' # args) st)"

text \<open>The start of the process up to the two registrations; \<open>None\<close> after \<^verbatim>\<open>--help\<close>.\<close>

definition run_zk_monitor ::
  "'w mon_env \<Rightarrow> getenv \<Rightarrow> config \<Rightarrow> string list \<Rightarrow> int \<Rightarrow> string \<Rightarrow> (nat \<times> nat \<times> nat) \<times> (nat \<times> nat \<times> nat) \<Rightarrow> zk_store \<Rightarrow> 'w \<Rightarrow>
   (bool \<times> monitor_state \<times> 'w) option" where
  "run_zk_monitor env getenv cfg args pid host rnds st w =
     (case monitor_args args (get_string getenv cfg ''zookeeper.hosts'' ''localhost:2181'', False) of
        None \<Rightarrow> None
      | Some (hosts, interactive) \<Rightarrow>
          (let (t0, w0) = me_clock env w; m0 = new_zk_monitor hosts pid t0 st;
               (t1, w1) = me_clock env w0; (_, m1) = register_monitor t1 host m0;
               (_, m2, w2) = simulate_head_server_registration env (fst rnds) ''head_server_1'' ''head-server-1'' 9670 m1 w1;
               (_, m3, w3) = simulate_head_server_registration env (snd rnds) ''head_server_2'' ''head-server-2'' 9670 m2 w2
           in Some (interactive, m3, w3)))"

section \<open>Node data under the wrapper's operations\<close>

definition live :: "zkw \<Rightarrow> bool" where
  "live zw \<longleftrightarrow> wr_connected (fst zw) \<and> zk_connected (wr_client (fst zw))"

lemma live_new_wrapper: "live (new_wrapper hosts, st)"
  by (simp add: live_def new_wrapper_def wr_connect_def zk_connect_def set_watch_callback_def new_client_def)

lemma with_connection_live:
  "live zw \<Longrightarrow> with_connection d act zw = (let (r, st) = act (wr_client (fst zw)) (snd zw) in (r, (fst zw, st)))"
  by (simp add: with_connection_def wr_connect_def live_def)

text \<open>The store after a \<^verbatim>\<open>create_node\<close> of the wrapper: the parents first, then the node.\<close>

definition with_parents :: "zk_client \<Rightarrow> string \<Rightarrow> zk_store \<Rightarrow> zk_store" where
  "with_parents c path st =
     (case find_last_char (CHR ''/'') path of
        None \<Rightarrow> st
      | Some pos \<Rightarrow>
          if pos \<noteq> 0 \<and> \<not> node_exists (take pos path) st then snd (make_node c (take pos path) [] False st) else st)"

lemma make_node_eq:
  "make_node c path data e st =
     (let r = create_node c path data e False (with_parents c path st)
      in (fst (snd r) = ZOK \<or> fst (snd r) = ZNODEEXISTS, fst r))"
  by (subst make_node.simps) (simp add: with_parents_def Let_def split: prod.splits)

lemma make_node_get:
  "normalize_path q \<noteq> normalize_path p \<or> d = [] \<Longrightarrow>
   get_node_data q (snd (make_node c p d e st)) = get_node_data q st"
proof (induction c p d e st rule: make_node.induct)
  case (1 c path data e st)
  have "get_node_data q (with_parents c path st) = get_node_data q st"
    by (auto simp: with_parents_def 1 split: option.splits)
  then show ?case
    using 1(2) by (simp add: make_node_eq Let_def create_node_get)
qed

lemma make_node_exists: "node_exists q st \<Longrightarrow> node_exists q (snd (make_node c p d e st))"
proof (induction c p d e st rule: make_node.induct)
  case (1 c path data e st)
  have "node_exists q (with_parents c path st)"
    by (auto simp: with_parents_def 1 split: option.splits)
  then show ?case
    by (simp add: make_node_eq Let_def create_node_exists)
qed

lemma with_parents_snoc:
  assumes "comp_ok x"
  shows "with_parents c (path_of (cs @ [x])) st =
    (if cs = [] \<or> node_exists (path_of cs) st then st else snd (make_node c (path_of cs) [] False st))"
proof (cases "cs = []")
  case True
  then show ?thesis
    using find_last_path_of [OF assms, of cs] by (simp add: with_parents_def)
next
  case False
  then show ?thesis
    using find_last_path_of [OF assms, of cs] parent_path_of [OF assms, of cs]
    by (auto simp: with_parents_def parent_path_def assms split: option.splits if_splits)
qed

lemma make_node_parent:
  assumes "zk_connected c" "node_exists (path_of cs) st" "comps_ok (cs @ [x])" "\<not> node_exists (path_of (cs @ [x])) st"
  shows "fst (make_node c (path_of (cs @ [x])) d e st)"
    and "get_node_data (path_of (cs @ [x])) (snd (make_node c (path_of (cs @ [x])) d e st)) = d"
proof -
  have ok: "comps_ok cs" "comp_ok x"
    using assms(3) by simp_all
  have w: "with_parents c (path_of (cs @ [x])) st = st"
    using assms(2) by (simp add: with_parents_snoc [OF ok(2)])
  have p: "parent_path (path_of (cs @ [x])) = path_of cs"
    using ok by simp
  have ex: "map_of (nodes st) (path_of cs) \<noteq> None" "map_of (nodes st) (path_of (cs @ [x])) = None"
    using assms ok by (simp_all add: node_exists_def del: not_None_eq)
  have "map_of (nodes st) (path_of cs) \<noteq> None \<longrightarrow> path_of cs \<noteq> path_of (cs @ [x])"
    using ex by auto
  then show "fst (make_node c (path_of (cs @ [x])) d e st)"
    "get_node_data (path_of (cs @ [x])) (snd (make_node c (path_of (cs @ [x])) d e st)) = d"
    using assms(1,3) ex p
    by (auto simp: make_node_eq w create_node_def Let_def actual_path_def ensure_parent_exists_def get_node_data_def
        link_node_def add_child_def update_conv' empty_znode_def)
qed

lemmas wr_ops_live = wr_create_node_def wr_update_node_def wr_get_node_data_def wr_node_exists_def wr_delete_node_def
  wr_list_children_def with_connection_live

lemma wr_get_live [simp]: "live zw \<Longrightarrow> wr_get_node_data p zw = (get_node_data p (snd zw), zw)"
  by (simp add: wr_ops_live)

lemma wr_list_live [simp]: "live zw \<Longrightarrow> wr_list_children p zw = (get_children p (snd zw), zw)"
  by (simp add: wr_ops_live)

lemma wr_exists_live [simp]: "live zw \<Longrightarrow> wr_node_exists p zw = (node_exists p (snd zw), zw)"
  by (simp add: wr_ops_live)

lemma live_fst: "fst zw' = fst zw \<Longrightarrow> live zw' = live zw"
  by (simp add: live_def)

text \<open>What a write of a node keeps: the connection, the nodes, and the data of every other node.\<close>

definition kept :: "string \<Rightarrow> zkw \<Rightarrow> zkw \<Rightarrow> bool" where
  "kept p zw zw' \<longleftrightarrow> fst zw' = fst zw \<and> (\<forall>q. node_exists q (snd zw) \<longrightarrow> node_exists q (snd zw')) \<and>
     (\<forall>q. normalize_path q \<noteq> normalize_path p \<longrightarrow> get_node_data q (snd zw') = get_node_data q (snd zw))"

lemma create_kept: "live zw \<Longrightarrow> kept p zw (snd (wr_create_node p d e zw))"
  by (auto simp: kept_def wr_ops_live Let_def make_node_get make_node_exists split: prod.splits)
    (metis make_node_exists snd_conv, metis make_node_get snd_conv)

lemma update_kept: "live zw \<Longrightarrow> kept p zw (snd (wr_update_node p d zw))"
  by (auto simp: kept_def wr_ops_live Let_def split: prod.splits)
    (metis set_node_data_exists fst_conv, metis set_node_data_get fst_conv)

lemma put_kept: "live zw \<Longrightarrow> kept p zw (snd (put_node p d e zw))"
  by (simp add: put_node_def create_kept update_kept)

lemma kept_live: "kept p zw zw' \<Longrightarrow> live zw' = live zw"
  by (simp add: kept_def live_def)

lemma put_node_data:
  assumes "live zw" "node_exists (path_of cs) (snd zw)" "comps_ok (cs @ [x])"
  shows "fst (put_node (path_of (cs @ [x])) d e zw)"
    and "get_node_data (path_of (cs @ [x])) (snd (snd (put_node (path_of (cs @ [x])) d e zw))) = d"
proof -
  have c: "zk_connected (wr_client (fst zw))"
    using assms(1) by (simp add: live_def)
  show "fst (put_node (path_of (cs @ [x])) d e zw)"
    "get_node_data (path_of (cs @ [x])) (snd (snd (put_node (path_of (cs @ [x])) d e zw))) = d"
    using assms make_node_parent [OF c assms(2,3), of d e] c
    by (auto simp: put_node_def wr_update_node_def wr_create_node_def with_connection_live Let_def set_node_data_def
        get_node_data_def node_exists_def update_conv' split: prod.splits option.splits)
qed

section \<open>Discovery and checks\<close>

text \<open>A freshly discovered table: ordered, named by its keys, without a leader and without counted failures.\<close>

definition fresh :: "(string \<times> head_info) list \<Rightarrow> bool" where
  "fresh hs \<longleftrightarrow> omap_wf hs \<and> (\<forall>(i, s) \<in> set hs. hi_id s = i \<and> \<not> hi_leader s \<and> hi_failures s = 0)"

lemma map_sum_Inr: "map_sum id f x = Inr y \<longleftrightarrow> (\<exists>v. x = Inr v \<and> y = f v)"
  by (cases x) auto

lemma set_field_keeps:
  "set_field stod key val info = Inr info' \<Longrightarrow>
   hi_leader info' = hi_leader info \<and> hi_failures info' = hi_failures info \<and> hi_check info' = hi_check info"
  by (auto simp: set_field_def map_sum_Inr split: if_splits)

lemma parse_fields_keeps:
  "parse_fields stod ts info = Inr info' \<Longrightarrow>
   hi_leader info' = hi_leader info \<and> hi_failures info' = hi_failures info \<and> hi_check info' = hi_check info"
proof (induction ts arbitrary: info)
  case (Cons t ts)
  show ?case
  proof (cases "find_char (CHR ''='') t")
    case None
    then show ?thesis
      using Cons by (simp del: find_char_None)
  next
    case (Some p)
    then obtain info1 where i: "set_field stod (take p t) (drop (p + 1) t) info = Inr info1" "parse_fields stod ts info1 = Inr info'"
      using Cons.prems by (auto split: sum.splits)
    show ?thesis
      using Cons.IH [OF i(2)] set_field_keeps [OF i(1)] by simp
  qed
qed simp

lemma parse_server_data_fresh:
  "parse_server_data stod junk now data = Inr info \<Longrightarrow> \<not> hi_leader info \<and> hi_failures info = 0 \<and> hi_check info = now"
  using parse_fields_keeps [of stod "split_commas [] data" "new_head_info junk now" info]
  by (simp add: parse_server_data_def new_head_info_def)

lemma set_omap_upd_subset: "set (omap_upd k v m) \<subseteq> insert (k, v) (set m)"
  by (induction k v m rule: omap_upd.induct) auto

lemma fresh_upd: "fresh hs \<Longrightarrow> \<not> hi_leader s \<Longrightarrow> hi_failures s = 0 \<Longrightarrow> fresh (omap_upd i (s\<lparr>hi_id := i\<rparr>) hs)"
  using set_omap_upd_subset [of i "s\<lparr>hi_id := i\<rparr>" hs] by (fastforce simp: fresh_def)

lemma discover_children_fresh:
  "fresh hs \<Longrightarrow> live zw \<Longrightarrow> fresh (fst (snd (discover_children env names hs zw w))) \<and>
     fst (snd (snd (discover_children env names hs zw w))) = zw"
proof (induction names arbitrary: hs w)
  case (Cons name names)
  show ?case
  proof (cases "get_node_data (heads_path @ ''/'' @ name) (snd zw) = []")
    case True
    then show ?thesis
      using Cons by simp
  next
    case False
    obtain now w1 where c: "me_clock env w = (now, w1)"
      by fastforce
    show ?thesis
      using Cons False c
      by (cases "parse_server_data (me_stod env) (me_junk env name) now (get_node_data (heads_path @ ''/'' @ name) (snd zw))")
        (simp_all add: fresh_upd parse_server_data_fresh)
  qed
qed simp

lemma discover_head_servers_fresh:
  assumes "live (ms_zk m)" "discover_head_servers env m w = (e, m', w')"
  shows "fresh (ms_servers m')" "m' = m\<lparr>ms_servers := ms_servers m'\<rparr>"
  using discover_children_fresh [of "[]" "ms_zk m" env "get_children heads_path (snd (ms_zk m))" w] assms
  by (auto simp: discover_head_servers_def fresh_def split: prod.splits)

definition same_server :: "head_info \<Rightarrow> head_info \<Rightarrow> bool" where
  "same_server s s' \<longleftrightarrow> hi_id s' = hi_id s \<and> hi_leader s' = hi_leader s \<and> hi_failures s' = hi_failures s \<and>
     hi_cpu s' = hi_cpu s \<and> hi_memory s' = hi_memory s"

lemma check_same_server:
  "check_head_server_health env s fc w = (ok, s', fc', w') \<Longrightarrow> same_server s s'"
  by (auto simp: check_head_server_health_def same_server_def Let_def split: prod.splits if_splits)

lemma same_server_refl [simp]: "same_server s s"
  by (simp add: same_server_def)

lemma fresh_rel:
  assumes "fresh hs" "list_all2 (\<lambda>a b. fst a = fst b \<and> same_server (snd a) (snd b)) hs hs'"
  shows "fresh hs'"
proof -
  have k: "map fst hs' = map fst hs"
    using assms(2) by (induction rule: list_all2_induct) auto
  have "hi_id (snd b) = fst b \<and> \<not> hi_leader (snd b) \<and> hi_failures (snd b) = 0" if "b \<in> set hs'" for b
  proof -
    obtain a where a: "a \<in> set hs" "fst a = fst b" "same_server (snd a) (snd b)"
      using assms(2) \<open>b \<in> set hs'\<close> unfolding list_all2_conv_all_nth in_set_conv_nth [of b] by (metis nth_mem)
    then show ?thesis
      using assms(1) by (fastforce simp: fresh_def same_server_def)
  qed
  then show ?thesis
    using assms(1) k by (fastforce simp: fresh_def omap_wf_def)
qed

lemma check_all_rel:
  "list_all2 (\<lambda>a b. fst a = fst b \<and> same_server (snd a) (snd b)) hs (fst (check_all env hs fc w))"
proof (induction hs arbitrary: fc w)
  case (Cons a hs)
  obtain i s where a: "a = (i, s)"
    by fastforce
  obtain ok s' fc1 w1 where c: "check_head_server_health env s fc w = (ok, s', fc1, w1)"
    by (metis prod_cases4)
  show ?case
    using Cons [of fc1 w1] check_same_server [OF c]
    by (simp add: a c same_server_def Let_def case_prod_beta)
qed simp

section \<open>The election\<close>

lemma find_leader_fresh: "fresh hs \<Longrightarrow> find_leader env hs fc w = (None, hs, fc, w)"
  by (induction env hs fc w rule: find_leader.induct) (auto simp: fresh_def omap_wf_Cons)

text \<open>The turn of one server in the search: whether it is a candidate.\<close>

definition turn :: "'w mon_env \<Rightarrow> head_info \<Rightarrow> fail_counts \<Rightarrow> 'w \<Rightarrow> bool \<times> head_info \<times> fail_counts \<times> 'w" where
  "turn env s fc w = (if hi_status s \<noteq> ''healthy'' then check_head_server_health env s fc w else (True, s, fc, w))"

lemma turn_same_server: "turn env s fc w = (ok, s', fc', w') \<Longrightarrow> same_server s s'"
  by (auto simp: turn_def split: if_splits dest: check_same_server)

lemma find_candidate_Cons:
  "turn env s fc w = (ok, s1, fc1, w1) \<Longrightarrow>
   find_candidate env best ((i, s) # hs) fc w =
     (let r = find_candidate env (if ok \<and> better (i, s1) best then Some (i, s1) else best) hs fc1 w1
      in (fst r, (i, s1) # fst (snd r), snd (snd r)))"
  by (simp add: turn_def case_prod_beta Let_def cong: if_cong)

lemma find_candidate_rel:
  "list_all2 (\<lambda>a b. fst a = fst b \<and> same_server (snd a) (snd b)) hs (fst (snd (find_candidate env best hs fc w)))"
proof (induction hs arbitrary: best fc w)
  case (Cons a hs)
  obtain i s where a: "a = (i, s)"
    by fastforce
  obtain ok s' fc1 w1 where c: "turn env s fc w = (ok, s', fc1, w1)"
    by (metis prod_cases4)
  show ?case
    using Cons turn_same_server [OF c] by (simp add: a find_candidate_Cons [OF c] Let_def del: find_candidate.simps)
qed simp

text \<open>The candidates, in the order of their turns.\<close>

fun candidates :: "'w mon_env \<Rightarrow> (string \<times> head_info) list \<Rightarrow> fail_counts \<Rightarrow> 'w \<Rightarrow> (string \<times> head_info) list" where
  "candidates env [] fc w = []"
| "candidates env ((i, s) # hs) fc w =
     (case turn env s fc w of (ok, s1, fc1, w1) \<Rightarrow> (if ok then [(i, s1)] else []) @ candidates env hs fc1 w1)"

fun choose_best :: "(string \<times> head_info) option \<Rightarrow> (string \<times> head_info) list \<Rightarrow> (string \<times> head_info) option" where
  "choose_best best [] = best"
| "choose_best best (c # cs) = choose_best (if better c best then Some c else best) cs"

lemma find_candidate_best: "fst (find_candidate env best hs fc w) = choose_best best (candidates env hs fc w)"
proof (induction hs arbitrary: best fc w)
  case (Cons a hs)
  obtain i s where a: "a = (i, s)"
    by fastforce
  obtain ok s' fc1 w1 where c: "turn env s fc w = (ok, s', fc1, w1)"
    by (metis prod_cases4)
  show ?case
    using Cons by (simp add: a c find_candidate_Cons [OF c] Let_def del: find_candidate.simps)
qed simp

text \<open>\<open>x\<close> has less load than \<open>y\<close> in both measures.\<close>

definition dominates :: "head_info \<Rightarrow> head_info \<Rightarrow> bool" where
  "dominates x y \<longleftrightarrow> hi_cpu x < hi_cpu y \<and> hi_memory x < hi_memory y"

lemma choose_best_spec:
  assumes "choose_best (Some b) cs = r"
  shows "\<exists>c. r = Some c \<and> c \<in> insert b (set cs) \<and> (\<forall>d \<in> insert b (set cs). \<not> dominates (snd d) (snd c)) \<and>
    (c = b \<or> hi_cpu (snd c) \<le> hi_cpu (snd b) \<and> hi_memory (snd c) \<le> hi_memory (snd b))"
  using assms
proof (induction cs arbitrary: b)
  case (Cons c cs)
  show ?case
  proof (cases "better c (Some b)")
    case True
    then have "hi_cpu (snd c) \<le> hi_cpu (snd b)" "hi_memory (snd c) \<le> hi_memory (snd b)"
      by (auto simp: better_def split: prod.splits)
    then show ?thesis
      using Cons.IH [of c] Cons.prems True by (auto simp: dominates_def)
  next
    case False
    then have "\<not> dominates (snd c) (snd b)"
      by (auto simp: better_def dominates_def split: prod.splits)
    then show ?thesis
      using Cons.IH [of b] Cons.prems False by (auto simp: dominates_def)
  qed
next
  case Nil
  then show ?case
    by (intro exI [of _ b]) (auto simp: dominates_def)
qed

lemma choose_best_undominated:
  assumes "cs \<noteq> []"
  obtains c where "choose_best None cs = Some c" "c \<in> set cs" "\<forall>d \<in> set cs. \<not> dominates (snd d) (snd c)"
proof (cases cs)
  case (Cons a as)
  obtain c where "choose_best (Some a) as = Some c" "c \<in> set (a # as)" "\<forall>d \<in> set (a # as). \<not> dominates (snd d) (snd c)"
    using choose_best_spec [of a as, OF refl] by auto
  then show ?thesis
    using Cons by (intro that [of c]) (simp_all add: better_def)
qed (simp add: assms)

lemma least_failures_first:
  "\<forall>c \<in> set (b # hs). hi_failures (snd c) = 0 \<Longrightarrow> least_failures (Some b) hs = Some b"
  by (induction hs) auto

lemma candidates_subset:
  "set (candidates env hs fc w) \<subseteq> set (fst (snd (find_candidate env best hs fc w)))"
proof (induction hs arbitrary: best fc w)
  case (Cons a hs)
  obtain i s where a: "a = (i, s)"
    by fastforce
  obtain ok s' fc1 w1 where c: "turn env s fc w = (ok, s', fc1, w1)"
    by (metis prod_cases4)
  show ?case
    using Cons by (auto simp: a c find_candidate_Cons [OF c] Let_def simp del: find_candidate.simps)
qed simp

lemma candidate_member:
  assumes "find_candidate env None hs fc w = (best, hs', fc', w')" "best = Some c"
  shows "c \<in> set hs'"
proof -
  have b: "choose_best None (candidates env hs fc w) = Some c"
    using find_candidate_best [of env None hs fc w] assms by simp
  then have "candidates env hs fc w \<noteq> []"
    by auto
  then have "c \<in> set (candidates env hs fc w)"
    using choose_best_undominated b by (metis option.inject)
  then show ?thesis
    using candidates_subset [of env hs fc w None] assms(1) by auto
qed

lemma turn_healthy:
  assumes "turn env s fc w = (ok, s', fc', w')" "hi_status s' = ''healthy''"
  shows ok
proof (cases "hi_status s = ''healthy''")
  case False
  then show ?thesis
    using assms by (auto simp: turn_def check_head_server_health_def Let_def split: prod.splits if_splits)
qed (use assms in \<open>simp add: turn_def\<close>)

lemma healthy_candidates:
  "c \<in> set (fst (snd (find_candidate env best hs fc w))) \<Longrightarrow> hi_status (snd c) = ''healthy'' \<Longrightarrow>
   c \<in> set (candidates env hs fc w)"
proof (induction hs arbitrary: best fc w)
  case (Cons a hs)
  obtain i s where a: "a = (i, s)"
    by fastforce
  obtain ok s' fc1 w1 where t: "turn env s fc w = (ok, s', fc1, w1)"
    by (metis prod_cases4)
  show ?case
    using Cons turn_healthy [OF t] by (auto simp: a t find_candidate_Cons [OF t] Let_def simp del: find_candidate.simps)
qed simp

lemma find_candidate_fresh: "fresh hs \<Longrightarrow> fresh (fst (snd (find_candidate env best hs fc w)))"
  by (rule fresh_rel [OF _ find_candidate_rel])

lemma election_fresh:
  assumes "fresh (ms_servers m)" "me_clock env w = (now, w0)"
    "find_candidate env None (ms_servers m) (ms_fails m) w0 = (best, hs, fc, w2)"
  shows "perform_leader_election env m w =
    (let m2 = m\<lparr>ms_servers := hs, ms_fails := fc\<rparr> in
     case best of Some c \<Rightarrow> (promote env now [] c m2, w2)
     | None \<Rightarrow> (case hs of [] \<Rightarrow> (m2, w2) | c # _ \<Rightarrow> (promote_degraded now c m2, w2)))"
proof -
  have "fresh hs"
    using find_candidate_fresh [OF assms(1), of env None "ms_fails m" w0] assms(3) by simp
  then have "least_failures None hs = (case hs of [] \<Rightarrow> None | c # _ \<Rightarrow> Some c)"
    by (cases hs) (auto simp: fresh_def intro!: least_failures_first)
  then show ?thesis
    by (simp add: perform_leader_election_def assms find_leader_fresh Let_def split: option.splits list.splits)
qed

lemma only_leader:
  assumes "fresh hs" "i \<in> fst ` set hs" "hi_leader s"
  shows "filter (\<lambda>c. hi_leader (snd c)) (omap_upd i s hs) = [(i, s)]"
  using assms
proof (induction hs)
  case (Cons a hs)
  obtain j t where a: "a = (j, t)"
    by fastforce
  have none: "filter (\<lambda>c. hi_leader (snd c)) hs = []"
    using Cons.prems(1) by (auto simp: fresh_def filter_empty_conv)
  have "fresh hs" "\<not> hi_leader t" "\<forall>x \<in> fst ` set hs. j < x"
    using Cons.prems(1) by (auto simp: fresh_def a omap_wf_Cons)
  then show ?case
    using Cons none by (auto simp: a)
qed simp

section \<open>A round of the monitor\<close>

lemma strip_slashes_prefix:
  "length p > 1 \<Longrightarrow> last p \<noteq> CHR ''/'' \<Longrightarrow> \<exists>z. strip_slashes (p @ q) = p @ z"
proof (induction q rule: rev_induct)
  case Nil
  then show ?case
    by (intro exI [of _ "[]"]) (simp add: strip_slashes_id)
next
  case (snoc x q)
  then show ?case
    by (subst strip_slashes.simps) (auto simp: butlast_append)
qed

lemma normalize_heads: "\<exists>z. normalize_path (heads_path @ q) = heads_path @ z"
  using strip_slashes_prefix [of heads_path q] by (simp add: normalize_path_def heads_path_def zk_root_def)

lemma normalize_reports: "\<exists>z. normalize_path (reports_path @ q) = reports_path @ z"
  using strip_slashes_prefix [of reports_path q] by (simp add: normalize_path_def reports_path_def zk_root_def)

lemma grid_paths:
  "zk_root = path_of [''distributed_file_grid'']"
  "leader_path = path_of ([''distributed_file_grid''] @ [''leader''])"
  "heads_path @ ''/'' @ x = path_of ([''distributed_file_grid'', ''head_servers''] @ [x])"
  "comps_ok ([''distributed_file_grid''] @ [''leader''])"
  by (simp_all add: zk_root_def leader_path_def heads_path_def path_of_def comps_ok_def comp_ok_def)

lemma normalize_leader: "normalize_path leader_path = leader_path"
  unfolding grid_paths(2) by (rule normalize_path_of [OF grid_paths(4)])

lemma leader_not_head: "normalize_path leader_path \<noteq> normalize_path (heads_path @ q)"
  using normalize_heads [of q] unfolding normalize_leader by (auto simp: leader_path_def heads_path_def zk_root_def)

lemma leader_not_report: "normalize_path leader_path \<noteq> normalize_path (reports_path @ q)"
  using normalize_reports [of q] unfolding normalize_leader by (auto simp: leader_path_def reports_path_def zk_root_def)

lemma head_not_report: "normalize_path (heads_path @ q) \<noteq> normalize_path (reports_path @ r)"
  using normalize_heads [of q] normalize_reports [of r] by (auto simp: reports_path_def heads_path_def zk_root_def)

lemma keptD:
  assumes "kept p zw zw'"
  shows "fst zw' = fst zw" "node_exists q (snd zw) \<Longrightarrow> node_exists q (snd zw')"
    "normalize_path q \<noteq> normalize_path p \<Longrightarrow> get_node_data q (snd zw') = get_node_data q (snd zw)"
  using assms by (auto simp: kept_def)

lemma report_kept:
  assumes "live (ms_zk m)" "\<And>r. normalize_path q \<noteq> normalize_path (reports_path @ r)"
  shows "get_node_data q (snd (ms_zk (generate_health_report env m))) = get_node_data q (snd (ms_zk m))"
proof -
  let ?z = "snd (wr_create_node reports_path [] False (ms_zk m))"
  have 1: "kept reports_path (ms_zk m) ?z"
    using assms(1) by (rule create_kept)
  have "kept (reports_path @ ''/'' @ ms_id m) ?z (snd (put_node (reports_path @ ''/'' @ ms_id m) (health_report env m) False ?z))"
    using kept_live [OF 1] assms(1) by (intro put_kept) simp
  then show ?thesis
    using keptD(3) [OF 1, of q] assms(2) [of "[]"] assms(2) [of "''/'' @ ms_id m"] keptD(3)
    by (simp add: generate_health_report_def)
qed

lemma report_state [simp]:
  "ms_servers (generate_health_report env m) = ms_servers m" "ms_leader (generate_health_report env m) = ms_leader m"
  by (simp_all add: generate_health_report_def)

lemma promote_state:
  assumes "fresh (ms_servers m)" "c \<in> set (ms_servers m)"
  shows "ms_leader (promote env now [] c m) = fst c"
    and "ms_servers (promote env now [] c m) =
      omap_upd (fst c) ((snd c)\<lparr>hi_leader := True, hi_status := ''healthy''\<rparr>) (ms_servers m)"
  using assms by (auto simp: promote_def Let_def fresh_def unset_leader_def split: option.splits)

lemma promote_leader_data:
  assumes "live (ms_zk m)" "node_exists zk_root (snd (ms_zk m))"
  shows "live (ms_zk (promote env now cur c m))"
    and "get_node_data leader_path (snd (ms_zk (promote env now cur c m))) = leader_data now (snd c)"
proof -
  let ?s = "(snd c)\<lparr>hi_leader := True, hi_status := ''healthy''\<rparr>"
  let ?z1 = "snd (put_node leader_path (leader_data now ?s) False (ms_zk m))"
  let ?p = "heads_path @ ''/'' @ hi_id (snd c)"
  let ?z2 = "snd (put_node ?p (leading_data (me_to_string env) now ?s) True ?z1)"
  have z: "ms_zk (promote env now cur c m) = ?z2"
    by (simp add: promote_def Let_def)
  have l1: "live ?z1"
    using kept_live [OF put_kept] assms(1) by blast
  then have k2: "kept ?p ?z1 ?z2"
    by (rule put_kept)
  show "live (ms_zk (promote env now cur c m))"
    unfolding z using kept_live [OF k2] l1 by simp
  have "get_node_data leader_path (snd ?z1) = leader_data now ?s"
    using put_node_data(2) [OF assms(1) _ grid_paths(4)] assms(2) unfolding grid_paths(1,2) by blast
  then show "get_node_data leader_path (snd (ms_zk (promote env now cur c m))) = leader_data now (snd c)"
    unfolding z using keptD(3) [OF k2 leader_not_head] by (simp add: leader_data_def)
qed

lemma promote_degraded_data:
  assumes "live (ms_zk m)" "node_exists zk_root (snd (ms_zk m))"
  shows "live (ms_zk (promote_degraded now c m))"
    and "get_node_data leader_path (snd (ms_zk (promote_degraded now c m))) = degraded_data now (snd c)"
proof -
  let ?s = "(snd c)\<lparr>hi_leader := True, hi_status := ''degraded''\<rparr>"
  have z: "ms_zk (promote_degraded now c m) = snd (put_node leader_path (degraded_data now ?s) False (ms_zk m))"
    by (simp add: promote_degraded_def Let_def)
  show "live (ms_zk (promote_degraded now c m))"
    unfolding z using kept_live [OF put_kept] assms(1) by blast
  have "get_node_data leader_path (snd (snd (put_node leader_path (degraded_data now ?s) False (ms_zk m)))) = degraded_data now ?s"
    using put_node_data(2) [OF assms(1) _ grid_paths(4)] assms(2) unfolding grid_paths(1,2) by blast
  then show "get_node_data leader_path (snd (ms_zk (promote_degraded now c m))) = degraded_data now (snd c)"
    unfolding z by (simp add: degraded_data_def)
qed

lemma discover_children_names:
  "discover_children env names hs zw w = (e, hs', zw', w') \<Longrightarrow> fst ` set hs' \<subseteq> fst ` set hs \<union> set names"
proof (induction names arbitrary: hs zw w)
  case (Cons name names)
  obtain data zw1 where d: "wr_get_node_data (heads_path @ ''/'' @ name) zw = (data, zw1)"
    by (rule prod.exhaust)
  obtain now w1 where c: "me_clock env w = (now, w1)"
    by fastforce
  show ?case
  proof (cases "data = []")
    case True
    then show ?thesis
      using Cons.prems Cons.IH [of hs zw1 w] d by auto
  next
    case False
    show ?thesis
    proof (cases "parse_server_data (me_stod env) (me_junk env name) now data")
      case (Inl x)
      then show ?thesis
        using Cons.prems d c False by auto
    next
      case (Inr info)
      then have "discover_children env names (omap_upd name (info\<lparr>hi_id := name\<rparr>) hs) zw1 w1 = (e, hs', zw', w')"
        using Cons.prems d c False by simp
      from Cons.IH [OF this] show ?thesis
        by simp
    qed
  qed
qed simp

lemma discover_names:
  assumes "live (ms_zk m)" "discover_head_servers env m w = (e, m', w')"
  shows "fst ` set (ms_servers m') \<subseteq> set (get_children heads_path (snd (ms_zk m)))"
proof -
  obtain zw' where "discover_children env (get_children heads_path (snd (ms_zk m))) [] (ms_zk m) w = (e, ms_servers m', zw', w')"
    using assms by (auto simp: discover_head_servers_def split: prod.splits)
  then show ?thesis
    using discover_children_names by fastforce
qed

lemma rel_keys: "list_all2 (\<lambda>a b. fst a = fst b \<and> same_server (snd a) (snd b)) hs hs' \<Longrightarrow> fst ` set hs' = fst ` set hs"
  by (induction rule: list_all2_induct) auto

lemma monitor_roundE:
  assumes "monitor_round env m w = (None, m', w')" "live (ms_zk m)"
  obtains hs fc w2 m2 where "fresh hs" "fst ` set hs \<subseteq> set (get_children heads_path (snd (ms_zk m)))"
    "perform_leader_election env (m\<lparr>ms_servers := hs, ms_fails := fc\<rparr>) w2 = (m2, w')" "m' = generate_health_report env m2"
proof -
  obtain m1 w1 where d: "discover_head_servers env m w = (None, m1, w1)"
    using assms(1) by (auto simp: monitor_round_def split: prod.splits option.splits)
  obtain hs fc w2 where c: "check_all env (ms_servers m1) (ms_fails m1) w1 = (hs, fc, w2)"
    by (metis prod_cases3)
  obtain m2 w3 where e: "perform_leader_election env (m1\<lparr>ms_servers := hs, ms_fails := fc\<rparr>) w2 = (m2, w3)"
    by fastforce
  note m1 = discover_head_servers_fresh [OF assms(2) d]
  have "fresh hs"
    using fresh_rel [OF m1(1) check_all_rel [of "ms_servers m1" env "ms_fails m1" w1]] c by simp
  moreover have "fst ` set hs \<subseteq> set (get_children heads_path (snd (ms_zk m)))"
    using rel_keys [OF check_all_rel [of "ms_servers m1" env "ms_fails m1" w1]] discover_names [OF assms(2) d] c by simp
  moreover have "m1\<lparr>ms_servers := hs, ms_fails := fc\<rparr> = m\<lparr>ms_servers := hs, ms_fails := fc\<rparr>"
    by (subst m1(2)) simp
  moreover have "w3 = w'" "m' = generate_health_report env m2"
    using assms(1) by (simp_all add: monitor_round_def d c e)
  ultimately show ?thesis
    using that e by metis
qed

text \<open>What an election leaves behind when there is a server: one leader, recorded in the monitor and in its node,
  that is healthy and not beaten by a healthy server, or the first of the servers when none is healthy.\<close>

definition leader_chosen :: "monitor_state \<Rightarrow> bool" where
  "leader_chosen m \<longleftrightarrow>
     (\<exists>s. filter (\<lambda>c. hi_leader (snd c)) (ms_servers m) = [(ms_leader m, s)] \<and>
        starts_with (''server_id='' @ ms_leader m @ '','') (get_node_data leader_path (snd (ms_zk m))) \<and>
        (hi_status s = ''healthy'' \<and> (\<forall>c \<in> set (ms_servers m). hi_status (snd c) = ''healthy'' \<longrightarrow> \<not> dominates (snd c) s) \<or>
         hi_status s = ''degraded'' \<and> (\<forall>c \<in> set (ms_servers m). hi_status (snd c) \<noteq> ''healthy'') \<and>
         ms_leader m = fst (hd (ms_servers m))))"

lemma starts_leader_data: "starts_with (''server_id='' @ hi_id s @ '','') (leader_data now s)"
  by (simp add: starts_with_def leader_data_def)

lemma starts_degraded_data: "starts_with (''server_id='' @ hi_id s @ '','') (degraded_data now s)"
  by (simp add: starts_with_def degraded_data_def)

lemma fresh_id: "fresh hs \<Longrightarrow> c \<in> set hs \<Longrightarrow> hi_id (snd c) = fst c"
  by (fastforce simp: fresh_def)

lemma promote_chosen:
  assumes "fresh (ms_servers m)" "c \<in> set (ms_servers m)" "live (ms_zk m)" "node_exists zk_root (snd (ms_zk m))"
    "\<forall>d \<in> set (ms_servers m). hi_status (snd d) = ''healthy'' \<longrightarrow> \<not> dominates (snd d) (snd c)"
  shows "leader_chosen (promote env now [] c m)"
proof -
  let ?s = "(snd c)\<lparr>hi_leader := True, hi_status := ''healthy''\<rparr>"
  note st = promote_state [OF assms(1,2), of env now]
  have "filter (\<lambda>c. hi_leader (snd c)) (ms_servers (promote env now [] c m)) = [(fst c, ?s)]"
    unfolding st by (rule only_leader) (use assms in auto)
  moreover have "\<not> dominates (snd d) ?s" if "d \<in> set (ms_servers (promote env now [] c m))" "hi_status (snd d) = ''healthy''" for d
    using that assms(5) set_omap_upd_subset [of "fst c" ?s "ms_servers m"] unfolding st by (fastforce simp: dominates_def)
  ultimately show ?thesis
    using starts_leader_data [of "snd c" now] fresh_id [OF assms(1,2)]
    by (auto simp: leader_chosen_def st(1) promote_leader_data(2) [OF assms(3,4)])
qed

lemma promote_degraded_chosen:
  assumes "fresh (ms_servers m)" "ms_servers m = c # hs" "live (ms_zk m)" "node_exists zk_root (snd (ms_zk m))"
    "\<forall>d \<in> set (ms_servers m). hi_status (snd d) \<noteq> ''healthy''"
  shows "leader_chosen (promote_degraded now c m)"
proof -
  let ?s = "(snd c)\<lparr>hi_leader := True, hi_status := ''degraded''\<rparr>"
  obtain i x where c: "c = (i, x)"
    by fastforce
  have id: "hi_id x = i"
    using fresh_id [OF assms(1), of c] assms(2) c by simp
  have hs: "ms_servers (promote_degraded now c m) = (i, ?s) # hs" "ms_leader (promote_degraded now c m) = i"
    using assms(2) id by (simp_all add: promote_degraded_def Let_def c)
  have "\<not> hi_leader (snd d)" if "d \<in> set hs" for d
    using assms(1,2) that by (auto simp: fresh_def)
  then have "filter (\<lambda>c. hi_leader (snd c)) hs = []"
    by (auto simp: filter_empty_conv)
  then show ?thesis
    using assms(2,5) starts_degraded_data [of x now] id
    unfolding leader_chosen_def hs promote_degraded_data(2) [OF assms(3,4)] by (simp add: c)
qed

lemma election_chosen:
  assumes "fresh (ms_servers m)" "live (ms_zk m)" "node_exists zk_root (snd (ms_zk m))"
    "perform_leader_election env m w = (m', w')"
  shows "if ms_servers m' = [] then ms_leader m' = ms_leader m else leader_chosen m'"
    and "live (ms_zk m')"
proof -
  obtain now w0 where n: "me_clock env w = (now, w0)"
    by fastforce
  obtain best hs fc w2 where f: "find_candidate env None (ms_servers m) (ms_fails m) w0 = (best, hs, fc, w2)"
    by (metis prod_cases4)
  let ?m = "m\<lparr>ms_servers := hs, ms_fails := fc\<rparr>"
  let ?cs = "candidates env (ms_servers m) (ms_fails m) w0"
  have fr: "fresh hs"
    using find_candidate_fresh [OF assms(1), of env None "ms_fails m" w0] f by simp
  have sub: "set ?cs \<subseteq> set hs"
    using candidates_subset [of env "ms_servers m" "ms_fails m" w0 None] f by simp
  have healthy: "c \<in> set ?cs" if "c \<in> set hs" "hi_status (snd c) = ''healthy''" for c
    using healthy_candidates [of c env None "ms_servers m" "ms_fails m" w0] f that by simp
  note e = election_fresh [OF assms(1) n f]
  have b: "best = choose_best None ?cs"
    using find_candidate_best [of env None "ms_servers m" "ms_fails m" w0] f by simp
  have l: "live (ms_zk ?m)" "node_exists zk_root (snd (ms_zk ?m))"
    using assms(2,3) by simp_all
  have "(if ms_servers m' = [] then ms_leader m' = ms_leader m else leader_chosen m') \<and> live (ms_zk m')"
  proof (cases "?cs = []")
    case True
    then have "best = None" "\<forall>d \<in> set hs. hi_status (snd d) \<noteq> ''healthy''"
      using b healthy by auto
    note none = this
    show ?thesis
    proof (cases hs)
      case Nil
      then show ?thesis
        using e assms(4) l none by (auto simp: Let_def)
    next
      case (Cons c cs)
      have m': "m' = promote_degraded now c ?m"
        using e assms(4) none(1) Cons by (simp add: Let_def)
      have "leader_chosen m'"
        unfolding m' using fr l none(2) Cons by (intro promote_degraded_chosen) simp_all
      then show ?thesis
        using promote_degraded_data(1) [OF l, of now c] by (auto simp: m' leader_chosen_def)
    qed
  next
    case False
    then obtain c where c: "best = Some c" "c \<in> set ?cs" "\<forall>d \<in> set ?cs. \<not> dominates (snd d) (snd c)"
      using choose_best_undominated [OF False] b by metis
    have "leader_chosen (promote env now [] c ?m)"
      using fr sub c healthy l by (intro promote_chosen) auto
    moreover have "m' = promote env now [] c ?m"
      using e assms(4) c(1) by (simp add: Let_def)
    ultimately show ?thesis
      using promote_leader_data(1) [OF l, of env now "[]" c] by (auto simp: leader_chosen_def)
  qed
  then show "if ms_servers m' = [] then ms_leader m' = ms_leader m else leader_chosen m'" "live (ms_zk m')"
    by simp_all
qed

lemma election_live:
  assumes "fresh (ms_servers m)" "perform_leader_election env m w = (m', w')" "live (ms_zk m)"
  shows "live (ms_zk m')"
proof -
  obtain now w0 where c: "me_clock env w = (now, w0)"
    by fastforce
  obtain best hs fc w2 where f: "find_candidate env None (ms_servers m) (ms_fails m) w0 = (best, hs, fc, w2)"
    by (metis prod_cases4)
  let ?m = "m\<lparr>ms_servers := hs, ms_fails := fc\<rparr>"
  have p: "live (ms_zk (promote env now cur c ?m))" "live (ms_zk (promote_degraded now c ?m))" for cur c
    using assms(3) by (simp_all add: promote_def promote_degraded_def Let_def put_kept [THEN kept_live])
  show ?thesis
    using election_fresh [OF assms(1) c f] assms(2,3) p by (auto simp: Let_def split: option.splits list.splits)
qed

text \<open>C15. A turn of the monitor's loop over any environment: if it discovers a head server, it ends with
  exactly one of the servers marked as leader, the monitor and the leader's node in ZooKeeper name that server, and it
  is healthy with no healthy server below it in both processor and memory use; when no server is healthy, it is the
  first server in the order of names, marked as degraded.  If it discovers none, the last leader stays on record.\<close>

theorem monitor_round_elects:
  assumes "monitor_round env m w = (None, m', w')" "live (ms_zk m)" "node_exists zk_root (snd (ms_zk m))"
  shows "if ms_servers m' = [] then ms_leader m' = ms_leader m else leader_chosen m'"
proof -
  obtain hs fc w2 m2 where r: "fresh hs" "perform_leader_election env (m\<lparr>ms_servers := hs, ms_fails := fc\<rparr>) w2 = (m2, w')"
    "m' = generate_health_report env m2"
    using monitor_roundE [OF assms(1,2)] by metis
  note e = election_chosen [OF _ _ _ r(2)]
  have l: "live (ms_zk m2)" "if ms_servers m2 = [] then ms_leader m2 = ms_leader m else leader_chosen m2"
    using e r(1) assms(2,3) by simp_all
  then show ?thesis
    using report_kept [OF l(1) leader_not_report, of env] by (cases "ms_servers m2 = []") (simp_all add: r(3) leader_chosen_def)
qed

text \<open>An environment for the examples: the state of the world is the time, and no head server answers.\<close>

definition sample_stod :: "string \<Rightarrow> cxx_exn + rat" where
  "sample_stod s = (case parse_number s of None \<Rightarrow> Inl Invalid_argument | Some (n, _) \<Rightarrow> Inr (of_int n))"

definition sample_str :: "rat \<Rightarrow> string" where
  "sample_str r = show_int \<lfloor>r\<rfloor> @ ''.000000''"

definition sample_env :: "int mon_env" where
  "sample_env = \<lparr>me_clock = \<lambda>t. (t, t + 1), me_probe = \<lambda>_ _ t. (Refused, t), me_sleep = \<lambda>t. t + 1000000000,
     me_stod = sample_stod, me_to_string = sample_str, me_put = sample_str, me_junk = \<lambda>_. 0\<rparr>"

definition sample_monitor :: monitor_state where
  "sample_monitor =
     (let m0 = new_zk_monitor ''localhost:2181'' 7 1 zk_init;
          m1 = fst (snd (simulate_head_server_registration sample_env (20, 3, 5) ''head_server_1'' ''head-server-1'' 7 m0 2))
      in fst (snd (simulate_head_server_registration sample_env (4, 1, 9) ''head_server_2'' ''head-server-2'' 7 m1 3)))"

lemma sample_round:
  "fst (monitor_round sample_env sample_monitor 4) = None"
  "map fst (ms_servers (fst (snd (monitor_round sample_env sample_monitor 4)))) = [''head_server_1'', ''head_server_2'']"
  by code_simp+

lemma sample_live: "live (ms_zk sample_monitor)" "node_exists zk_root (snd (ms_zk sample_monitor))"
  by code_simp+

theorem monitor_round_elects_witness:
  "\<exists>m' w'. monitor_round sample_env sample_monitor 4 = (None, m', w') \<and> ms_servers m' \<noteq> [] \<and> leader_chosen m'"
proof -
  obtain m' w' where r: "monitor_round sample_env sample_monitor 4 = (None, m', w')"
    using sample_round(1) by (metis eq_fst_iff)
  then have "map fst (ms_servers m') = [''head_server_1'', ''head_server_2'']"
    using sample_round(2) by simp
  then have "ms_servers m' \<noteq> []"
    by auto
  then show ?thesis
    using monitor_round_elects [OF r sample_live] r by auto
qed

section \<open>What a round does not do\<close>

lemma heads_children_ok:
  assumes "zk_inv st" "c \<in> set (get_children heads_path st)"
  shows "comp_ok c"
proof -
  let ?cs = "[''distributed_file_grid'', ''head_servers'']"
  have h: "heads_path = path_of ?cs" "comps_ok ?cs"
    by (simp_all add: heads_path_def zk_root_def path_of_def comps_ok_def comp_ok_def)
  obtain n where n: "map_of (nodes st) (path_of ?cs) = Some n" "c \<in> set (zn_children n)"
    using assms(2) normalize_path_of [OF h(2)] unfolding get_children_def h(1)
    by (cases "map_of (nodes st) (path_of ?cs)") simp_all
  have "nabs (nodes st) (?cs @ [c]) \<noteq> None"
    using tree_inv_children [of "nabs (nodes st)" ?cs n c] assms(1) nabs_Some [OF h(2) n(1)] n(2) by (simp add: zk_inv_def)
  then have "comps_ok (?cs @ [c])"
    by (metis nabs_def)
  then show ?thesis
    unfolding comps_ok_simps(2) ..
qed

lemma head_paths_differ:
  assumes "comp_ok a" "comp_ok b" "a \<noteq> b"
  shows "normalize_path (heads_path @ ''/'' @ a) \<noteq> normalize_path (heads_path @ ''/'' @ b)"
proof -
  let ?cs = "[''distributed_file_grid'', ''head_servers'']"
  have "comps_ok (?cs @ [a])" "comps_ok (?cs @ [b])"
    using assms by (simp_all add: comps_ok_def comp_ok_def)
  then show ?thesis
    unfolding grid_paths(3) using assms(3) path_of_inj by (metis normalize_path_of last_snoc)
qed

lemma promote_keeps_others:
  assumes "live (ms_zk m)" "comp_ok n" "comp_ok (hi_id (snd c))" "n \<noteq> hi_id (snd c)"
  shows "get_node_data (heads_path @ ''/'' @ n) (snd (ms_zk (promote env now cur c m))) =
    get_node_data (heads_path @ ''/'' @ n) (snd (ms_zk m))"
proof -
  let ?s = "(snd c)\<lparr>hi_leader := True, hi_status := ''healthy''\<rparr>"
  let ?z1 = "snd (put_node leader_path (leader_data now ?s) False (ms_zk m))"
  have 1: "kept leader_path (ms_zk m) ?z1"
    using assms(1) by (rule put_kept)
  have 2: "kept (heads_path @ ''/'' @ hi_id (snd c)) ?z1
     (snd (put_node (heads_path @ ''/'' @ hi_id (snd c)) (leading_data (me_to_string env) now ?s) True ?z1))"
    using kept_live [OF 1] assms(1) by (intro put_kept) simp
  show ?thesis
    using keptD(3) [OF 1 leader_not_head [symmetric], of "''/'' @ n"] keptD(3) [OF 2 head_paths_differ [OF assms(2-4)]]
    by (simp add: promote_def Let_def)
qed

lemma promote_degraded_keeps:
  assumes "live (ms_zk m)"
  shows "get_node_data (heads_path @ q) (snd (ms_zk (promote_degraded now c m))) = get_node_data (heads_path @ q) (snd (ms_zk m))"
  using keptD(3) [OF put_kept [OF assms] leader_not_head [symmetric]] by (simp add: promote_degraded_def Let_def)

lemma election_keeps_others:
  assumes "fresh (ms_servers m)" "live (ms_zk m)" "\<forall>c \<in> fst ` set (ms_servers m). comp_ok c" "comp_ok n"
    "perform_leader_election env m w = (m', w')" "n \<noteq> ms_leader m'"
  shows "get_node_data (heads_path @ ''/'' @ n) (snd (ms_zk m')) = get_node_data (heads_path @ ''/'' @ n) (snd (ms_zk m))"
proof -
  obtain now w0 where c: "me_clock env w = (now, w0)"
    by fastforce
  obtain best hs fc w2 where f: "find_candidate env None (ms_servers m) (ms_fails m) w0 = (best, hs, fc, w2)"
    by (metis prod_cases4)
  let ?m = "m\<lparr>ms_servers := hs, ms_fails := fc\<rparr>"
  have fr: "fresh hs" and k: "fst ` set hs = fst ` set (ms_servers m)"
    using find_candidate_fresh [OF assms(1), of env None "ms_fails m" w0] f
      rel_keys [OF find_candidate_rel [of "ms_servers m" env None "ms_fails m" w0]] by simp_all
  note e = election_fresh [OF assms(1) c f]
  show ?thesis
  proof (cases best)
    case None
    then show ?thesis
      using e assms(5) promote_degraded_keeps [of ?m "''/'' @ n"] assms(2) by (auto simp: Let_def split: list.splits)
  next
    case (Some b)
    have b: "b \<in> set hs"
      by (rule candidate_member [OF f Some])
    have id: "hi_id (snd b) = fst b"
      by (rule fresh_id [OF fr b])
    have m': "m' = promote env now [] b ?m"
      using e assms(5) Some by (simp add: Let_def)
    have "ms_leader m' = fst b"
      unfolding m' by (rule promote_state) (use fr b in simp_all)
    moreover have "comp_ok (fst b)"
      using assms(3) b k by (metis imageI)
    ultimately show ?thesis
      unfolding m' using promote_keeps_others [of ?m n b env now "[]"] assms(2,4,6) id m' by simp
  qed
qed

lemma round_keeps_others:
  assumes "monitor_round env m w = (None, m', w')" "live (ms_zk m)" "zk_inv (snd (ms_zk m))" "comp_ok n" "n \<noteq> ms_leader m'"
  shows "get_node_data (heads_path @ ''/'' @ n) (snd (ms_zk m')) = get_node_data (heads_path @ ''/'' @ n) (snd (ms_zk m))"
proof -
  obtain hs fc w2 m2 where r: "fresh hs" "fst ` set hs \<subseteq> set (get_children heads_path (snd (ms_zk m)))"
    "perform_leader_election env (m\<lparr>ms_servers := hs, ms_fails := fc\<rparr>) w2 = (m2, w')" "m' = generate_health_report env m2"
    using monitor_roundE [OF assms(1,2)] by metis
  let ?m = "m\<lparr>ms_servers := hs, ms_fails := fc\<rparr>"
  have "\<forall>c \<in> fst ` set hs. comp_ok c"
    using r(2) heads_children_ok [OF assms(3)] by auto
  moreover have "n \<noteq> ms_leader m2"
    using assms(5) r(4) by simp
  ultimately have "get_node_data (heads_path @ ''/'' @ n) (snd (ms_zk m2)) = get_node_data (heads_path @ ''/'' @ n) (snd (ms_zk m))"
    using election_keeps_others [of ?m n env w2 m2 w'] r(1,3) assms(2,4) by simp
  then show ?thesis
    using report_kept [OF election_live [OF _ r(3)] head_not_report [of "''/'' @ n"], where env = env] r(1,4) assms(2) by simp
qed

text \<open>A round takes nothing over from the round before: the table of servers it starts from is
  irrelevant, so there is no incumbent whose health is checked and no leader is ever demoted.  In ZooKeeper a round
  rewrites no head server's node but the elected one's; the node of a server that led before keeps saying
  \<^verbatim>\<open>status=leader\<close>.\<close>

theorem no_leader_demoted:
  assumes "monitor_round env m w = (None, m', w')" "live (ms_zk m)" "zk_inv (snd (ms_zk m))" "comp_ok n" "n \<noteq> ms_leader m'"
  shows "monitor_round env (m\<lparr>ms_servers := hs\<rparr>) w = monitor_round env m w \<and>
    get_node_data (heads_path @ ''/'' @ n) (snd (ms_zk m')) = get_node_data (heads_path @ ''/'' @ n) (snd (ms_zk m))"
proof
  show "monitor_round env (m\<lparr>ms_servers := hs\<rparr>) w = monitor_round env m w"
    by (simp add: monitor_round_def discover_head_servers_def case_prod_beta)
  show "get_node_data (heads_path @ ''/'' @ n) (snd (ms_zk m')) = get_node_data (heads_path @ ''/'' @ n) (snd (ms_zk m))"
    using round_keeps_others [OF assms] .
qed

lemma good_path_of: "comps_ok cs \<Longrightarrow> good_path (path_of cs)"
  by (auto simp: good_path_def)

lemma make_node_inv: "comps_ok cs \<Longrightarrow> zk_inv st \<Longrightarrow> zk_inv (snd (make_node c (path_of cs) d e st))"
proof (induction cs arbitrary: d e st rule: rev_induct)
  case Nil
  have "with_parents c ''/'' st = st"
    by (simp add: with_parents_def)
  then show ?case
    using Nil create_node_inv [OF good_path_of [OF Nil(1)] Nil(2)] by (simp add: make_node_eq Let_def)
next
  case (snoc x cs)
  have "zk_inv (with_parents c (path_of (cs @ [x])) st)"
    using snoc by (simp add: with_parents_snoc)
  then show ?case
    unfolding make_node_eq Let_def snd_conv by (rule create_node_inv [OF good_path_of [OF snoc.prems(1)]])
qed

lemma wr_create_inv:
  "live zw \<Longrightarrow> comps_ok cs \<Longrightarrow> zk_inv (snd zw) \<Longrightarrow> zk_inv (snd (snd (wr_create_node (path_of cs) d e zw)))"
  using make_node_inv [of cs "snd zw" "wr_client (fst zw)" d e]
  by (simp add: wr_create_node_def with_connection_live case_prod_beta)

lemma wr_create_live: "live zw \<Longrightarrow> live (snd (wr_create_node p d e zw))"
  using kept_live [OF create_kept] by blast

lemma grid_dirs:
  "heads_path = path_of [''distributed_file_grid'', ''head_servers'']"
  "monitors_path = path_of [''distributed_file_grid'', ''monitors'']"
  "reports_path = path_of [''distributed_file_grid'', ''health_reports'']"
  by (simp_all add: heads_path_def monitors_path_def reports_path_def zk_root_def path_of_def)

lemma new_zk_monitor_inv:
  assumes "zk_inv st"
  shows "live (ms_zk (new_zk_monitor hosts pid now st))" "zk_inv (snd (ms_zk (new_zk_monitor hosts pid now st)))"
proof -
  have c: "comps_ok [''distributed_file_grid'']" "comps_ok [''distributed_file_grid'', ''head_servers'']"
    "comps_ok [''distributed_file_grid'', ''monitors'']" "comps_ok [''distributed_file_grid'', ''health_reports'']"
    by (simp_all add: comps_ok_def comp_ok_def)
  have l: "live (new_wrapper hosts, st)" "zk_inv (snd (new_wrapper hosts, st))"
    using live_new_wrapper assms by simp_all
  show "live (ms_zk (new_zk_monitor hosts pid now st))"
    using l(1) by (simp add: new_zk_monitor_def Let_def wr_create_live)
  show "zk_inv (snd (ms_zk (new_zk_monitor hosts pid now st)))"
    using l c unfolding new_zk_monitor_def Let_def monitor_state.simps grid_dirs grid_paths(1)
    by (intro wr_create_inv wr_create_live)
qed

lemma registration_inv:
  assumes "live (ms_zk m)" "zk_inv (snd (ms_zk m))" "comp_ok sid"
  shows "live (ms_zk (fst (snd (simulate_head_server_registration env rnd sid ip port m w))))"
    and "zk_inv (snd (ms_zk (fst (snd (simulate_head_server_registration env rnd sid ip port m w)))))"
proof -
  have c: "comps_ok ([''distributed_file_grid'', ''head_servers''] @ [sid])"
    using assms(3) by (simp add: comps_ok_def comp_ok_def)
  show "live (ms_zk (fst (snd (simulate_head_server_registration env rnd sid ip port m w))))"
    using assms(1) by (simp add: simulate_head_server_registration_def Let_def case_prod_beta wr_create_live)
  show "zk_inv (snd (ms_zk (fst (snd (simulate_head_server_registration env rnd sid ip port m w)))))"
    using wr_create_inv [OF assms(1) c assms(2)] unfolding grid_paths(3) [symmetric]
    by (simp add: simulate_head_server_registration_def Let_def case_prod_beta)
qed

lemma sample_zk_inv: "zk_inv (snd (ms_zk sample_monitor))"
  unfolding sample_monitor_def Let_def
  by (intro registration_inv new_zk_monitor_inv nodes_inv_init) (simp_all add: comp_ok_def)

theorem no_leader_demoted_witness:
  "\<exists>m' w'. monitor_round sample_env sample_monitor 4 = (None, m', w') \<and>
     get_node_data (heads_path @ ''/'' @ ''head_server_1'') (snd (ms_zk m')) =
     get_node_data (heads_path @ ''/'' @ ''head_server_1'') (snd (ms_zk sample_monitor))"
proof -
  obtain m' w' where r: "monitor_round sample_env sample_monitor 4 = (None, m', w')"
    using sample_round(1) by (metis eq_fst_iff)
  have "ms_leader (fst (snd (monitor_round sample_env sample_monitor 4))) = ''head_server_2''"
    by code_simp
  then have "''head_server_1'' \<noteq> ms_leader m'"
    using r by simp
  then show ?thesis
    using no_leader_demoted [OF r sample_live(1) sample_zk_inv, of "''head_server_1''" "[]"] r by (auto simp: comp_ok_def)
qed

section \<open>Registration\<close>

lemma split_commas_token:
  "CHR '','' \<notin> set t \<Longrightarrow> split_commas acc (t @ CHR '','' # s) = (rev acc @ t) # split_commas [] s"
  by (induction t arbitrary: acc) auto

lemma split_commas_last: "CHR '','' \<notin> set t \<Longrightarrow> split_commas acc t = (if acc = [] \<and> t = [] then [] else [rev acc @ t])"
  by (induction t arbitrary: acc) auto

lemma parse_fields_key:
  "CHR ''='' \<notin> set key \<Longrightarrow>
   parse_fields stod ((key @ CHR ''='' # val) # ts) info =
     (case set_field stod key val info of Inl e \<Rightarrow> Inl e | Inr info' \<Rightarrow> parse_fields stod ts info')"
  by (simp add: find_char_append)

lemma show_int_no_comma [simp]: "CHR '','' \<notin> set (show_int i)"
  using show_int_chars by (fastforce simp: is_digit_def)

text \<open>What the conversions of the floating-point numbers do on the numbers below a hundred.\<close>

definition floats_ok :: "(string \<Rightarrow> cxx_exn + rat) \<Rightarrow> (rat \<Rightarrow> string) \<Rightarrow> bool" where
  "floats_ok stod str \<longleftrightarrow> (\<forall>k < 100. stod (str (of_nat k)) = Inr (of_nat k) \<and> CHR '','' \<notin> set (str (of_nat k)))"

definition registered_info :: "nat \<times> nat \<times> nat \<Rightarrow> int \<Rightarrow> int \<Rightarrow> string \<Rightarrow> string \<Rightarrow> int \<Rightarrow> head_info" where
  "registered_info rnd stamp now sid ip port =
     (case rnd of (r1, r2, r3) \<Rightarrow>
        \<lparr>hi_id = sid, hi_ip = ip, hi_port = port, hi_heartbeat = stamp, hi_check = now, hi_leader = False,
         hi_status = ''healthy'', hi_cpu = of_nat (10 + r1 mod 30), hi_memory = of_nat (40 + r2 mod 50),
         hi_connections = int (r3 mod 100), hi_failures = 0\<rparr>)"

lemma registration_tokens:
  assumes "CHR '','' \<notin> set ip" "CHR '','' \<notin> set a" "CHR '','' \<notin> set b"
  shows "split_commas [] (''ip='' @ ip @ '',port='' @ show_int port @ '',status=healthy,cpu_usage='' @ a @
      '',memory_usage='' @ b @ '',active_connections='' @ show_int n @ '',last_update='' @ show_int stamp) =
    [''ip'' @ CHR ''='' # ip, ''port'' @ CHR ''='' # show_int port, ''status'' @ CHR ''='' # ''healthy'',
     ''cpu_usage'' @ CHR ''='' # a, ''memory_usage'' @ CHR ''='' # b, ''active_connections'' @ CHR ''='' # show_int n,
     ''last_update'' @ CHR ''='' # show_int stamp]"
  using assms by (simp add: split_commas_token split_commas_last)

lemma parse_registration:
  assumes "floats_ok stod str" "CHR '','' \<notin> set ip" "in_int port" "in_llong stamp"
  shows "\<exists>info. parse_server_data stod junk now (registration_data str rnd stamp ip port) = Inr info \<and>
    info\<lparr>hi_id := sid\<rparr> = registered_info rnd stamp now sid ip port"
proof -
  obtain r1 r2 r3 where r: "rnd = (r1, r2, r3)"
    by (metis prod_cases3)
  let ?a = "str (of_nat (10 + r1 mod 30))" and ?b = "str (of_nat (40 + r2 mod 50))"
  have "10 + r1 mod 30 < 100" "40 + r2 mod 50 < 100"
    using mod_less_divisor [of 30 r1] mod_less_divisor [of 50 r2] by linarith+
  then have f: "stod ?a = Inr (of_nat (10 + r1 mod 30))" "stod ?b = Inr (of_nat (40 + r2 mod 50))"
    "CHR '','' \<notin> set ?a" "CHR '','' \<notin> set ?b"
    using assms(1) unfolding floats_ok_def by blast+
  have n: "in_int (int (r3 mod 100))"
    using mod_less_divisor [of 100 r3] by (simp add: in_int_def int_min_def int_max_def)
  have d: "registration_data str rnd stamp ip port = ''ip='' @ ip @ '',port='' @ show_int port @ '',status=healthy,cpu_usage='' @ ?a @
      '',memory_usage='' @ ?b @ '',active_connections='' @ show_int (int (r3 mod 100)) @ '',last_update='' @ show_int stamp"
    by (simp add: registration_data_def r)
  show ?thesis
    unfolding parse_server_data_def d registration_tokens [OF assms(2) f(3,4)]
    using assms(3,4) f(1,2) n
    by (simp add: parse_fields_key set_field_def stoi_show_int stoll_show_int new_head_info_def registered_info_def r
        del: append_Cons append_Nil of_nat_add parse_fields.simps(2))
qed

lemma discover_children_lookup:
  assumes "live zw" "discover_children env names hs zw w = (None, hs', zw', w')"
  shows "if n \<in> set names \<and> get_node_data (heads_path @ ''/'' @ n) (snd zw) \<noteq> []
    then \<exists>now info. parse_server_data (me_stod env) (me_junk env n) now (get_node_data (heads_path @ ''/'' @ n) (snd zw)) = Inr info \<and>
        map_of hs' n = Some (info\<lparr>hi_id := n\<rparr>)
    else map_of hs' n = map_of hs n"
  using assms(2)
proof (induction names arbitrary: hs w)
  case (Cons a names)
  let ?data = "get_node_data (heads_path @ ''/'' @ a) (snd zw)"
  obtain now w1 where c: "me_clock env w = (now, w1)"
    by fastforce
  show ?case
  proof (cases "?data = []")
    case True
    then have "discover_children env names hs zw w = (None, hs', zw', w')"
      using Cons.prems assms(1) by simp
    from Cons.IH [OF this] show ?thesis
      using True by auto
  next
    case False
    then obtain info where i: "parse_server_data (me_stod env) (me_junk env a) now ?data = Inr info"
      "discover_children env names (omap_upd a (info\<lparr>hi_id := a\<rparr>) hs) zw w1 = (None, hs', zw', w')"
      using Cons.prems assms(1) c by (auto split: sum.splits)
    from Cons.IH [OF i(2)] show ?thesis
      using False i(1) by (cases "n \<in> set names"; cases "n = a") auto
  qed
qed simp

lemma make_node_child:
  assumes "zk_connected c" "node_exists (path_of cs) st" "comps_ok (cs @ [x])" "\<not> node_exists (path_of (cs @ [x])) st"
  shows "x \<in> set (get_children (path_of cs) (snd (make_node c (path_of (cs @ [x])) d e st)))"
proof -
  have ok: "comps_ok cs" "comp_ok x"
    using assms(3) by simp_all
  obtain n where n: "map_of (nodes st) (path_of cs) = Some n"
    using assms(2) ok by (auto simp: node_exists_def)
  have m: "map_of (nodes st) (path_of (cs @ [x])) = None"
    using assms(3,4) by (simp add: node_exists_def)
  then have "path_of cs \<noteq> path_of (cs @ [x])"
    using n by auto
  then show ?thesis
    using assms n m ok
    by (simp add: make_node_eq with_parents_snoc create_node_def Let_def actual_path_def ensure_parent_exists_def
        get_children_def link_node_def add_child_def update_conv' empty_znode_def set_insort_insert)
qed

text \<open>A head server that registers under a new name is in the table after the next discovery: under its name, with
  the address, port, load and connections it registered with, as healthy and not as leader.\<close>

theorem registration_discovered:
  assumes "simulate_head_server_registration env rnd sid ip port m w = (ok, m1, w1)"
    and "discover_head_servers env m1 w1 = (None, m2, w2)"
    and "live (ms_zk m)" "node_exists heads_path (snd (ms_zk m))" "\<not> node_exists (heads_path @ ''/'' @ sid) (snd (ms_zk m))"
    and "floats_ok (me_stod env) (me_to_string env)" "comp_ok sid" "CHR '','' \<notin> set ip" "in_int port" "in_llong (fst (me_clock env w))"
  shows "ok \<and> (\<exists>now. map_of (ms_servers m2) sid = Some (registered_info rnd (fst (me_clock env w)) now sid ip port))"
proof -
  let ?cs = "[''distributed_file_grid'', ''head_servers'']"
  let ?data = "registration_data (me_to_string env) rnd (fst (me_clock env w)) ip port"
  let ?c = "wr_client (fst (ms_zk m))" and ?st = "snd (ms_zk m)"
  have c: "zk_connected ?c" "comps_ok (?cs @ [sid])"
    using assms(3,7) by (simp_all add: live_def comps_ok_def comp_ok_def)
  note ex = assms(4) [unfolded grid_dirs] assms(5) [unfolded grid_paths(3)]
  note mk = make_node_parent [OF c(1) ex(1) c(2) ex(2), of ?data True] make_node_child [OF c(1) ex(1) c(2) ex(2), of ?data True]
  have m1: "ms_zk m1 = (fst (ms_zk m), snd (make_node ?c (path_of (?cs @ [sid])) ?data True ?st))"
    "ok = fst (make_node ?c (path_of (?cs @ [sid])) ?data True ?st)"
    using assms(1,3) unfolding grid_paths(3) [symmetric]
    by (auto simp: simulate_head_server_registration_def case_prod_beta wr_create_node_def with_connection_live Let_def)
  have l: "live (ms_zk m1)"
    using assms(3) by (simp add: m1(1) live_def)
  have g: "get_node_data (heads_path @ ''/'' @ sid) (snd (ms_zk m1)) = ?data"
    "sid \<in> set (get_children heads_path (snd (ms_zk m1)))"
    using mk(2) unfolding grid_paths(3) m1(1) snd_conv apply blast
    using mk(3) unfolding grid_dirs m1(1) snd_conv apply blast
    done
  have "?data \<noteq> []"
    by (simp add: registration_data_def split: prod.splits)
  moreover obtain zw' where dc: "discover_children env (get_children heads_path (snd (ms_zk m1))) [] (ms_zk m1) w1 = (None, ms_servers m2, zw', w2)"
    using assms(2) l by (auto simp: discover_head_servers_def split: prod.splits)
  ultimately obtain now info where i: "parse_server_data (me_stod env) (me_junk env sid) now ?data = Inr info"
    "map_of (ms_servers m2) sid = Some (info\<lparr>hi_id := sid\<rparr>)"
    using discover_children_lookup [OF l dc, of sid] g by auto
  then show ?thesis
    using parse_registration [OF assms(6,8-10), of "me_junk env sid" now rnd sid] mk(1) m1(2) by auto
qed

lemma sample_floats_ok: "floats_ok sample_stod sample_str"
proof -
  have "parse_number (show_int (int k) @ ''.000000'') = Some (int k, ''.000000'')" for k
    by (rule parse_number_show_int) (simp add: is_digit_def)
  then show ?thesis
    by (simp add: floats_ok_def sample_stod_def sample_str_def)
qed

theorem registration_discovered_witness:
  "\<exists>m2 w2 now. discover_head_servers sample_env sample_monitor 4 = (None, m2, w2) \<and>
     map_of (ms_servers m2) ''head_server_2'' = Some (registered_info (4, 1, 9) 3 now ''head_server_2'' ''head-server-2'' 7)"
proof -
  let ?m0 = "new_zk_monitor ''localhost:2181'' 7 1 zk_init"
  let ?m = "fst (snd (simulate_head_server_registration sample_env (20, 3, 5) ''head_server_1'' ''head-server-1'' 7 ?m0 2))"
  obtain ok w1 where s: "simulate_head_server_registration sample_env (4, 1, 9) ''head_server_2'' ''head-server-2'' 7 ?m 3 =
      (ok, sample_monitor, w1)"
    unfolding sample_monitor_def Let_def by (metis prod.collapse)
  have w1: "w1 = 4"
    using arg_cong [OF s, of "\<lambda>x. snd (snd x)"]
    by (simp add: simulate_head_server_registration_def sample_env_def case_prod_beta)
  have "fst (discover_head_servers sample_env sample_monitor 4) = None"
    by code_simp
  then obtain m2 w2 where d: "discover_head_servers sample_env sample_monitor w1 = (None, m2, w2)"
    unfolding w1 by (metis prod.collapse)
  have e: "node_exists heads_path (snd (ms_zk ?m))" "\<not> node_exists (heads_path @ ''/'' @ ''head_server_2'') (snd (ms_zk ?m))"
    by code_simp+
  have l: "live (ms_zk ?m)"
    by (intro registration_inv new_zk_monitor_inv nodes_inv_init) (simp add: comp_ok_def)
  show ?thesis
    using registration_discovered [OF s d l e] sample_floats_ok d w1
    by (auto simp: sample_env_def comp_ok_def in_int_def in_llong_def int_min_def int_max_def llong_min_def llong_max_def)
qed

section \<open>Labels that are trusted\<close>

lemma discover_children_probe: "discover_children (env\<lparr>me_probe := p\<rparr>) names hs zw w = discover_children env names hs zw w"
proof (induction names arbitrary: hs zw w)
  case (Cons a names)
  then show ?case
    by (simp add: case_prod_beta Let_def split: sum.splits)
qed simp

text \<open>The servers of a table say they are healthy and were met no earlier than \<open>t\<close>.\<close>

definition labelled :: "int \<Rightarrow> (string \<times> head_info) list \<Rightarrow> bool" where
  "labelled t hs \<longleftrightarrow> (\<forall>c \<in> set hs. hi_status (snd c) = ''healthy'' \<and> t \<le> hi_check (snd c))"

lemma labelled_upd:
  "labelled t hs \<Longrightarrow> hi_status s = ''healthy'' \<Longrightarrow> t \<le> hi_check s \<Longrightarrow> labelled t (omap_upd i s hs)"
  using set_omap_upd_subset [of i s hs] by (fastforce simp: labelled_def)

lemma discover_children_labelled:
  assumes "live zw" "\<And>w. t \<le> fst (me_clock env w)"
    "\<forall>n \<in> set names. \<forall>j now info.
       parse_server_data (me_stod env) j now (get_node_data (heads_path @ ''/'' @ n) (snd zw)) = Inr info \<longrightarrow>
       hi_status info = ''healthy''"
    "discover_children env names hs zw w = (e, hs', zw', w')" "labelled t hs"
  shows "labelled t hs'"
  using assms(3-)
proof (induction names arbitrary: hs w)
  case (Cons a names)
  let ?data = "get_node_data (heads_path @ ''/'' @ a) (snd zw)"
  obtain now w1 where c: "me_clock env w = (now, w1)"
    by fastforce
  show ?case
  proof (cases "?data = []")
    case True
    then show ?thesis
      using Cons.IH [of hs w] Cons.prems assms(1) by simp
  next
    case False
    show ?thesis
    proof (cases "parse_server_data (me_stod env) (me_junk env a) now ?data")
      case (Inl x)
      then show ?thesis
        using Cons.prems(2,3) assms(1) c False by simp
    next
      case (Inr info)
      have d: "discover_children env names (omap_upd a (info\<lparr>hi_id := a\<rparr>) hs) zw w1 = (e, hs', zw', w')"
        using Cons.prems(2) assms(1) c False Inr by simp
      have "hi_status info = ''healthy''" "hi_check info = now" "t \<le> now"
        using Cons.prems(1) Inr parse_server_data_fresh [OF Inr] assms(2) [of w] c by auto
      then show ?thesis
        using Cons.IH [OF _ d] Cons.prems(1,3) by (simp add: labelled_upd)
    qed
  qed
qed simp

lemma check_labelled:
  assumes "hi_status s = ''healthy''" "t \<le> hi_check s" "fst (me_clock env w) < t + 5000000000"
  shows "check_head_server_health env s fc w = (True, s, fc, snd (me_clock env w))"
  using assms by (simp add: check_head_server_health_def case_prod_beta)

lemma check_all_labelled:
  assumes "\<And>w. fst (me_clock env w) < t + 5000000000"
  shows "labelled t hs \<Longrightarrow> check_all (env\<lparr>me_probe := p\<rparr>) hs fc w = check_all env hs fc w \<and> fst (check_all env hs fc w) = hs"
proof (induction hs arbitrary: w)
  case (Cons a hs)
  obtain i s where a: "a = (i, s)"
    by fastforce
  have s: "hi_status s = ''healthy''" "t \<le> hi_check s" "labelled t hs"
    using Cons.prems by (simp_all add: labelled_def a)
  note c = check_labelled [OF s(1,2), of env w fc, OF assms] check_labelled [OF s(1,2), of "env\<lparr>me_probe := p\<rparr>" w fc, simplified, OF assms]
  have "s\<lparr>hi_status := ''healthy''\<rparr> = s"
    using s(1) by simp
  then show ?case
    using Cons.IH [OF s(3), of "snd (me_clock env w)"] assms c by (simp add: a Let_def case_prod_beta)
qed simp

lemma find_candidate_labelled:
  "labelled t hs \<Longrightarrow> find_candidate (env\<lparr>me_probe := p\<rparr>) best hs fc w = find_candidate env best hs fc w"
proof (induction hs arbitrary: best)
  case (Cons a hs)
  obtain i s where a: "a = (i, s)"
    by fastforce
  have "turn (env\<lparr>me_probe := p\<rparr>) s fc w = (True, s, fc, w)" "turn env s fc w = (True, s, fc, w)" "labelled t hs"
    using Cons.prems by (simp_all add: turn_def labelled_def a)
  then show ?case
    using Cons.IH by (simp add: a find_candidate_Cons del: find_candidate.simps)
qed simp

lemma election_labelled:
  assumes "fresh (ms_servers m)" "labelled t (ms_servers m)"
  shows "perform_leader_election (env\<lparr>me_probe := p\<rparr>) m w = perform_leader_election env m w"
  using assms by (simp add: perform_leader_election_def find_leader_fresh find_candidate_labelled promote_def Let_def
      case_prod_beta split: option.splits)

text \<open>A head server whose node says \<^verbatim>\<open>status=healthy\<close> is not contacted: if all of them say so and a round
  takes less than five seconds, the round has the same outcome whatever the servers answer, so a server that is down
  stays healthy and can be elected.\<close>

theorem healthy_label_trusted:
  assumes "live (ms_zk m)" "\<forall>w. t \<le> fst (me_clock env w) \<and> fst (me_clock env w) < t + 5000000000"
    and "\<forall>n \<in> set (get_children heads_path (snd (ms_zk m))). \<forall>j now info.
      parse_server_data (me_stod env) j now (get_node_data (heads_path @ ''/'' @ n) (snd (ms_zk m))) = Inr info \<longrightarrow>
      hi_status info = ''healthy''"
  shows "monitor_round (env\<lparr>me_probe := p\<rparr>) m w = monitor_round env m w"
proof -
  let ?names = "get_children heads_path (snd (ms_zk m))"
  obtain e hs zw' w1 where d: "discover_children env ?names [] (ms_zk m) w = (e, hs, zw', w1)"
    by (metis prod_cases4)
  have dd: "discover_head_servers env m w = (e, m\<lparr>ms_servers := hs, ms_zk := zw'\<rparr>, w1)"
    "discover_head_servers (env\<lparr>me_probe := p\<rparr>) m w = (e, m\<lparr>ms_servers := hs, ms_zk := zw'\<rparr>, w1)"
    using assms(1) d by (simp_all add: discover_head_servers_def discover_children_probe)
  have f: "fresh hs"
    using discover_head_servers_fresh(1) [OF assms(1) dd(1)] by simp
  have l: "labelled t hs"
    using discover_children_labelled [OF assms(1) _ _ d, of t] assms(2,3) by (simp add: labelled_def)
  note c = check_all_labelled [OF _ l, where env = env and p = p and fc = "ms_fails m" and w = w1]
  obtain fc w2 where ch: "check_all env hs (ms_fails m) w1 = (hs, fc, w2)" "check_all (env\<lparr>me_probe := p\<rparr>) hs (ms_fails m) w1 = (hs, fc, w2)"
    using c assms(2) by (metis prod.collapse)
  have r: "generate_health_report (env\<lparr>me_probe := p\<rparr>) x = generate_health_report env x" for x
    by (simp add: generate_health_report_def health_report_def report_line_def [abs_def] Let_def)
  show ?thesis
    using election_labelled [of "m\<lparr>ms_zk := zw', ms_servers := hs, ms_fails := fc\<rparr>" t p env w2] f l
    by (simp add: monitor_round_def dd ch r split: option.splits)
qed

theorem healthy_label_trusted_witness:
  "monitor_round (sample_env\<lparr>me_clock := \<lambda>t. (5, t), me_probe := \<lambda>_ _ t. (Connected, t)\<rparr>) sample_monitor 4 =
   monitor_round (sample_env\<lparr>me_clock := \<lambda>t. (5, t)\<rparr>) sample_monitor 4"
proof -
  let ?env = "sample_env\<lparr>me_clock := \<lambda>t. (5, t)\<rparr>"
  have g: "get_children heads_path (snd (ms_zk sample_monitor)) = [''head_server_1'', ''head_server_2'']"
    "get_node_data (heads_path @ ''/'' @ ''head_server_1'') (snd (ms_zk sample_monitor)) =
       registration_data sample_str (20, 3, 5) 2 ''head-server-1'' 7"
    "get_node_data (heads_path @ ''/'' @ ''head_server_2'') (snd (ms_zk sample_monitor)) =
       registration_data sample_str (4, 1, 9) 3 ''head-server-2'' 7"
    by code_simp+
  have p: "hi_status info = ''healthy''"
    if "parse_server_data sample_stod j now (registration_data sample_str rnd stamp ip 7) = Inr info" "CHR '','' \<notin> set ip"
      "stamp = 2 \<or> stamp = 3" for j now rnd stamp ip info
  proof -
    have "in_llong stamp" "in_int 7"
      using that(3) by (auto simp: in_llong_def in_int_def llong_min_def llong_max_def int_min_def int_max_def)
    then have "info\<lparr>hi_id := []\<rparr> = registered_info rnd stamp now [] ip 7"
      using parse_registration [OF sample_floats_ok that(2), of 7 stamp j now rnd "[]"] that(1) by auto
    from arg_cong [OF this, of hi_status] show ?thesis
      by (simp add: registered_info_def split: prod.splits)
  qed
  have "me_stod ?env = sample_stod"
    by (simp add: sample_env_def)
  then show ?thesis
    using healthy_label_trusted [OF sample_live(1), of 5 ?env "\<lambda>_ _ t. (Connected, t)" 4] g p by simp
qed

section \<open>The node interface\<close>

definition post_request :: "string \<Rightarrow> string \<Rightarrow> string" where
  "post_request zpath data = ''POST /api/v1/master/znode?path='' @ zpath @ '' HTTP/1.1'' @ crlf2 @
     ''{'' @ [dquote] @ ''data'' @ [dquote] @ '':'' @ [dquote] @ data @ [dquote] @ ''}''"

definition get_request :: "string \<Rightarrow> string" where
  "get_request zpath = ''GET /api/v1/master/znode?path='' @ zpath @ '' HTTP/1.1'' @ crlf2"

lemma drop_crlf2: "drop (length h + 4) (h @ crlf2 @ s) = s"
  by (simp add: crlf2_def)

lemma post_data_request:
  assumes "word_ok zpath" "dquote \<notin> set data"
  shows "post_data (post_request zpath data) = data"
proof -
  let ?head = "''POST /api/v1/master/znode?path='' @ zpath @ '' HTTP/1.1''"
  let ?key = "[dquote] @ ''data'' @ [dquote] @ '':'' @ [dquote]"
  let ?body = "''{'' @ ?key @ data @ [dquote] @ ''}''"
  have "cr \<notin> set zpath"
    using assms(1) by (auto simp: word_ok_def is_space_def cr_def)
  then have 1: "find_str crlf2 (?head @ crlf2 @ ?body) = Some (length ?head)"
    by (intro find_str_fresh) (auto simp: crlf2_def cr_def)
  have 2: "find_str ?key ?body = Some 1"
    using find_str_fresh [of ?key "''{''" "data @ [dquote] @ ''}''"] by (simp add: dquote_def)
  have 3: "find_char_from dquote (1 + 8) ?body = Some (length data + 9)"
    using find_char_append [OF assms(2), of "''}''"] by (simp add: find_char_from_def)
  have r: "post_request zpath data = ?head @ crlf2 @ ?body"
    by (simp add: post_request_def)
  have b: "drop (length ?head + 4) (?head @ crlf2 @ ?body) = ?body"
    by (rule drop_crlf2)
  show ?thesis
    unfolding post_data_def r 1 option.case b Let_def 2 3 by simp
qed

lemma master_api_znode:
  assumes "word_ok zpath" "word_ok meth" "CHR 0x00 \<notin> set req" "length req \<le> 4095"
    "req = meth @ '' /api/v1/master/znode?path='' @ zpath @ '' '' @ rest"
  shows "master_api req m =
    (let (resp, zw) = znode_request meth (''/api/v1/master/znode?path='' @ zpath) req (ms_zk m) in (resp, m\<lparr>ms_zk := zw\<rparr>))"
proof -
  have sp: "is_space (CHR '' '')"
    by (simp add: is_space_def)
  have t: "takeWhile (\<lambda>c. c \<noteq> CHR 0x00) (take 4095 req) = req"
    using assms(3,4) by (simp add: takeWhile_eq_all_conv) metis
  let ?p = "''/api/v1/master/znode?path='' @ zpath"
  have w: "word_ok ?p"
    using assms(1) by (simp add: word_ok_def is_space_def)
  have 1: "read_word req = Some (meth, CHR '' '' # ?p @ CHR '' '' # rest)"
    unfolding assms(5) using read_word_word [OF assms(2), of "CHR '' '' # ?p @ CHR '' '' # rest"] sp by simp
  have 2: "read_word (CHR '' '' # ?p @ CHR '' '' # rest) = Some (?p, CHR '' '' # rest)"
    unfolding read_word_blank using read_word_word [OF w, of "CHR '' '' # rest"] sp by simp
  have 3: "?p \<noteq> ''/api/v1/master/head_servers''" "starts_with ''/api/v1/master/znode'' ?p"
    by (simp_all add: starts_with_def)
  show ?thesis
    unfolding master_api_def t Let_def 1 option.case case_prod_conv 2 using 3 by simp
qed

lemma znode_query:
  "(case find_char (CHR ''?'') (''/api/v1/master/znode?path='' @ zpath) of None \<Rightarrow> [] | Some p \<Rightarrow> drop (p + 1) (''/api/v1/master/znode?path='' @ zpath))
   = ''path='' @ zpath"
  by simp

lemma znode_post:
  "zpath \<noteq> [] \<Longrightarrow> znode_request ''POST'' (''/api/v1/master/znode?path='' @ zpath) req zw =
     (http_ok @ success_json (fst (put_node zpath (post_data req) False zw)), snd (put_node zpath (post_data req) False zw))"
  unfolding znode_request_def Let_def znode_query by (simp add: case_prod_beta starts_with_def)

lemma znode_get:
  "zpath \<noteq> [] \<Longrightarrow> live zw \<Longrightarrow> znode_request ''GET'' (''/api/v1/master/znode?path='' @ zpath) req zw =
     (http_ok @ ''{'' @ [dquote] @ ''path'' @ [dquote] @ '':'' @ [dquote] @ zpath @ [dquote] @ '','' @ [dquote] @ ''data'' @ [dquote] @
        '':'' @ [dquote] @ get_node_data zpath (snd zw) @ [dquote] @ ''}'', zw)"
  unfolding znode_request_def Let_def znode_query by (simp add: starts_with_def)

text \<open>Data posted to a node of the management API comes back from the next read of that node, for data
  without quotes and requests that fit the buffer.\<close>

theorem master_post_get:
  assumes "live (ms_zk m)" "node_exists (path_of cs) (snd (ms_zk m))" "comps_ok (cs @ [x])"
    and "zpath = path_of (cs @ [x])" "word_ok zpath" "CHR 0x00 \<notin> set zpath \<union> set data" "dquote \<notin> set data"
    and "length (post_request zpath data) \<le> 4095"
    and "master_api (post_request zpath data) m = (r1, m1)" "master_api (get_request zpath) m1 = (r2, m2)"
  shows "r1 = http_ok @ success_json True \<and>
    r2 = http_ok @ ''{'' @ [dquote] @ ''path'' @ [dquote] @ '':'' @ [dquote] @ zpath @ [dquote] @ '','' @ [dquote] @ ''data'' @ [dquote] @
      '':'' @ [dquote] @ data @ [dquote] @ ''}''"
proof -
  have ne: "zpath \<noteq> []"
    using assms(5) by (simp add: word_ok_def)
  have w: "word_ok ''POST''" "word_ok ''GET''"
    by (simp_all add: word_ok_def is_space_def)
  have c0: "CHR 0x00 \<notin> set (post_request zpath data)" "CHR 0x00 \<notin> set (get_request zpath)"
    using assms(6) by (simp_all add: post_request_def get_request_def crlf2_def cr_def nl_def dquote_def)
  have len: "length (get_request zpath) \<le> 4095"
    using assms(8) by (simp add: post_request_def get_request_def crlf2_def)
  note p = put_node_data [OF assms(1-3), folded assms(4), of data False]
  have api1: "master_api (post_request zpath data) m =
      (http_ok @ success_json True, m\<lparr>ms_zk := snd (put_node zpath data False (ms_zk m))\<rparr>)"
    using master_api_znode [OF assms(5) w(1) c0(1) assms(8), of "''HTTP/1.1'' @ crlf2 @ ''{'' @ [dquote] @ ''data'' @ [dquote] @
        '':'' @ [dquote] @ data @ [dquote] @ ''}''" m] p(1) znode_post [OF ne] post_data_request [OF assms(5,7)]
    by (simp add: post_request_def)
  have l: "live (snd (put_node zpath data False (ms_zk m)))"
    using kept_live [OF put_kept [OF assms(1)]] assms(1) by blast
  have "master_api (get_request zpath) m1 =
      (let (resp, zw) = znode_request ''GET'' (''/api/v1/master/znode?path='' @ zpath) (get_request zpath) (ms_zk m1) in (resp, m1\<lparr>ms_zk := zw\<rparr>))"
    using master_api_znode [OF assms(5) w(2) c0(2) len, of "''HTTP/1.1'' @ crlf2" m1] by (simp add: get_request_def)
  then show ?thesis
    using assms(9,10) api1 znode_get [OF ne l, of "get_request zpath"] p(2) by auto
qed

theorem master_post_get_witness:
  "fst (master_api (get_request ''/notes'') (snd (master_api (post_request ''/notes'' ''hello'') sample_monitor))) =
     http_ok @ ''{'' @ [dquote] @ ''path'' @ [dquote] @ '':'' @ [dquote] @ ''/notes'' @ [dquote] @ '','' @ [dquote] @ ''data'' @ [dquote] @
      '':'' @ [dquote] @ ''hello'' @ [dquote] @ ''}''"
proof -
  have "node_exists (path_of []) (snd (ms_zk sample_monitor))"
    by code_simp
  then show ?thesis
    using master_post_get [OF sample_live(1), of "[]" "''notes''" "''/notes''" "''hello''"]
    by (simp add: comps_ok_def comp_ok_def path_of_def word_ok_def is_space_def dquote_def post_request_def crlf2_def prod_eq_iff)
qed

section \<open>The table of servers in every reachable state\<close>

text \<open>The monitor's thread, the management API and the interactive mode: a turn of the loop, which may end with an
  exception, a request and a command.\<close>

inductive mon_step :: "'w mon_env \<Rightarrow> monitor_state \<Rightarrow> monitor_state \<Rightarrow> bool" for env :: "'w mon_env" where
  mon_round: "monitor_round env m w = (e, m', w') \<Longrightarrow> mon_step env m m'"
| mon_request: "master_api req m = (resp, m') \<Longrightarrow> mon_step env m m'"
| mon_command: "interactive_line env rnd line m w = (b, m', w') \<Longrightarrow> mon_step env m m'"

definition table_inv :: "monitor_state \<Rightarrow> bool" where
  "table_inv m \<longleftrightarrow> live (ms_zk m) \<and> omap_wf (ms_servers m) \<and> (\<forall>c \<in> set (ms_servers m). hi_id (snd c) = fst c) \<and>
     length (filter (\<lambda>c. hi_leader (snd c)) (ms_servers m)) \<le> 1"

lemma table_inv_zk: "table_inv m \<Longrightarrow> live zw \<Longrightarrow> table_inv (m\<lparr>ms_zk := zw\<rparr>)"
  by (simp add: table_inv_def)

lemma table_inv_live: "table_inv m \<Longrightarrow> live (ms_zk m)"
  by (simp add: table_inv_def)

lemma fresh_table: "fresh (ms_servers m) \<Longrightarrow> live (ms_zk m) \<Longrightarrow> table_inv m"
proof -
  assume a: "fresh (ms_servers m)" "live (ms_zk m)"
  then have "filter (\<lambda>c. hi_leader (snd c)) (ms_servers m) = []"
    by (auto simp: fresh_def filter_empty_conv)
  then show ?thesis
    using a fresh_id [OF a(1)] by (simp add: table_inv_def fresh_def)
qed

lemma put_live: "live zw \<Longrightarrow> live (snd (put_node p d e zw))"
  using kept_live [OF put_kept] by blast

lemma lead_table:
  assumes "fresh hs" "c \<in> set hs" "live zw" "hi_id s = fst c" "hi_leader s"
  shows "table_inv (m\<lparr>ms_servers := omap_upd (fst c) s hs, ms_leader := l, ms_zk := zw\<rparr>)"
proof -
  have "omap_wf (omap_upd (fst c) s hs)"
    using assms(1) by (simp add: fresh_def)
  moreover have "\<forall>d \<in> set (omap_upd (fst c) s hs). hi_id (snd d) = fst d"
    using set_omap_upd_subset [of "fst c" s hs] fresh_id [OF assms(1)] assms(4) by fastforce
  moreover have "filter (\<lambda>c. hi_leader (snd c)) (omap_upd (fst c) s hs) = [(fst c, s)]"
    by (rule only_leader) (use assms in auto)
  ultimately show ?thesis
    using assms(3) by (simp add: table_inv_def)
qed

lemma election_table:
  assumes "fresh (ms_servers m)" "live (ms_zk m)" "perform_leader_election env m w = (m', w')"
  shows "table_inv m'"
proof -
  obtain now w0 where n: "me_clock env w = (now, w0)"
    by fastforce
  obtain best hs fc w2 where f: "find_candidate env None (ms_servers m) (ms_fails m) w0 = (best, hs, fc, w2)"
    by (metis prod_cases4)
  let ?m = "m\<lparr>ms_servers := hs, ms_fails := fc\<rparr>"
  have fr: "fresh hs"
    using find_candidate_fresh [OF assms(1), of env None "ms_fails m" w0] f by simp
  have p: "table_inv (promote env now [] c ?m)" "table_inv (promote_degraded now c ?m)" if "c \<in> set hs" for c
    using lead_table [OF fr that] fresh_id [OF fr that] assms(2)
    by (simp_all add: promote_def promote_degraded_def Let_def unset_leader_def put_live split: option.splits)
  have "c \<in> set hs" if "best = Some c" for c
    using candidate_member [OF f that] .
  then show ?thesis
    using election_fresh [OF assms(1) n f] assms(2,3) p fr
    by (auto simp: Let_def fresh_table split: option.splits list.splits)
qed

lemma report_table: "table_inv m \<Longrightarrow> table_inv (generate_health_report env m)"
  unfolding generate_health_report_def Let_def
  by (rule table_inv_zk) (simp_all add: table_inv_def put_live wr_create_live)

lemma round_table:
  assumes "monitor_round env m w = (e, m', w')" "live (ms_zk m)"
  shows "table_inv m'"
proof (cases e)
  case None
  then obtain hs fc w2 m2 where r: "fresh hs" "perform_leader_election env (m\<lparr>ms_servers := hs, ms_fails := fc\<rparr>) w2 = (m2, w')"
    "m' = generate_health_report env m2"
    using monitor_roundE [OF assms(1) [unfolded None] assms(2)] by metis
  then show ?thesis
    using election_table [OF _ _ r(2)] assms(2) report_table by simp
next
  case (Some x)
  then have d: "discover_head_servers env m w = (Some x, m', w')"
    using assms(1) by (cases "discover_head_servers env m w")
      (auto simp: monitor_round_def case_prod_beta Let_def split: option.splits)
  note f = discover_head_servers_fresh [OF assms(2) d]
  have "ms_zk m' = ms_zk m"
    by (subst f(2)) simp
  then show ?thesis
    using fresh_table [OF f(1)] assms(2) by simp
qed

lemma znode_request_live: "live zw \<Longrightarrow> live (snd (znode_request meth path req zw))"
  using live_fst [of "snd (wr_delete_node p zw)" zw for p]
  by (simp add: znode_request_def Let_def case_prod_beta put_live wr_delete_node_def with_connection_live)

lemma request_table:
  assumes "master_api req m = (resp, m')" "table_inv m"
  shows "table_inv m'"
proof -
  have "m' = m \<or> (\<exists>a b c. m' = m\<lparr>ms_zk := snd (znode_request a b c (ms_zk m))\<rparr>)"
    using assms(1) by (auto simp: master_api_def Let_def case_prod_beta split: if_splits)
  then show ?thesis
    using assms(2) by (auto intro!: table_inv_zk znode_request_live simp: table_inv_def)
qed

lemma command_table:
  assumes "interactive_line env rnd line m w = (b, m', w')" "table_inv m"
  shows "table_inv m'"
proof -
  have "m' = m \<or> m' = generate_health_report env m \<or>
    (\<exists>sid ip port. m' = fst (snd (simulate_head_server_registration env rnd sid ip port m w)))"
    using assms(1) by (auto simp: interactive_line_def Let_def case_prod_beta split: if_splits option.splits prod.splits)
      (metis fst_conv)
  moreover have "table_inv (fst (snd (simulate_head_server_registration env rnd sid ip port m w)))" for sid ip port
    using assms(2) by (auto simp: simulate_head_server_registration_def case_prod_beta Let_def table_inv_def wr_create_live)
  ultimately show ?thesis
    using assms(2) report_table by auto
qed

definition mon_init :: "monitor_state \<Rightarrow> bool" where
  "mon_init m \<longleftrightarrow> (\<exists>hosts pid now st. m = new_zk_monitor hosts pid now st)"

lemma mon_init_table: "mon_init m \<Longrightarrow> table_inv m"
  by (auto simp: mon_init_def table_inv_def new_zk_monitor_def Let_def live_new_wrapper wr_create_live)

interpretation mon: inductive_invariant mon_init "mon_step env" table_inv for env :: "'w mon_env"
  by unfold_locales
    (auto simp: mon_init_table elim!: mon_step.cases intro: request_table command_table round_table table_inv_live)

text \<open>Whatever the network, the clock, the requests and the commands do, the monitor's table stays ordered, its
  entries carry the name they are filed under, and at most one of them is marked as leader.\<close>

theorem monitor_reachable_inv:
  assumes "reach mon_init (mon_step env) m"
  shows "omap_wf (ms_servers m) \<and> (\<forall>c \<in> set (ms_servers m). hi_id (snd c) = fst c) \<and>
    length (filter (\<lambda>c. hi_leader (snd c)) (ms_servers m)) \<le> 1"
  using mon.reach_inv [OF assms] by (simp add: table_inv_def)

theorem monitor_reachable_inv_witness:
  "\<exists>m. reach mon_init (mon_step sample_env) m \<and> ms_servers m \<noteq> [] \<and>
     length (filter (\<lambda>c. hi_leader (snd c)) (ms_servers m)) \<le> 1"
proof -
  let ?m0 = "new_zk_monitor ''localhost:2181'' 7 1 zk_init"
  let ?m1 = "fst (snd (interactive_line sample_env (20, 3, 5) ''register head_server_1 head-server-1 7'' ?m0 2))"
  let ?m2 = "fst (snd (monitor_round sample_env ?m1 4))"
  have "reach mon_init (mon_step sample_env) ?m0"
    by (rule reach_init) (auto simp: mon_init_def)
  then have "reach mon_init (mon_step sample_env) ?m1"
    by (rule reach_step) (metis mon_command prod.collapse)
  then have r: "reach mon_init (mon_step sample_env) ?m2"
    by (rule reach_step) (metis mon_round prod.collapse)
  have "length (ms_servers ?m2) = 1"
    by code_simp
  then show ?thesis
    using monitor_reachable_inv [OF r] r by (metis list.size(3) zero_neq_one)
qed

end
