(* ===== verification/Reactor.thy ===== *)
theory Reactor
  imports Cxx_Prelude Transition_System "HOL-Library.Word" "HOL-Library.Multiset"
begin

text \<open>
  The coroutine scheduler of \<^verbatim>\<open>src/common/include/dfg/async_net.hpp\<close>.  A task stands for a spawned coroutine with
  the coroutines it awaits, which run on its behalf.  The state is the table of waiting tasks, the kernel's epoll set,
  the events of the last \<^verbatim>\<open>epoll_wait\<close> still to handle, the tasks taken out of the table and not yet
  resumed, and the stack of running tasks: a running task that spawns another runs it until it suspends.  Between two
  operations on the table the tasks compute, so the step relation interleaves them freely.  Tasks do not close a
  descriptor that a task waits for.
\<close>

unbundle bit_operations_syntax

section \<open>The table of waiters and the kernel's set\<close>

type_synonym task = nat

definition EPOLLIN :: "32 word" where "EPOLLIN = 0x001"
definition EPOLLOUT :: "32 word" where "EPOLLOUT = 0x004"
definition EPOLLBROKEN :: "32 word" where "EPOLLBROKEN = 0x008 OR 0x010 OR 0x2000"

record waiters =
  w_rd :: "task list"
  w_wr :: "task list"
  w_mask :: "32 word"
  w_timer :: bool

text \<open>Why a call to the kernel fails: the descriptor is there already, it is not there, or anything that has nothing to
  do with the set (no memory, no watches left, a descriptor that is closed or cannot be polled).\<close>

datatype epoll_error = EEXIST | ENOENT | Refused

record reactor =
  fds :: "(int \<times> waiters) list"
  interest :: "(int \<times> 32 word) list"
  active_tasks :: int
  pending :: "(int \<times> 32 word) list"
  batch :: "task list"
  running :: "task list"
  thrown :: "epoll_error list"

definition no_waiters :: waiters where
  "no_waiters = \<lparr>w_rd = [], w_wr = [], w_mask = 0, w_timer = False\<rparr>"

definition new_reactor :: reactor where
  "new_reactor = \<lparr>fds = [], interest = [], active_tasks = 0, pending = [], batch = [], running = [], thrown = []\<rparr>"

definition at_fd :: "int \<Rightarrow> reactor \<Rightarrow> waiters" where
  "at_fd fd r = (case map_of (fds r) fd of None \<Rightarrow> no_waiters | Some w \<Rightarrow> w)"

text \<open>The kernel does not add a descriptor it has nor modify one it has not; otherwise the call succeeds if the kernel
  grants it, which is the flag \<open>k\<close>.\<close>

definition epoll_add :: "bool \<Rightarrow> int \<Rightarrow> 32 word \<Rightarrow> (int \<times> 32 word) list \<Rightarrow> epoll_error + (int \<times> 32 word) list" where
  "epoll_add k fd m s =
     (if map_of s fd \<noteq> None then Inl EEXIST else if \<not> k then Inl Refused else Inr (AList.update fd m s))"

definition epoll_mod :: "bool \<Rightarrow> int \<Rightarrow> 32 word \<Rightarrow> (int \<times> 32 word) list \<Rightarrow> epoll_error + (int \<times> 32 word) list" where
  "epoll_mod k fd m s =
     (if map_of s fd = None then Inl ENOENT else if \<not> k then Inl Refused else Inr (AList.update fd m s))"

text \<open>The operations return whether they ended without an exception, and the state they leave; the exceptions thrown so
  far are recorded in \<open>thrown\<close>.\<close>

definition ctl_add_or_mod :: "bool \<Rightarrow> int \<Rightarrow> 32 word \<Rightarrow> reactor \<Rightarrow> bool \<times> reactor" where
  "ctl_add_or_mod k fd newmask r =
     (let w = at_fd fd r in
      case (if w_mask w = 0 then epoll_add k fd newmask (interest r) else epoll_mod k fd newmask (interest r)) of
        Inl x \<Rightarrow> (False, r\<lparr>fds := AList.update fd w (fds r), thrown := x # thrown r\<rparr>)
      | Inr s \<Rightarrow> (True, r\<lparr>fds := AList.update fd (w\<lparr>w_mask := newmask\<rparr>) (fds r), interest := s\<rparr>))"

definition add_waiter :: "bool \<Rightarrow> int \<Rightarrow> 32 word \<Rightarrow> task \<Rightarrow> bool \<Rightarrow> reactor \<Rightarrow> bool \<times> reactor" where
  "add_waiter k fd edge t is_timer r =
     (let w = at_fd fd r;
          w1 = w\<lparr>w_timer := w_timer w \<or> is_timer,
                 w_rd := if edge AND EPOLLIN \<noteq> 0 then w_rd w @ [t] else w_rd w,
                 w_wr := if edge AND EPOLLOUT \<noteq> 0 then w_wr w @ [t] else w_wr w\<rparr>
      in ctl_add_or_mod k fd (w_mask w OR edge) (r\<lparr>fds := AList.update fd w1 (fds r)\<rparr>))"

text \<open>An exception loses the tasks taken: \<open>None\<close>.\<close>

definition take_waiters :: "bool \<Rightarrow> int \<Rightarrow> 32 word \<Rightarrow> reactor \<Rightarrow> task list option \<times> reactor" where
  "take_waiters k fd edge r =
     (case map_of (fds r) fd of
        None \<Rightarrow> (Some [], r)
      | Some w \<Rightarrow>
          (let out = (if edge AND EPOLLIN \<noteq> 0 then w_rd w else []) @ (if edge AND EPOLLOUT \<noteq> 0 then w_wr w else []);
               w1 = w\<lparr>w_rd := if edge AND EPOLLIN \<noteq> 0 then [] else w_rd w,
                      w_wr := if edge AND EPOLLOUT \<noteq> 0 then [] else w_wr w\<rparr>;
               newmask = (if w_rd w1 \<noteq> [] then EPOLLIN else 0) OR (if w_wr w1 \<noteq> [] then EPOLLOUT else 0);
               r1 = r\<lparr>fds := AList.update fd w1 (fds r)\<rparr>
           in if newmask \<noteq> w_mask w then
                (if newmask = 0
                 then (Some out, r1\<lparr>interest := AList.delete fd (interest r1), fds := AList.delete fd (fds r1)\<rparr>)
                 else (case ctl_add_or_mod k fd newmask r1 of (ok, r2) \<Rightarrow> (if ok then Some out else None, r2)))
              else (Some out, r1)))"

section \<open>The loop\<close>

text \<open>\<open>handle_event\<close> is the next part of the loop's body on the first pending event: an error or hang-up wakes
  everybody, then the readers are taken, then the writers.  An exception leaves the loop with the events still
  pending.\<close>

definition taken :: "(int \<times> 32 word) list \<Rightarrow> task list option \<times> reactor \<Rightarrow> reactor" where
  "taken evs = (\<lambda>(out, r). case out of None \<Rightarrow> r\<lparr>batch := [], pending := []\<rparr> | Some ts \<Rightarrow> r\<lparr>batch := ts, pending := evs\<rparr>)"

definition handle_event :: "bool \<Rightarrow> reactor \<Rightarrow> reactor" where
  "handle_event k r =
     (case pending r of
        [] \<Rightarrow> r
      | (fd, flags) # evs \<Rightarrow>
          if flags AND EPOLLBROKEN \<noteq> 0 then taken evs (take_waiters k fd (EPOLLIN OR EPOLLOUT) r)
          else if flags AND EPOLLIN \<noteq> 0 then taken ((fd, flags AND NOT EPOLLIN) # evs) (take_waiters k fd EPOLLIN r)
          else if flags AND EPOLLOUT \<noteq> 0 then taken ((fd, flags AND NOT EPOLLOUT) # evs) (take_waiters k fd EPOLLOUT r)
          else r\<lparr>pending := evs\<rparr>)"

definition spawn :: "task \<Rightarrow> reactor \<Rightarrow> reactor" where
  "spawn t r = r\<lparr>active_tasks := active_tasks r + 1, running := t # running r\<rparr>"

text \<open>The awaiters suspend the running task; the timer of a sleep is a descriptor that becomes readable.  An exception
  in \<^verbatim>\<open>await_suspend\<close> is thrown to the task, which goes on running.\<close>

definition suspend :: "bool \<Rightarrow> int \<Rightarrow> 32 word \<Rightarrow> bool \<Rightarrow> reactor \<Rightarrow> reactor" where
  "suspend k fd edge is_timer r =
     (case running r of
        [] \<Rightarrow> r
      | t # ts \<Rightarrow>
          (case add_waiter k fd edge t is_timer (r\<lparr>running := ts\<rparr>) of
             (ok, r1) \<Rightarrow> if ok then r1 else r1\<lparr>running := t # ts\<rparr>))"

definition wait_readable :: "bool \<Rightarrow> int \<Rightarrow> reactor \<Rightarrow> reactor" where
  "wait_readable k fd = suspend k fd EPOLLIN False"

definition wait_writable :: "bool \<Rightarrow> int \<Rightarrow> reactor \<Rightarrow> reactor" where
  "wait_writable k fd = suspend k fd EPOLLOUT False"

definition sleep_for :: "bool \<Rightarrow> int \<Rightarrow> reactor \<Rightarrow> reactor" where
  "sleep_for k tfd = suspend k tfd EPOLLIN True"

text \<open>The end of a spawned coroutine.\<close>

definition final_suspend :: "reactor \<Rightarrow> reactor" where
  "final_suspend r = r\<lparr>running := tl (running r), active_tasks := active_tasks r - 1\<rparr>"

text \<open>The tasks that wait, in the order of the table.\<close>

definition waiting :: "reactor \<Rightarrow> task list" where
  "waiting r = concat (map (\<lambda>(fd, w). w_rd w @ w_wr w) (fds r))"

definition tasks :: "reactor \<Rightarrow> task list" where
  "tasks r = waiting r @ batch r @ running r"

inductive reactor_step :: "reactor \<Rightarrow> reactor \<Rightarrow> bool" where
  step_spawn: "t \<notin> set (tasks r) \<Longrightarrow> reactor_step r (spawn t r)"
| step_read: "running r \<noteq> [] \<Longrightarrow> reactor_step r (wait_readable k fd r)"
| step_write: "running r \<noteq> [] \<Longrightarrow> reactor_step r (wait_writable k fd r)"
| step_sleep: "running r \<noteq> [] \<Longrightarrow> reactor_step r (sleep_for k tfd r)"
| step_finish: "running r \<noteq> [] \<Longrightarrow> reactor_step r (final_suspend r)"
| step_poll: "running r = [] \<Longrightarrow> batch r = [] \<Longrightarrow> pending r = [] \<Longrightarrow> active_tasks r > 0 \<Longrightarrow>
    fst ` set evs \<subseteq> fst ` set (interest r) \<Longrightarrow> reactor_step r (r\<lparr>pending := evs\<rparr>)"
| step_event: "running r = [] \<Longrightarrow> batch r = [] \<Longrightarrow> pending r \<noteq> [] \<Longrightarrow> reactor_step r (handle_event k r)"
| step_resume: "running r = [] \<Longrightarrow> batch r = t # ts \<Longrightarrow> reactor_step r (r\<lparr>batch := ts, running := [t]\<rparr>)"

section \<open>The table and the kernel agree\<close>

definition mask_of :: "waiters \<Rightarrow> 32 word" where
  "mask_of w = (if w_rd w \<noteq> [] then EPOLLIN else 0) OR (if w_wr w \<noteq> [] then EPOLLOUT else 0)"

text \<open>An entry exists only for a descriptor somebody waits for, and the kernel is subscribed to exactly what the
  waiters of each descriptor wait for.\<close>

definition table_ok :: "reactor \<Rightarrow> bool" where
  "table_ok r \<longleftrightarrow> umap_wf (fds r) \<and> map_of (interest r) = (\<lambda>fd. map_option w_mask (map_of (fds r) fd)) \<and>
     (\<forall>fd w. map_of (fds r) fd = Some w \<longrightarrow> w_mask w = mask_of w \<and> mask_of w \<noteq> 0) \<and> thrown r = []"

lemmas epoll_bits = EPOLLIN_def EPOLLOUT_def

lemma mask_of_bits:
  "mask_of w = 0 \<longleftrightarrow> w_rd w = [] \<and> w_wr w = []"
  "mask_of w AND EPOLLIN \<noteq> 0 \<longleftrightarrow> w_rd w \<noteq> []"
  "mask_of w AND EPOLLOUT \<noteq> 0 \<longleftrightarrow> w_wr w \<noteq> []"
  "mask_of w OR EPOLLIN = mask_of (w\<lparr>w_rd := w_rd w @ [t]\<rparr>)"
  "mask_of w OR EPOLLOUT = mask_of (w\<lparr>w_wr := w_wr w @ [t]\<rparr>)"
  by (simp_all add: mask_of_def epoll_bits)

definition fd_tasks :: "int \<times> waiters \<Rightarrow> task list" where
  "fd_tasks = (\<lambda>(fd, w). w_rd w @ w_wr w)"

lemma fd_tasks_simp [simp]: "fd_tasks (fd, w) = w_rd w @ w_wr w"
  by (simp add: fd_tasks_def)

lemma waiting_fds: "waiting r = concat (map fd_tasks (fds r))"
  by (simp add: waiting_def fd_tasks_def)

definition fd_mset :: "int \<Rightarrow> (int \<times> waiters) list \<Rightarrow> task multiset" where
  "fd_mset fd xs = (case map_of xs fd of None \<Rightarrow> {#} | Some w \<Rightarrow> mset (w_rd w) + mset (w_wr w))"

lemma mset_update:
  "mset (concat (map fd_tasks (AList.update fd w xs))) + fd_mset fd xs =
   mset (concat (map fd_tasks xs)) + (mset (w_rd w) + mset (w_wr w))"
  by (induction xs) (auto simp: fd_mset_def)

lemma mset_delete:
  "umap_wf xs \<Longrightarrow> mset (concat (map fd_tasks (AList.delete fd xs))) + fd_mset fd xs = mset (concat (map fd_tasks xs))"
proof (induction xs)
  case (Cons a xs)
  obtain k w where a: "a = (k, w)"
    by fastforce
  have wf: "umap_wf xs" "k \<notin> fst ` set xs"
    using Cons.prems by (simp_all add: umap_wf_def a)
  show ?case
  proof (cases "k = fd")
    case True
    then have "AList.delete fd xs = xs"
      using wf(2) by (simp add: delete_id)
    then show ?thesis
      using True by (simp add: a fd_mset_def)
  next
    case False
    then show ?thesis
      using Cons.IH [OF wf(1)] by (simp add: a fd_mset_def add.assoc split: option.splits)
  qed
qed (simp add: fd_mset_def)

lemma fd_mset_update [simp]: "fd_mset fd (AList.update fd w xs) = mset (w_rd w) + mset (w_wr w)"
  by (simp add: fd_mset_def update_conv')

text \<open>Replacing the entry of a descriptor and the kernel's mask with it.\<close>

definition set_entry :: "int \<Rightarrow> waiters \<Rightarrow> reactor \<Rightarrow> reactor" where
  "set_entry fd w r = r\<lparr>fds := AList.update fd w (fds r), interest := AList.update fd (w_mask w) (interest r)\<rparr>"

lemma set_entry_ok: "table_ok r \<Longrightarrow> w_mask w = mask_of w \<Longrightarrow> mask_of w \<noteq> 0 \<Longrightarrow> table_ok (set_entry fd w r)"
  by (auto simp: table_ok_def set_entry_def umap_wf_def update_conv' distinct_update fun_eq_iff)

lemma set_entry_waiting:
  "mset (waiting (set_entry fd w r)) + fd_mset fd (fds r) = mset (waiting r) + (mset (w_rd w) + mset (w_wr w))"
  using mset_update [of fd w "fds r"] by (simp add: waiting_fds set_entry_def)

lemma table_okD:
  "table_ok r \<Longrightarrow> map_of (fds r) fd = Some w \<Longrightarrow>
   w_mask w = mask_of w \<and> mask_of w \<noteq> 0 \<and> map_of (interest r) fd = Some (w_mask w)"
  "table_ok r \<Longrightarrow> map_of (fds r) fd = None \<Longrightarrow> map_of (interest r) fd = None"
  unfolding table_ok_def by (metis option.simps(9)) (metis option.simps(8))

text \<open>With an agreeing table, the choice between adding and modifying is always the right one.\<close>

lemma ctl_set_entry:
  assumes "table_ok r" "fds r' = AList.update fd w (fds r)" "interest r' = interest r" "w_mask w = w_mask (at_fd fd r)"
  shows "ctl_add_or_mod True fd m r' = (True, r'\<lparr>fds := AList.update fd (w\<lparr>w_mask := m\<rparr>) (fds r'), interest := AList.update fd m (interest r)\<rparr>)"
proof -
  have "w_mask (at_fd fd r) = 0 \<longleftrightarrow> map_of (interest r) fd = None"
    using table_okD [OF assms(1), of fd] by (cases "map_of (fds r) fd") (auto simp: at_fd_def no_waiters_def)
  then show ?thesis
    using assms by (simp add: ctl_add_or_mod_def at_fd_def [of fd r'] update_conv' epoll_add_def epoll_mod_def)
qed

lemma at_fd_mask: "table_ok r \<Longrightarrow> w_mask (at_fd fd r) = mask_of (at_fd fd r)"
  using table_okD(1) [of r fd] by (cases "map_of (fds r) fd") (auto simp: at_fd_def no_waiters_def mask_of_def)

lemma fd_mset_at: "fd_mset fd (fds r) = mset (w_rd (at_fd fd r)) + mset (w_wr (at_fd fd r))"
  by (simp add: fd_mset_def at_fd_def no_waiters_def split: option.splits)

lemma update_twice: "AList.update k v (AList.update k u xs) = AList.update k v xs"
  by (induction xs) auto

lemma add_waiter_eq:
  assumes "table_ok r" "edge = EPOLLIN \<or> edge = EPOLLOUT"
  shows "add_waiter True fd edge t tm r = (True, set_entry fd ((at_fd fd r)\<lparr>w_timer := w_timer (at_fd fd r) \<or> tm,
      w_rd := if edge = EPOLLIN then w_rd (at_fd fd r) @ [t] else w_rd (at_fd fd r),
      w_wr := if edge = EPOLLIN then w_wr (at_fd fd r) else w_wr (at_fd fd r) @ [t],
      w_mask := w_mask (at_fd fd r) OR edge\<rparr>) r)"
proof -
  have bits: "EPOLLIN AND EPOLLIN \<noteq> 0" "EPOLLOUT AND EPOLLOUT \<noteq> 0" "EPOLLIN AND EPOLLOUT = 0" "EPOLLOUT AND EPOLLIN = 0"
    "EPOLLIN \<noteq> EPOLLOUT"
    by (simp_all add: epoll_bits)
  show ?thesis
    using assms(2) bits
    by (auto simp: add_waiter_def Let_def set_entry_def ctl_set_entry [OF assms(1)] update_twice)
qed

lemma add_waiter_ok:
  assumes "table_ok r" "edge = EPOLLIN \<or> edge = EPOLLOUT"
  shows "table_ok (snd (add_waiter True fd edge t tm r))"
    and "mset (waiting (snd (add_waiter True fd edge t tm r))) = add_mset t (mset (waiting r))"
proof -
  let ?w = "(at_fd fd r)\<lparr>w_timer := w_timer (at_fd fd r) \<or> tm,
      w_rd := if edge = EPOLLIN then w_rd (at_fd fd r) @ [t] else w_rd (at_fd fd r),
      w_wr := if edge = EPOLLIN then w_wr (at_fd fd r) else w_wr (at_fd fd r) @ [t],
      w_mask := w_mask (at_fd fd r) OR edge\<rparr>"
  have "w_mask ?w = mask_of ?w" "mask_of ?w \<noteq> 0"
    using assms(2) at_fd_mask [OF assms(1), of fd] by (auto simp: mask_of_def epoll_bits)
  then show "table_ok (snd (add_waiter True fd edge t tm r))"
    using set_entry_ok [OF assms(1)] by (simp add: add_waiter_eq [OF assms])
  have "mset (waiting (snd (add_waiter True fd edge t tm r))) + fd_mset fd (fds r) = add_mset t (mset (waiting r)) + fd_mset fd (fds r)"
    unfolding add_waiter_eq [OF assms] snd_conv set_entry_waiting by (simp add: fd_mset_at)
  then show "mset (waiting (snd (add_waiter True fd edge t tm r))) = add_mset t (mset (waiting r))"
    by (simp only: add_right_cancel)
qed

text \<open>Only the table, the kernel's set and the flag are touched.\<close>

lemma ctl_frame [simp]:
  "active_tasks (snd (ctl_add_or_mod k fd m r)) = active_tasks r" "pending (snd (ctl_add_or_mod k fd m r)) = pending r"
  "batch (snd (ctl_add_or_mod k fd m r)) = batch r" "running (snd (ctl_add_or_mod k fd m r)) = running r"
  by (simp_all add: ctl_add_or_mod_def Let_def split: sum.split)

lemma add_waiter_frame [simp]:
  "active_tasks (snd (add_waiter k fd edge t tm r)) = active_tasks r" "pending (snd (add_waiter k fd edge t tm r)) = pending r"
  "batch (snd (add_waiter k fd edge t tm r)) = batch r" "running (snd (add_waiter k fd edge t tm r)) = running r"
  by (simp_all add: add_waiter_def Let_def)

lemma take_waiters_frame [simp]:
  "active_tasks (snd (take_waiters k fd edge r)) = active_tasks r" "pending (snd (take_waiters k fd edge r)) = pending r"
  "batch (snd (take_waiters k fd edge r)) = batch r" "running (snd (take_waiters k fd edge r)) = running r"
  by (simp_all add: take_waiters_def Let_def case_prod_beta split: option.split)

lemma take_waiters_eq:
  assumes "table_ok r" "map_of (fds r) fd = Some w"
    "w1 = w\<lparr>w_rd := if edge AND EPOLLIN \<noteq> 0 then [] else w_rd w, w_wr := if edge AND EPOLLOUT \<noteq> 0 then [] else w_wr w\<rparr>"
  shows "snd (take_waiters True fd edge r) =
    (if mask_of w1 = 0 then r\<lparr>fds := AList.delete fd (fds r), interest := AList.delete fd (interest r)\<rparr>
     else set_entry fd (w1\<lparr>w_mask := mask_of w1\<rparr>) r)"
proof -
  have m: "w_mask w = mask_of w" "mask_of w \<noteq> 0" "map_of (interest r) fd = Some (w_mask w)"
    using table_okD(1) [OF assms(1,2)] by simp_all
  have del: "AList.delete fd (AList.update fd u xs) = AList.delete fd xs" for u :: waiters and xs
    by (induction xs) auto
  have w1: "w_mask w1 = w_mask (at_fd fd r)"
    using assms(2,3) by (simp add: at_fd_def)
  have w1': "w_mask w1 = w_mask w" "w_rd w1 = (if edge AND EPOLLIN \<noteq> 0 then [] else w_rd w)"
    "w_wr w1 = (if edge AND EPOLLOUT \<noteq> 0 then [] else w_wr w)"
    by (simp_all add: assms(3))
  have t: "snd (take_waiters True fd edge r) =
     (let r1 = r\<lparr>fds := AList.update fd w1 (fds r)\<rparr> in
      if mask_of w1 \<noteq> w_mask w then
        (if mask_of w1 = 0 then r1\<lparr>interest := AList.delete fd (interest r1), fds := AList.delete fd (fds r1)\<rparr>
         else snd (ctl_add_or_mod True fd (mask_of w1) r1))
      else r1)"
    unfolding take_waiters_def assms(2) Let_def option.case assms(3) [symmetric] mask_of_def case_prod_beta by simp
  show ?thesis
  proof (cases "mask_of w1 = w_mask w")
    case True
    then have e: "w1\<lparr>w_mask := mask_of w1\<rparr> = w1"
      using w1'(1) by simp
    show ?thesis
      unfolding t e using True m w1'(1) by (simp add: Let_def set_entry_def update_triv)
  next
    case False
    then show ?thesis
      unfolding t by (simp add: Let_def set_entry_def del ctl_set_entry [OF assms(1) _ _ w1] update_twice)
  qed
qed

lemma take_waiters_granted:
  assumes "table_ok r"
  shows "fst (take_waiters True fd edge r) = Some (case map_of (fds r) fd of None \<Rightarrow> []
    | Some w \<Rightarrow> (if edge AND EPOLLIN \<noteq> 0 then w_rd w else []) @ (if edge AND EPOLLOUT \<noteq> 0 then w_wr w else []))"
  using ctl_set_entry [OF assms, of _ fd] unfolding take_waiters_def Let_def
  by (auto simp: at_fd_def split: option.split)

lemma take_waiters_ok:
  assumes "table_ok r"
  shows "table_ok (snd (take_waiters True fd edge r))"
    and "mset (the (fst (take_waiters True fd edge r))) + mset (waiting (snd (take_waiters True fd edge r))) = mset (waiting r)"
proof -
  have "table_ok (snd (take_waiters True fd edge r)) \<and>
    mset (the (fst (take_waiters True fd edge r))) + mset (waiting (snd (take_waiters True fd edge r))) = mset (waiting r)"
  proof (cases "map_of (fds r) fd")
    case None
    then show ?thesis
      using assms by (simp add: take_waiters_def)
  next
    case (Some w)
    define w1 where "w1 = w\<lparr>w_rd := if edge AND EPOLLIN \<noteq> 0 then [] else w_rd w, w_wr := if edge AND EPOLLOUT \<noteq> 0 then [] else w_wr w\<rparr>"
    have out: "mset (the (fst (take_waiters True fd edge r))) + (mset (w_rd w1) + mset (w_wr w1)) = fd_mset fd (fds r)"
      using Some by (simp add: take_waiters_granted [OF assms] w1_def fd_mset_def)
    note eq = take_waiters_eq [OF assms Some w1_def]
    show ?thesis
    proof (cases "mask_of w1 = 0")
      case True
      have wf: "umap_wf (fds r)"
        using assms by (simp add: table_ok_def)
      have "table_ok (r\<lparr>fds := AList.delete fd (fds r), interest := AList.delete fd (interest r)\<rparr>)"
        using assms by (auto simp: table_ok_def umap_wf_def delete_conv' distinct_delete fun_eq_iff)
      moreover have "mset (w_rd w1) + mset (w_wr w1) = {#}"
        using True by (simp add: mask_of_bits)
      ultimately show ?thesis
        using mset_delete [OF wf, of fd] out True unfolding eq by (simp add: waiting_fds add.commute)
    next
      case False
      have "table_ok (set_entry fd (w1\<lparr>w_mask := mask_of w1\<rparr>) r)"
        using False by (intro set_entry_ok assms) (simp_all add: mask_of_def)
      moreover have "mset (waiting (set_entry fd (w1\<lparr>w_mask := mask_of w1\<rparr>) r)) + fd_mset fd (fds r) =
          mset (waiting r) + (mset (w_rd w1) + mset (w_wr w1))"
        using set_entry_waiting [of fd "w1\<lparr>w_mask := mask_of w1\<rparr>" r] by simp
      ultimately show ?thesis
        using False unfolding eq out [symmetric] by (simp add: ac_simps)
    qed
  qed
  then show "table_ok (snd (take_waiters True fd edge r))"
    "mset (the (fst (take_waiters True fd edge r))) + mset (waiting (snd (take_waiters True fd edge r))) = mset (waiting r)"
    by simp_all
qed

section \<open>No task is lost\<close>

definition reactor_inv :: "reactor \<Rightarrow> bool" where
  "reactor_inv r \<longleftrightarrow> table_ok r \<and> distinct (tasks r) \<and> active_tasks r = int (length (tasks r))"

lemma reactor_inv_mset:
  assumes "mset (tasks r') = mset (tasks r)" "table_ok r'" "active_tasks r' = active_tasks r" "reactor_inv r"
  shows "reactor_inv r'"
  using assms mset_eq_imp_distinct_iff [OF assms(1)] mset_eq_length [OF assms(1)] by (simp add: reactor_inv_def)

lemma table_ok_frame [simp]:
  "table_ok (r\<lparr>running := ts\<rparr>) = table_ok r" "table_ok (r\<lparr>batch := ts\<rparr>) = table_ok r"
  "table_ok (r\<lparr>pending := evs\<rparr>) = table_ok r" "table_ok (r\<lparr>active_tasks := n\<rparr>) = table_ok r"
  by (simp_all add: table_ok_def)

lemma waiting_frame [simp]:
  "waiting (r\<lparr>running := ts\<rparr>) = waiting r" "waiting (r\<lparr>batch := ts\<rparr>) = waiting r"
  "waiting (r\<lparr>pending := evs\<rparr>) = waiting r" "waiting (r\<lparr>active_tasks := n\<rparr>) = waiting r"
  by (simp_all add: waiting_def)

lemma inv_suspend:
  assumes "reactor_inv r" "running r \<noteq> []" "edge = EPOLLIN \<or> edge = EPOLLOUT"
  shows "reactor_inv (suspend True fd edge tm r)"
proof (rule reactor_inv_mset [OF _ _ _ assms(1)])
  obtain t ts where t: "running r = t # ts" using assms(2) by (cases "running r") auto
  have ok: "table_ok (r\<lparr>running := ts\<rparr>)"
    using assms(1) by (simp add: reactor_inv_def)
  have s: "suspend True fd edge tm r = snd (add_waiter True fd edge t tm (r\<lparr>running := ts\<rparr>))"
    by (simp add: suspend_def t add_waiter_eq [OF ok assms(3)])
  show "table_ok (suspend True fd edge tm r)"
    unfolding s by (rule add_waiter_ok [OF ok assms(3)])
  show "mset (tasks (suspend True fd edge tm r)) = mset (tasks r)"
    unfolding s using add_waiter_ok(2) [OF ok assms(3), of fd t tm] t by (simp add: tasks_def)
  show "active_tasks (suspend True fd edge tm r) = active_tasks r"
    by (simp add: s)
qed

lemma inv_take:
  assumes "reactor_inv r" "batch r = []"
  shows "reactor_inv (taken evs (take_waiters True fd edge r))"
proof (rule reactor_inv_mset [OF _ _ _ assms(1)])
  have ok: "table_ok r"
    using assms(1) by (simp add: reactor_inv_def)
  obtain out where out: "fst (take_waiters True fd edge r) = Some out"
    using take_waiters_granted [OF ok] by blast
  then have t: "taken evs (take_waiters True fd edge r) = (snd (take_waiters True fd edge r))\<lparr>batch := out, pending := evs\<rparr>"
    by (simp add: taken_def case_prod_beta)
  show "table_ok (taken evs (take_waiters True fd edge r))"
    using take_waiters_ok(1) [OF ok, of fd edge] by (simp add: t)
  show "mset (tasks (taken evs (take_waiters True fd edge r))) = mset (tasks r)"
    using take_waiters_ok(2) [OF ok, of fd edge] assms(2) out by (simp add: t tasks_def ac_simps)
  show "active_tasks (taken evs (take_waiters True fd edge r)) = active_tasks r"
    by (simp add: t)
qed

lemma inv_handle_event: "reactor_inv r \<Longrightarrow> batch r = [] \<Longrightarrow> reactor_inv (handle_event True r)"
proof -
  assume a: "reactor_inv r" "batch r = []"
  then have "reactor_inv (r\<lparr>pending := evs\<rparr>)" for evs
    by (intro reactor_inv_mset [OF _ _ _ a(1)]) (auto simp: tasks_def reactor_inv_def)
  then show ?thesis
    using inv_take [OF a] a(1) by (auto simp: handle_event_def split: list.splits)
qed

subsection \<open>Refused calls\<close>

text \<open>A step during which nothing is thrown is the step with a kernel that grants everything.\<close>

lemma ctl_refused_eq: "\<exists>x. ctl_add_or_mod False fd m r = (False, r\<lparr>fds := AList.update fd (at_fd fd r) (fds r), thrown := x # thrown r\<rparr>)"
  by (auto simp: ctl_add_or_mod_def epoll_add_def epoll_mod_def Let_def)

lemma ctl_refused: "thrown (snd (ctl_add_or_mod False fd m r)) \<noteq> []"
  using ctl_refused_eq [of fd m r] by auto

lemma suspend_granted:
  "thrown (suspend k fd edge tm r) = [] \<Longrightarrow> suspend k fd edge tm r = suspend True fd edge tm r"
  by (cases k) (auto simp: suspend_def add_waiter_def Let_def ctl_refused case_prod_beta split: list.splits if_splits)

lemma take_waiters_unrefused:
  "thrown (snd (take_waiters k fd edge r)) = [] \<Longrightarrow> take_waiters k fd edge r = take_waiters True fd edge r"
  by (cases k) (auto simp: take_waiters_def Let_def ctl_refused case_prod_beta split: option.splits if_splits)

lemma taken_thrown [simp]: "thrown (taken evs p) = thrown (snd p)"
  by (simp add: taken_def case_prod_beta split: option.splits)

lemma handle_event_granted: "thrown (handle_event k r) = [] \<Longrightarrow> handle_event k r = handle_event True r"
  by (auto simp: handle_event_def split: list.splits if_splits dest!: take_waiters_unrefused)

text \<open>Exceptions are recorded for good.\<close>

lemma ctl_thrown: "thrown r \<noteq> [] \<Longrightarrow> thrown (snd (ctl_add_or_mod k fd m r)) \<noteq> []"
  by (simp add: ctl_add_or_mod_def Let_def split: sum.splits)

lemma step_thrown: "reactor_step r r' \<Longrightarrow> thrown r \<noteq> [] \<Longrightarrow> thrown r' \<noteq> []"
  by (induction rule: reactor_step.induct)
    (auto simp: spawn_def wait_readable_def wait_writable_def sleep_for_def suspend_def add_waiter_def final_suspend_def
      handle_event_def take_waiters_def Let_def case_prod_beta ctl_thrown split: list.splits option.splits)

lemma reactor_step_inv: "reactor_step r r' \<Longrightarrow> reactor_inv r \<Longrightarrow> thrown r' = [] \<Longrightarrow> reactor_inv r'"
proof (induction rule: reactor_step.induct)
  case (step_spawn t r)
  then show ?case
    by (auto simp: reactor_inv_def spawn_def tasks_def)
next
  case (step_read r k fd)
  then show ?case using suspend_granted [of k fd EPOLLIN False r] inv_suspend [of r EPOLLIN fd False] by (simp add: wait_readable_def)
next
  case (step_write r k fd)
  then show ?case using suspend_granted [of k fd EPOLLOUT False r] inv_suspend [of r EPOLLOUT fd False] by (simp add: wait_writable_def)
next
  case (step_sleep r k fd)
  then show ?case using suspend_granted [of k fd EPOLLIN True r] inv_suspend [of r EPOLLIN fd True] by (simp add: sleep_for_def)
next
  case (step_finish r)
  then show ?case
    by (cases "running r") (auto simp: reactor_inv_def tasks_def final_suspend_def)
next
  case (step_poll r evs)
  then show ?case
    by (intro reactor_inv_mset [OF _ _ _ step_poll(6)]) (auto simp: tasks_def reactor_inv_def)
next
  case (step_event r k)
  then show ?case using handle_event_granted [of k r] inv_handle_event [of r] by simp
next
  case (step_resume r t ts)
  then show ?case
    by (intro reactor_inv_mset [OF _ _ _ step_resume(3)]) (auto simp: tasks_def reactor_inv_def)
qed

text \<open>Whether calls were refused or not, the kernel has what the table records for it, so that the choice between adding
  and modifying is always the right one.\<close>

definition masks_agree :: "reactor \<Rightarrow> bool" where
  "masks_agree r \<longleftrightarrow> (\<forall>fd. map_of (interest r) fd = (if w_mask (at_fd fd r) = 0 then None else Some (w_mask (at_fd fd r)))) \<and>
     set (thrown r) \<subseteq> {Refused}"




lemma masks_agree_frame [simp]:
  "masks_agree (r\<lparr>running := ts\<rparr>) = masks_agree r" "masks_agree (r\<lparr>batch := ts\<rparr>) = masks_agree r"
  "masks_agree (r\<lparr>pending := evs\<rparr>) = masks_agree r" "masks_agree (r\<lparr>active_tasks := n\<rparr>) = masks_agree r"
  by (simp_all add: masks_agree_def at_fd_def)





lemma new_reactor_inv: "reactor_inv new_reactor"
  by (simp add: reactor_inv_def new_reactor_def table_ok_def tasks_def waiting_def umap_wf_def fun_eq_iff)


interpretation reactor: inductive_invariant "\<lambda>r. r = new_reactor" reactor_step "\<lambda>r. thrown r = [] \<longrightarrow> reactor_inv r"
  by unfold_locales (auto simp: new_reactor_inv intro: reactor_step_inv dest: step_thrown)




text \<open>A wait the kernel refuses leaves the task in two places: its handle stays in the table although the task, to which
  the exception is thrown, goes on running; the kernel's set and the counter of the loop are as before, so the
  scheduler holds one handle more than it counts.\<close>

theorem refused_wait_duplicates:
  assumes "running r = t # ts"
  shows "t \<in> set (running (wait_readable False fd r)) \<and> t \<in> set (w_rd (at_fd fd (wait_readable False fd r))) \<and>
    mset (tasks (wait_readable False fd r)) = add_mset t (mset (tasks r)) \<and>
    interest (wait_readable False fd r) = interest r \<and> active_tasks (wait_readable False fd r) = active_tasks r"
proof -
  let ?w = "(at_fd fd r)\<lparr>w_timer := w_timer (at_fd fd r) \<or> False, w_rd := w_rd (at_fd fd r) @ [t]\<rparr>"
  let ?r = "r\<lparr>running := ts, fds := AList.update fd ?w (fds r)\<rparr>"
  have e: "EPOLLIN \<noteq> 0" "EPOLLIN AND EPOLLOUT = 0" by (simp_all add: epoll_bits)
  have at: "at_fd fd (r\<lparr>running := ts\<rparr>) = at_fd fd r" "at_fd fd ?r = ?w"
    by (simp_all add: at_fd_def update_conv')
  obtain x where "ctl_add_or_mod False fd (w_mask (at_fd fd r) OR EPOLLIN) ?r =
      (False, ?r\<lparr>fds := AList.update fd (at_fd fd ?r) (fds ?r), thrown := x # thrown ?r\<rparr>)"
    using ctl_refused_eq by blast
  then have eq: "wait_readable False fd r = r\<lparr>running := t # ts, fds := AList.update fd ?w (fds r), thrown := x # thrown r\<rparr>"
    unfolding at(2) by (simp add: wait_readable_def suspend_def assms add_waiter_def Let_def at(1) e update_twice)
  have "mset (waiting (wait_readable False fd r)) + fd_mset fd (fds r) = add_mset t (mset (waiting r)) + fd_mset fd (fds r)"
    using mset_update [of fd ?w "fds r"] by (simp add: eq waiting_fds fd_mset_at)
  then have "mset (waiting (wait_readable False fd r)) = add_mset t (mset (waiting r))"
    by (simp only: add_right_cancel)
  then show ?thesis
    using assms by (simp add: eq tasks_def at_fd_def update_conv' waiting_def)
qed

theorem refused_wait_duplicates_witness:
  "mset (tasks (wait_readable False 5 (spawn 1 new_reactor))) = {#1, 1#} \<and>
   active_tasks (wait_readable False 5 (spawn 1 new_reactor)) = 1"
proof -
  have s: "running (spawn 1 new_reactor) = [1]" "mset (tasks (spawn 1 new_reactor)) = {#1#}" "active_tasks (spawn 1 new_reactor) = 1"
    by (simp_all add: spawn_def new_reactor_def tasks_def waiting_def)
  show ?thesis
    using refused_wait_duplicates [OF s(1), of 5] by (simp only: s(2,3))
qed

end
