(* ===== verification/Heartbeat.thy ===== *)
theory Heartbeat
  imports Failover
begin

text \<open>
  Heartbeats on the wire: the coroutines of \<^verbatim>\<open>src/common/include/dfg/async_net.hpp\<close> that send and receive, the
  sender of a cluster server in \<^verbatim>\<open>src/cluster_server/chunk_service.cpp\<close>, and the reading of one datagram by
  the health checker.  The protobuf runtime is a parameter, as in \<^verbatim>\<open>Messages\<close>; the kernel is a list of
  results, as in \<^verbatim>\<open>Net_Utils\<close>, where \<open>Again\<close> suspends the coroutine until the descriptor is ready.
\<close>

section \<open>Exact transfers\<close>

text \<open>\<open>False\<close> stands for the exception the coroutine throws; the kernel accepts at least one byte or reports an
  error.\<close>

fun async_send_all :: "byte list \<Rightarrow> io_res list \<Rightarrow> (bool \<times> byte list) option" where
  "async_send_all p rs =
     (if p = [] then Some (True, [])
      else case rs of
        [] \<Rightarrow> None
      | Ready n # rs' \<Rightarrow>
          (let k = min n (length p) in
           if k > 0 then map_option (\<lambda>(ok, w). (ok, take k p @ w)) (async_send_all (drop k p) rs')
           else Some (False, []))
      | Again _ # rs' \<Rightarrow> async_send_all p rs'
      | Fail # rs' \<Rightarrow> Some (False, []))"

fun async_read_exact :: "nat \<Rightarrow> byte list \<Rightarrow> io_res list \<Rightarrow> (bool \<times> byte list \<times> byte list) option" where
  "async_read_exact len s rs =
     (if len = 0 then Some (True, [], s)
      else case rs of
        [] \<Rightarrow> None
      | Ready n # rs' \<Rightarrow>
          (let k = recv_count n len s in
           if k > 0
           then map_option (\<lambda>(ok, b, t). (ok, take k s @ b, t)) (async_read_exact (len - k) (drop k s) rs')
           else Some (False, [], s))
      | Again _ # rs' \<Rightarrow> async_read_exact len s rs'
      | Fail # rs' \<Rightarrow> Some (False, [], s))"

declare async_send_all.simps [simp del] async_read_exact.simps [simp del]

section \<open>Messages\<close>

text \<open>The fields a sender sets besides those the head server reads.\<close>

record wire_heartbeat = heartbeat +
  hb_storage :: rat
  hb_timestamp :: int

record hb_codec =
  hb_enc :: "wire_heartbeat \<Rightarrow> byte list option"
  hb_dec :: "byte list \<Rightarrow> wire_heartbeat option"

datatype hb_error = Serialize_failed | Peer_closed | Parse_failed

definition build_frame :: "hb_codec \<Rightarrow> wire_heartbeat \<Rightarrow> hb_error + byte list" where
  "build_frame k hb =
     (case hb_enc k hb of
        None \<Rightarrow> Inl Serialize_failed
      | Some payload \<Rightarrow> Inr (htonl_bytes (of_nat (length payload)) @ payload))"

text \<open>What the system monitor knows: a cached sample, or the disk and memory percentages read on the spot.\<close>

record usage =
  us_cpu :: rat
  us_ram :: rat
  us_disk :: rat
  us_net_in :: string
  us_net_out :: string
  us_in_bps :: "64 word"
  us_out_bps :: "64 word"

datatype sample = Cached usage | Fresh rat rat

definition new_heartbeat :: "int \<Rightarrow> string \<Rightarrow> wire_heartbeat" where
  "new_heartbeat sid ip = \<lparr>hb_id = sid, hb_ip = ip, hb_cpu = 0, hb_ram = 0, hb_disk = 0, hb_net_in = [], hb_net_out = [],
     hb_net_in_bps = 0, hb_net_out_bps = 0, hb_storage = 0, hb_timestamp = 0\<rparr>"

definition fill_metrics :: "int \<Rightarrow> sample \<Rightarrow> wire_heartbeat \<Rightarrow> wire_heartbeat" where
  "fill_metrics now s hb =
     (case s of
        Cached u \<Rightarrow>
          hb\<lparr>hb_timestamp := now, hb_cpu := us_cpu u, hb_storage := us_disk u, hb_ram := us_ram u, hb_disk := us_disk u,
             hb_net_in := us_net_in u, hb_net_out := us_net_out u, hb_net_in_bps := us_in_bps u,
             hb_net_out_bps := us_out_bps u\<rparr>
      | Fresh d r \<Rightarrow> hb\<lparr>hb_timestamp := now, hb_storage := d, hb_disk := d, hb_ram := r\<rparr>)"

text \<open>The sender of a cluster server builds each message anew; a frame that cannot be built is skipped.\<close>

definition sender_message :: "int \<Rightarrow> string \<Rightarrow> int \<Rightarrow> int \<times> sample \<Rightarrow> wire_heartbeat" where
  "sender_message sid ip port now_s = fill_metrics (fst now_s) (snd now_s) (new_heartbeat sid (ip @ '':'' @ show_int port))"

definition heartbeat_sender :: "hb_codec \<Rightarrow> int \<Rightarrow> string \<Rightarrow> int \<Rightarrow> (int \<times> sample) list \<Rightarrow> byte list list" where
  "heartbeat_sender k sid ip port samples =
     List.map_filter (\<lambda>ns. case build_frame k (sender_message sid ip port ns) of Inl _ \<Rightarrow> None | Inr f \<Rightarrow> Some f) samples"

text \<open>\<^verbatim>\<open>send_heartbeats\<close> on the samples it finds, one turn each: the frames, and whether it ended with an exception.  A
  negative count goes on for ever.\<close>

fun send_heartbeats :: "hb_codec \<Rightarrow> wire_heartbeat \<Rightarrow> int \<Rightarrow> int \<Rightarrow> (int \<times> sample) list \<Rightarrow> byte list list \<times> hb_error option" where
  "send_heartbeats k hb cnt sent [] = ([], None)"
| "send_heartbeats k hb cnt sent ((now, s) # ss) =
     (if cnt < 0 \<or> sent < cnt then
        (let hb1 = fill_metrics now s hb in
         case build_frame k hb1 of
           Inl e \<Rightarrow> ([], Some e)
         | Inr f \<Rightarrow>
             if cnt > 0 \<and> sent + 1 \<ge> cnt then ([f], None)
             else (let (fs, e) = send_heartbeats k hb1 cnt (sent + 1) ss in (f # fs, e)))
      else ([], None))"

text \<open>\<^verbatim>\<open>recv_heartbeats\<close> on the bytes of a connection up to its end: the messages handed over, and the exception that
  ends the loop.\<close>

function recv_heartbeats :: "hb_codec \<Rightarrow> byte list \<Rightarrow> wire_heartbeat list \<times> hb_error" where
  "recv_heartbeats k s =
     (if length s < 4 then ([], Peer_closed)
      else
        (let body_len = unat (ntohl_bytes (take 4 s)); rest = drop 4 s in
         if length rest < body_len then ([], Peer_closed)
         else if body_len \<ge> 2 ^ 31 then ([], Parse_failed)
         else
           (case hb_dec k (take body_len rest) of
              None \<Rightarrow> ([], Parse_failed)
            | Some hb \<Rightarrow> (let (hs, e) = recv_heartbeats k (drop body_len rest) in (hb # hs, e)))))"
  by pat_completeness auto
termination
  by (relation "measure (\<lambda>(k, s). length s)") auto

declare recv_heartbeats.simps [simp del]

text \<open>The health checker reads a datagram into 1024 bytes and parses everything behind the length, which it does not
  look at.\<close>

definition hc_datagram :: "hb_codec \<Rightarrow> byte list \<Rightarrow> wire_heartbeat option" where
  "hc_datagram k datagram =
     (let buf = take 1024 datagram in if length buf > 4 then hb_dec k (drop 4 buf) else None)"

section \<open>Lemmas\<close>

fun wake :: "io_res \<Rightarrow> io_res" where
  "wake (Again _) = Again 1"
| "wake r = r"

text \<open>A coroutine waits as long as it takes; apart from that the transfers are those of \<^verbatim>\<open>net_utils.hpp\<close>.\<close>

lemma async_send_all_eq: "async_send_all p rs = send_all p (map wake rs)"
proof (induction rs arbitrary: p)
  case Nil
  then show ?case
    by (simp add: async_send_all.simps [of p] send_all.simps [of p])
next
  case (Cons r rs)
  then show ?case
    by (cases r) (simp_all add: async_send_all.simps [of p "r # rs" for r] send_all.simps [of p "r # map wake rs" for r] Let_def)
qed

lemma async_read_exact_eq: "async_read_exact n s rs = recv_all n s (map wake rs)"
proof (induction rs arbitrary: n s)
  case Nil
  then show ?case
    by (simp add: async_read_exact.simps [of n s] recv_all.simps [of n s])
next
  case (Cons r rs)
  then show ?case
    by (cases r) (simp_all add: async_read_exact.simps [of n s "r # rs" for r] recv_all.simps [of n s "r # map wake rs" for r] Let_def)
qed

definition hb_codec_ok :: "hb_codec \<Rightarrow> bool" where
  "hb_codec_ok k \<longleftrightarrow> (\<forall>hb p. hb_enc k hb = Some p \<longrightarrow> hb_dec k p = Some hb)"

lemma frame_parts:
  assumes "build_frame k hb = Inr f"
  obtains p where "hb_enc k hb = Some p" "f = htonl_bytes (of_nat (length p)) @ p"
  using assms by (auto simp: build_frame_def split: option.splits)

lemma unat_small: "n < 2 ^ 31 \<Longrightarrow> unat (of_nat n :: 32 word) = n"
  by (simp add: unat_of_nat take_bit_nat_eq_self)

lemma recv_frame:
  assumes "hb_codec_ok k" "build_frame k hb = Inr f" "length f < 2 ^ 31"
  shows "recv_heartbeats k (f @ s) = (hb # fst (recv_heartbeats k s), snd (recv_heartbeats k s))"
proof -
  obtain p where p: "hb_enc k hb = Some p" "f = htonl_bytes (of_nat (length p)) @ p"
    using frame_parts [OF assms(2)] .
  have n: "length p < 2 ^ 31" "unat (of_nat (length p) :: 32 word) = length p"
    using assms(3) p(2) by (simp_all add: unat_small)
  have "hb_dec k p = Some hb"
    using assms(1) p(1) by (simp add: hb_codec_ok_def)
  then show ?thesis
    using n by (subst recv_heartbeats.simps) (simp add: p(2) Let_def case_prod_beta)
qed

lemma recv_frames:
  assumes "hb_codec_ok k" "\<forall>hb \<in> set hbs. \<exists>f. build_frame k hb = Inr f \<and> length f < 2 ^ 31"
  shows "recv_heartbeats k (concat (map (\<lambda>hb. projr (build_frame k hb)) hbs)) = (hbs, Peer_closed)"
  using assms(2)
proof (induction hbs)
  case Nil
  then show ?case
    by (simp add: recv_heartbeats.simps)
next
  case (Cons hb hbs)
  then obtain f where f: "build_frame k hb = Inr f" "length f < 2 ^ 31"
    by auto
  show ?case
    using Cons recv_frame [OF assms(1) f] by (simp add: f(1))
qed

lemma frame_to_checker:
  assumes "hb_codec_ok k" "build_frame k hb = Inr f" "4 < length f" "length f \<le> 1024"
  shows "hc_datagram k f = Some hb"
proof -
  obtain p where p: "hb_enc k hb = Some p" "f = htonl_bytes (of_nat (length p)) @ p"
    using frame_parts [OF assms(2)] .
  have "hb_dec k p = Some hb"
    using assms(1) p(1) by (simp add: hb_codec_ok_def)
  then show ?thesis
    using assms(3,4) by (simp add: p(2) hc_datagram_def)
qed

lemma frame_to_head:
  assumes "hb_codec_ok k" "build_frame k hb = Inr f" "length f \<le> 1024"
  shows "parse_datagram (\<lambda>b. map_option heartbeat.truncate (hb_dec k b)) f = Some (heartbeat.truncate hb)"
proof -
  obtain p where p: "hb_enc k hb = Some p" "f = htonl_bytes (of_nat (length p)) @ p"
    using frame_parts [OF assms(2)] .
  have d: "hb_dec k p = Some hb"
    using assms(1) p(1) by (simp add: hb_codec_ok_def)
  have n: "length p \<le> 1020" "unat (of_nat (length p) :: 32 word) = length p"
    using assms(3) p(2) by (simp_all add: unat_small)
  then have "unat (4 + of_nat (length p) :: 32 word) = 4 + length p"
    using unat_small [of "4 + length p"] by simp
  then show ?thesis
    using n d by (simp add: p(2) parse_datagram_def Let_def)
qed

text \<open>C23. One frame means the same to everybody: the head server's receiver reads the fields it knows, the health
  checker the whole message if the frame fits its buffer, and a receiver on a connection reads the messages
  of consecutive frames one by one, whatever their number.\<close>

theorem heartbeat_frames:
  assumes "hb_codec_ok k" "\<forall>hb \<in> set hbs. \<exists>f. build_frame k hb = Inr f \<and> 4 < length f \<and> length f \<le> 1024"
  shows "recv_heartbeats k (concat (map (\<lambda>hb. projr (build_frame k hb)) hbs)) = (hbs, Peer_closed) \<and>
    (\<forall>hb \<in> set hbs. hc_datagram k (projr (build_frame k hb)) = Some hb \<and>
       parse_datagram (\<lambda>b. map_option heartbeat.truncate (hb_dec k b)) (projr (build_frame k hb)) =
         Some (heartbeat.truncate hb))"
proof
  show "recv_heartbeats k (concat (map (\<lambda>hb. projr (build_frame k hb)) hbs)) = (hbs, Peer_closed)"
    using assms by (intro recv_frames) fastforce+
  show "\<forall>hb \<in> set hbs. hc_datagram k (projr (build_frame k hb)) = Some hb \<and>
       parse_datagram (\<lambda>b. map_option heartbeat.truncate (hb_dec k b)) (projr (build_frame k hb)) =
         Some (heartbeat.truncate hb)"
  proof
    fix hb assume "hb \<in> set hbs"
    then obtain f where f: "build_frame k hb = Inr f" "4 < length f" "length f \<le> 1024"
      using assms(2) by blast
    then show "hc_datagram k (projr (build_frame k hb)) = Some hb \<and>
       parse_datagram (\<lambda>b. map_option heartbeat.truncate (hb_dec k b)) (projr (build_frame k hb)) =
         Some (heartbeat.truncate hb)"
      using frame_to_checker [OF assms(1) f] frame_to_head [OF assms(1) f(1,3)] by simp
  qed
qed

text \<open>A codec that satisfies the law.\<close>

definition sample_hb_codec :: hb_codec where
  "sample_hb_codec = \<lparr>
     hb_enc = (\<lambda>m. Some (enc_fields [int_bytes (hb_id m), str_bytes (hb_ip m),
        int_bytes (fst (quotient_of (hb_cpu m))), int_bytes (snd (quotient_of (hb_cpu m))),
        int_bytes (fst (quotient_of (hb_ram m))), int_bytes (snd (quotient_of (hb_ram m))),
        int_bytes (fst (quotient_of (hb_disk m))), int_bytes (snd (quotient_of (hb_disk m))),
        str_bytes (hb_net_in m), str_bytes (hb_net_out m), int_bytes (uint (hb_net_in_bps m)),
        int_bytes (uint (hb_net_out_bps m)),
        int_bytes (fst (quotient_of (hb_storage m))), int_bytes (snd (quotient_of (hb_storage m))), int_bytes (hb_timestamp m)])),
     hb_dec = (\<lambda>b. case dec_fields [] b of [i, p, c1, c2, r1, r2, d1, d2, ni, no, bi, bo, s1, s2, t] \<Rightarrow>
        Some \<lparr>hb_id = bytes_int i, hb_ip = bytes_str p, hb_cpu = rat_of_int (bytes_int c1) / rat_of_int (bytes_int c2),
          hb_ram = rat_of_int (bytes_int r1) / rat_of_int (bytes_int r2),
          hb_disk = rat_of_int (bytes_int d1) / rat_of_int (bytes_int d2), hb_net_in = bytes_str ni, hb_net_out = bytes_str no,
          hb_net_in_bps = word_of_int (bytes_int bi), hb_net_out_bps = word_of_int (bytes_int bo),
          hb_storage = rat_of_int (bytes_int s1) / rat_of_int (bytes_int s2), hb_timestamp = bytes_int t\<rparr> | _ \<Rightarrow> None)\<rparr>"

lemma sample_hb_codec_ok: "hb_codec_ok sample_hb_codec"
  by (auto simp: hb_codec_ok_def sample_hb_codec_def)

lemma length_enc_fields: "length (enc_fields fs) = (\<Sum>f\<leftarrow>fs. 2 * length f + 1)"
proof -
  have "length (enc_field f) = 2 * length f + 1" for f
    by (induction f) (simp_all add: enc_field_def)
  then show ?thesis
    by (induction fs) (simp_all add: enc_fields_def)
qed

theorem heartbeat_frames_witness:
  "recv_heartbeats sample_hb_codec (concat (map (\<lambda>hb. projr (build_frame sample_hb_codec hb)) [new_heartbeat 1 ''10.0.0.1:8080'', new_heartbeat 2 []])) =
     ([new_heartbeat 1 ''10.0.0.1:8080'', new_heartbeat 2 []], Peer_closed)"
proof -
  have one: "show_int 0 = ''0''" "show_int 1 = ''1''" "show_int 2 = ''2''"
    by code_simp+
  have "\<exists>f. build_frame sample_hb_codec hb = Inr f \<and> 4 < length f \<and> length f \<le> 1024"
    if "hb = new_heartbeat 1 ''10.0.0.1:8080'' \<or> hb = new_heartbeat 2 []" for hb
    using that by (auto simp: build_frame_def sample_hb_codec_def length_enc_fields int_bytes_def new_heartbeat_def one)
  then show ?thesis
    using heartbeat_frames [OF sample_hb_codec_ok, of "[new_heartbeat 1 ''10.0.0.1:8080'', new_heartbeat 2 []]"] by simp
qed

end
