(* ===== verification/Health_Checker.thy ===== *)
theory Health_Checker
  imports Heartbeat Zookeeper Metadata_Store Config_Loader Transition_System
begin

text \<open>
  The health checker process, \<^verbatim>\<open>src/health_checker/health_checker.cpp\<close>: the table of cluster servers fed by
  heartbeat datagrams, the periodic check that declares a silent server dead unless its ZooKeeper node exists, the scan
  for chunks to replicate, the queries and the web page.  Times are nanoseconds of the steady clock.  What the checker
  only counts or prints is returned as events; metrics are left out.
\<close>

record hc_health =
  ch_id :: int
  ch_ip :: string
  ch_last :: int
  ch_cpu :: rat
  ch_storage :: rat
  ch_ram :: rat
  ch_disk :: rat
  ch_net_in :: string
  ch_net_out :: string
  ch_net_in_bps :: "64 word"
  ch_net_out_bps :: "64 word"
  ch_healthy :: bool
  ch_missed :: int

record health_checker =
  hc_servers :: "(int \<times> hc_health) list"
  hc_max_missed :: int
  hc_timeout :: int
  hc_zk :: zk_client

definition empty_hc_health :: hc_health where
  "empty_hc_health = \<lparr>ch_id = 0, ch_ip = [], ch_last = 0, ch_cpu = 0, ch_storage = 0, ch_ram = 0, ch_disk = 0, ch_net_in = [],
     ch_net_out = [], ch_net_in_bps = 0, ch_net_out_bps = 0, ch_healthy = False, ch_missed = 0\<rparr>"

definition new_health_checker :: "getenv \<Rightarrow> config \<Rightarrow> health_checker" where
  "new_health_checker getenv cfg =
     \<lparr>hc_servers = [], hc_max_missed = get_int getenv cfg ''monitoring.max_missed_heartbeats'' 3,
      hc_timeout = get_int getenv cfg ''monitoring.heartbeat_timeout'' 60 * 1000000000, hc_zk = new_client ''127.0.0.1:2181''\<rparr>"

datatype hc_event = Back_online int | Died int | Still_registered int | Recovered_at_check int | Queued int nat nat | No_targets int

section \<open>Heartbeats\<close>

text \<open>\<^verbatim>\<open>servers[server_id]\<close> makes an entry of zeros for a new server.\<close>

definition process_heartbeat :: "int \<Rightarrow> wire_heartbeat \<Rightarrow> health_checker \<Rightarrow> health_checker \<times> hc_event list" where
  "process_heartbeat now hb c =
     (let sid = hb_id hb;
          h = (case map_of (hc_servers c) sid of None \<Rightarrow> empty_hc_health | Some h \<Rightarrow> h);
          h1 = h\<lparr>ch_id := sid, ch_ip := hb_ip hb, ch_last := now, ch_cpu := hb_cpu hb, ch_storage := hb_storage hb,
                 ch_ram := hb_ram hb, ch_disk := hb_disk hb, ch_net_in := hb_net_in hb, ch_net_out := hb_net_out hb,
                 ch_net_in_bps := hb_net_in_bps hb, ch_net_out_bps := hb_net_out_bps hb, ch_missed := 0, ch_healthy := True\<rparr>
      in (c\<lparr>hc_servers := AList.update sid h1 (hc_servers c)\<rparr>, if ch_healthy h then [] else [Back_online sid]))"

fun hc_receiver :: "hb_codec \<Rightarrow> (int \<times> byte list) list \<Rightarrow> health_checker \<Rightarrow> health_checker \<times> hc_event list" where
  "hc_receiver k [] c = (c, [])"
| "hc_receiver k ((now, datagram) # ds) c =
     (case hc_datagram k datagram of
        None \<Rightarrow> hc_receiver k ds c
      | Some hb \<Rightarrow>
          (let (c1, ev1) = process_heartbeat now hb c; (c2, ev2) = hc_receiver k ds c1 in (c2, ev1 @ ev2)))"

section \<open>Checks\<close>

text \<open>The scan after a death: how many chunk copies name the address the checker computes for the dead server.  Nothing
  is copied.\<close>

definition failed_prefix :: "int \<Rightarrow> string" where
  "failed_prefix sid = ''127.0.0.1:'' @ show_int (8079 + sid)"

definition queued_chunks :: "int \<Rightarrow> mstore \<Rightarrow> nat" where
  "queued_chunks sid md =
     sum_list (map (\<lambda>f. length (filter (\<lambda>c. contains (failed_prefix sid) (cr_server c)) (fr_chunks (query_metadata f md))))
       (list_files_snapshot md))"

definition trigger_replication :: "mstore \<Rightarrow> int \<Rightarrow> (int \<times> hc_health) list \<Rightarrow> hc_event list" where
  "trigger_replication md sid hs =
     (let targets = map (ch_ip \<circ> snd) (filter (\<lambda>(i, h). ch_healthy h \<and> i \<noteq> sid) hs) in
      if targets = [] then [No_targets sid] else [Queued sid (queued_chunks sid md) (length targets)])"

definition hc_znode :: "int \<Rightarrow> string" where
  "hc_znode sid = ''/dfg/cluster_servers/server_'' @ show_int sid"

definition check_one :: "int \<Rightarrow> zk_store \<Rightarrow> mstore \<Rightarrow> int \<Rightarrow> health_checker \<Rightarrow> health_checker \<times> hc_event list" where
  "check_one now zk md sid c =
     (case map_of (hc_servers c) sid of
        None \<Rightarrow> (c, [])
      | Some h \<Rightarrow>
          if now - ch_last h > hc_timeout c then
            (let h1 = h\<lparr>ch_missed := ch_missed h + 1\<rparr> in
             if ch_missed h1 \<ge> hc_max_missed c \<and> ch_healthy h1 then
               (let zc = (if zk_connected (hc_zk c) then hc_zk c else fst (zk_connect (hc_zk c))) in
                if \<not> node_exists (hc_znode sid) zk then
                  (let hs = AList.update sid (h1\<lparr>ch_healthy := False\<rparr>) (hc_servers c)
                   in (c\<lparr>hc_servers := hs, hc_zk := zc\<rparr>, Died sid # trigger_replication md sid hs))
                else (c\<lparr>hc_servers := AList.update sid h1 (hc_servers c), hc_zk := zc\<rparr>, [Still_registered sid]))
             else (c\<lparr>hc_servers := AList.update sid h1 (hc_servers c)\<rparr>, []))
          else if \<not> ch_healthy h \<and> ch_missed h > 0 then
            (c\<lparr>hc_servers := AList.update sid (h\<lparr>ch_healthy := True, ch_missed := 0\<rparr>) (hc_servers c)\<rparr>, [Recovered_at_check sid])
          else (c, []))"

fun check_ids :: "int \<Rightarrow> zk_store \<Rightarrow> mstore \<Rightarrow> int list \<Rightarrow> health_checker \<Rightarrow> health_checker \<times> hc_event list" where
  "check_ids now zk md [] c = (c, [])"
| "check_ids now zk md (sid # sids) c =
     (let (c1, ev1) = check_one now zk md sid c; (c2, ev2) = check_ids now zk md sids c1 in (c2, ev1 @ ev2))"

definition check_server_health :: "int \<Rightarrow> zk_store \<Rightarrow> mstore \<Rightarrow> health_checker \<Rightarrow> health_checker \<times> hc_event list" where
  "check_server_health now zk md c = check_ids now zk md (map fst (hc_servers c)) c"

section \<open>Queries\<close>

definition get_server_status :: "health_checker \<Rightarrow> hc_health list" where
  "get_server_status c = map snd (hc_servers c)"

definition get_healthy_servers :: "health_checker \<Rightarrow> int list" where
  "get_healthy_servers c = map fst (filter (\<lambda>(i, h). ch_healthy h) (hc_servers c))"

definition is_server_healthy :: "int \<Rightarrow> health_checker \<Rightarrow> bool" where
  "is_server_healthy sid c = (case map_of (hc_servers c) sid of None \<Rightarrow> False | Some h \<Rightarrow> ch_healthy h)"

text \<open>One row of the web page; \<open>str\<close> is \<^verbatim>\<open>std::to_string\<close> of a \<^verbatim>\<open>float\<close>.\<close>

definition ui_row :: "(rat \<Rightarrow> string) \<Rightarrow> hc_health \<Rightarrow> string" where
  "ui_row str h =
     ''<tr><td>'' @ show_int (ch_id h) @ ''</td>'' @ ''<td>'' @ ch_ip h @ ''</td>'' @ ''<td>'' @ str (ch_cpu h) @ ''</td>'' @
     ''<td>'' @ str (ch_ram h) @ ''</td>'' @ ''<td>'' @ str (ch_disk h) @ ''</td>'' @ ''<td>'' @ ch_net_in h @ ''</td>'' @
     ''<td>'' @ ch_net_out h @ ''</td>'' @ ''<td style='' @ [dquote] @ ''color:'' @ (if ch_healthy h then ''green'' else ''red'') @
     '';font-weight:bold;'' @ [dquote] @ ''>'' @ (if ch_healthy h then ''Healthy'' else ''Unhealthy'') @ ''</td></tr>''"

text \<open>The arguments of the process: \<open>True\<close> when the service is started.\<close>

definition run_health_checker :: "string list \<Rightarrow> bool" where
  "run_health_checker args =
     (case args of [] \<Rightarrow> True
      | arg # _ \<Rightarrow> \<not> (arg = ''-h'' \<or> arg = ''--help'' \<or> arg = ''-v'' \<or> arg = ''-V'' \<or> arg = ''--version''))"

section \<open>One server at a time\<close>

text \<open>What a check does to the entry of one server, given whether its node is absent.\<close>

definition check_entry_at :: "int \<Rightarrow> int \<Rightarrow> int \<Rightarrow> bool \<Rightarrow> hc_health \<Rightarrow> hc_health" where
  "check_entry_at timeout maxm now absent h =
     (if now - ch_last h > timeout
      then h\<lparr>ch_missed := ch_missed h + 1,
             ch_healthy := ch_healthy h \<and> \<not> (ch_missed h + 1 \<ge> maxm \<and> absent)\<rparr>
      else if \<not> ch_healthy h \<and> ch_missed h > 0 then h\<lparr>ch_healthy := True, ch_missed := 0\<rparr> else h)"

lemma set_healthy: "ch_healthy h = b \<Longrightarrow> h\<lparr>ch_healthy := b\<rparr> = h"
  by auto

lemma check_one_entry:
  "map_of (hc_servers (fst (check_one now zk md sid c))) =
     (map_of (hc_servers c))(sid := map_option (check_entry_at (hc_timeout c) (hc_max_missed c) now (\<not> node_exists (hc_znode sid) zk))
        (map_of (hc_servers c) sid))"
proof (cases "map_of (hc_servers c) sid")
  case None
  then show ?thesis
    by (simp add: check_one_def fun_upd_idem)
next
  case (Some h)
  show ?thesis
  proof (cases "now - ch_last h > hc_timeout c")
    case True
    then show ?thesis
      using Some by (cases "ch_healthy h"; cases "ch_missed h + 1 \<ge> hc_max_missed c"; cases "node_exists (hc_znode sid) zk")
        (simp_all add: check_one_def check_entry_at_def Let_def update_conv' set_healthy)
  next
    case False
    then show ?thesis
      using Some by (cases "\<not> ch_healthy h \<and> ch_missed h > 0")
        (auto simp: check_one_def check_entry_at_def update_conv' fun_upd_idem)
  qed
qed

lemma check_one_config [simp]:
  "hc_timeout (fst (check_one now zk md sid c)) = hc_timeout c" "hc_max_missed (fst (check_one now zk md sid c)) = hc_max_missed c"
  by (simp_all add: check_one_def Let_def split: option.splits)

lemma check_ids_config [simp]:
  "hc_timeout (fst (check_ids now zk md sids c)) = hc_timeout c" "hc_max_missed (fst (check_ids now zk md sids c)) = hc_max_missed c"
  by (induction sids arbitrary: c) (simp_all add: case_prod_beta)

lemma check_ids_entry:
  "distinct sids \<Longrightarrow> map_of (hc_servers (fst (check_ids now zk md sids c))) sid =
     (if sid \<in> set sids
      then map_option (check_entry_at (hc_timeout c) (hc_max_missed c) now (\<not> node_exists (hc_znode sid) zk)) (map_of (hc_servers c) sid)
      else map_of (hc_servers c) sid)"
  by (induction sids arbitrary: c) (auto simp: case_prod_beta check_one_entry)

lemma check_entry:
  assumes "umap_wf (hc_servers c)"
  shows "map_of (hc_servers (fst (check_server_health now zk md c))) sid =
    map_option (check_entry_at (hc_timeout c) (hc_max_missed c) now (\<not> node_exists (hc_znode sid) zk)) (map_of (hc_servers c) sid)"
proof (cases "sid \<in> set (map fst (hc_servers c))")
  case True
  then show ?thesis
    using assms by (simp add: check_server_health_def umap_wf_def check_ids_entry)
next
  case False
  then have "map_of (hc_servers c) sid = None"
    by (simp add: map_of_eq_None_iff)
  then show ?thesis
    using assms False by (simp add: check_server_health_def umap_wf_def check_ids_entry)
qed

lemma check_one_wf: "umap_wf (hc_servers c) \<Longrightarrow> umap_wf (hc_servers (fst (check_one now zk md sid c)))"
  by (simp add: check_one_def Let_def umap_wf_def distinct_update split: option.splits)

lemma check_ids_wf: "umap_wf (hc_servers c) \<Longrightarrow> umap_wf (hc_servers (fst (check_ids now zk md sids c)))"
  by (induction sids arbitrary: c) (simp_all add: case_prod_beta check_one_wf)

lemma check_wf: "umap_wf (hc_servers c) \<Longrightarrow> umap_wf (hc_servers (fst (check_server_health now zk md c)))"
  by (simp add: check_server_health_def check_ids_wf)

section \<open>Detection\<close>

text \<open>Checks at the given times, each with the nodes ZooKeeper has at that time.\<close>

fun run_checks :: "mstore \<Rightarrow> (int \<times> zk_store) list \<Rightarrow> health_checker \<Rightarrow> health_checker" where
  "run_checks md [] c = c"
| "run_checks md ((now, zk) # cs) c = run_checks md cs (fst (check_server_health now zk md c))"

definition late :: "int \<Rightarrow> int \<Rightarrow> int \<times> zk_store \<Rightarrow> bool" where
  "late timeout hb t \<longleftrightarrow> fst t - hb > timeout"

text \<open>The checks that may declare the server dead: late, at least the \<open>maxm\<close>-th such check, \<open>n\<close> having come before, and
  the node of the server absent.\<close>

fun fatal :: "int \<Rightarrow> int \<Rightarrow> int \<Rightarrow> string \<Rightarrow> int \<Rightarrow> (int \<times> zk_store) list \<Rightarrow> bool" where
  "fatal timeout hb maxm node n [] = False"
| "fatal timeout hb maxm node n (t # ts) =
     (if late timeout hb t then n + 1 \<ge> maxm \<and> \<not> node_exists node (snd t) \<or> fatal timeout hb maxm node (n + 1) ts
      else fatal timeout hb maxm node n ts)"

lemma run_checks_append: "run_checks md (xs @ ys) c = run_checks md ys (run_checks md xs c)"
  by (induction md xs c rule: run_checks.induct) simp_all

lemma check_config [simp]:
  "hc_timeout (fst (check_server_health now zk md c)) = hc_timeout c" "hc_max_missed (fst (check_server_health now zk md c)) = hc_max_missed c"
  by (simp_all add: check_server_health_def)

lemma dead_stays:
  assumes "umap_wf (hc_servers c)" "map_of (hc_servers c) sid = Some h" "\<not> ch_healthy h" "\<forall>t \<in> set ts. late (hc_timeout c) (ch_last h) t"
  shows "\<not> is_server_healthy sid (run_checks md ts c)"
  using assms
proof (induction ts arbitrary: c h)
  case (Cons t ts)
  obtain now zk where t: "t = (now, zk)"
    by fastforce
  let ?h = "check_entry_at (hc_timeout c) (hc_max_missed c) now (\<not> node_exists (hc_znode sid) zk) h"
  let ?c = "fst (check_server_health now zk md c)"
  have h: "\<not> ch_healthy ?h" "ch_last ?h = ch_last h"
    using Cons.prems(3,4) by (simp_all add: t check_entry_at_def late_def)
  have "map_of (hc_servers ?c) sid = Some ?h"
    using check_entry [OF Cons.prems(1), of now zk md sid] Cons.prems(2) by simp
  then show ?case
    using Cons.IH [OF check_wf [OF Cons.prems(1)] _ h(1)] Cons.prems(4) h(2) by (simp add: t)
qed (simp add: is_server_healthy_def)

lemma alive_checks:
  assumes "umap_wf (hc_servers c)" "map_of (hc_servers c) sid = Some h" "ch_healthy h" "ch_missed h = n" "n \<ge> 0"
    "sorted (map fst ts)"
  shows "is_server_healthy sid (run_checks md ts c) \<longleftrightarrow>
    \<not> fatal (hc_timeout c) (ch_last h) (hc_max_missed c) (hc_znode sid) n ts"
  using assms
proof (induction ts arbitrary: c h n)
  case (Cons t ts)
  obtain now zk where t: "t = (now, zk)"
    by fastforce
  let ?h = "check_entry_at (hc_timeout c) (hc_max_missed c) now (\<not> node_exists (hc_znode sid) zk) h"
  let ?c = "fst (check_server_health now zk md c)"
  have e: "map_of (hc_servers ?c) sid = Some ?h"
    using check_entry [OF Cons.prems(1), of now zk md sid] Cons.prems(2) by simp
  have l: "ch_last ?h = ch_last h"
    by (simp add: check_entry_at_def)
  note wf = check_wf [OF Cons.prems(1), of now zk md]
  show ?case
  proof (cases "late (hc_timeout c) (ch_last h) t")
    case False
    then have "?h = h"
      using Cons.prems(3) by (simp add: check_entry_at_def late_def t)
    then show ?thesis
      using Cons.IH [OF wf e, of n] Cons.prems False by (simp add: t)
  next
    case True
    have later: "\<forall>s \<in> set ts. late (hc_timeout c) (ch_last h) s"
      using True Cons.prems(6) by (fastforce simp: late_def)
    show ?thesis
    proof (cases "n + 1 \<ge> hc_max_missed c \<and> \<not> node_exists (hc_znode sid) zk")
      case dead: True
      have "\<not> ch_healthy ?h"
        using dead True Cons.prems(4) by (simp add: check_entry_at_def late_def t)
      then show ?thesis
        using dead_stays [OF wf e] later l True dead by (simp add: t)
    next
      case alive: False
      have "ch_healthy ?h" "ch_missed ?h = n + 1"
        using alive True Cons.prems(3,4) by (auto simp: check_entry_at_def late_def t)
      then show ?thesis
        using Cons.IH [OF wf e, of "n + 1"] Cons.prems(5,6) l True alive by (simp add: t)
    qed
  qed
qed (simp add: is_server_healthy_def)

lemma heartbeat_entry:
  "\<exists>h. map_of (hc_servers (fst (process_heartbeat now hb c))) (hb_id hb) = Some h \<and> ch_healthy h \<and> ch_missed h = 0 \<and>
     ch_last h = now \<and> ch_ip h = hb_ip hb"
  "umap_wf (hc_servers c) \<Longrightarrow> umap_wf (hc_servers (fst (process_heartbeat now hb c)))"
  "hc_timeout (fst (process_heartbeat now hb c)) = hc_timeout c" "hc_max_missed (fst (process_heartbeat now hb c)) = hc_max_missed c"
  by (simp_all add: process_heartbeat_def Let_def update_conv' umap_wf_def distinct_update)

text \<open>C14. A server is declared dead exactly when it should be.  After its last heartbeat, received as a
  datagram, it is healthy until a check finds the heartbeat older than the timeout for at least the allowed number of
  checks while its ZooKeeper node is absent; from that check on it is unhealthy, and no earlier.\<close>

theorem death_exact:
  assumes "umap_wf (hc_servers c)" "hc_datagram k datagram = Some hb" "sorted (map fst ts)"
  shows "is_server_healthy (hb_id hb) (run_checks md ts (fst (hc_receiver k [(now, datagram)] c))) \<longleftrightarrow>
    \<not> fatal (hc_timeout c) now (hc_max_missed c) (hc_znode (hb_id hb)) 0 ts"
proof -
  let ?c = "fst (process_heartbeat now hb c)"
  obtain h where h: "map_of (hc_servers ?c) (hb_id hb) = Some h" "ch_healthy h" "ch_missed h = 0" "ch_last h = now"
    using heartbeat_entry(1) [of now hb c] by blast
  have "fst (hc_receiver k [(now, datagram)] c) = ?c"
    using assms(2) by (simp add: case_prod_beta)
  then show ?thesis
    using alive_checks [OF heartbeat_entry(2) [OF assms(1)] h(1,2,3) _ assms(3), of md] h(4)
    by (simp add: heartbeat_entry(3,4))
qed

definition sample_checker :: health_checker where
  "sample_checker = \<lparr>hc_servers = [], hc_max_missed = 3, hc_timeout = 60000000000, hc_zk = new_client ''127.0.0.1:2181''\<rparr>"

definition sample_checks :: "(int \<times> zk_store) list" where
  "sample_checks = map (\<lambda>t. (t * 1000000000, zk_init)) [30, 70, 100, 130]"

theorem death_exact_witness:
  "\<not> is_server_healthy 1 (run_checks sample_store sample_checks (fst (hc_receiver sample_hb_codec
      [(0, projr (build_frame sample_hb_codec (new_heartbeat 1 ''10.0.0.1:8080'')))] sample_checker)))"
proof -
  let ?hb = "new_heartbeat 1 ''10.0.0.1:8080''"
  have one: "show_int 0 = ''0''" "show_int 1 = ''1''"
    by code_simp+
  have f: "\<exists>f. build_frame sample_hb_codec ?hb = Inr f \<and> 4 < length f \<and> length f \<le> 1024"
    by (simp add: build_frame_def sample_hb_codec_def length_enc_fields int_bytes_def new_heartbeat_def one)
  have "hc_datagram sample_hb_codec (projr (build_frame sample_hb_codec ?hb)) = Some ?hb"
    using frame_to_checker [OF sample_hb_codec_ok] f by auto
  then show ?thesis
    using death_exact [of sample_checker sample_hb_codec _ ?hb sample_checks sample_store 0]
    by (simp add: sample_checker_def sample_checks_def umap_wf_def late_def new_heartbeat_def hc_znode_def node_exists_def
        zk_init_def one normalize_path_def strip_slashes_id)
qed

section \<open>Recovery\<close>

text \<open>The checker over time: the steady clock never goes back, and the two coroutines run one at a time.\<close>

inductive hc_step :: "health_checker \<times> int \<Rightarrow> health_checker \<times> int \<Rightarrow> bool" where
  hc_beat: "t \<le> now \<Longrightarrow> hc_step (c, t) (fst (process_heartbeat now hb c), now)"
| hc_check: "t \<le> now \<Longrightarrow> hc_step (c, t) (fst (check_server_health now zk md c), now)"

definition hc_inv :: "health_checker \<times> int \<Rightarrow> bool" where
  "hc_inv s \<longleftrightarrow> umap_wf (hc_servers (fst s)) \<and>
     (\<forall>sid h. map_of (hc_servers (fst s)) sid = Some h \<longrightarrow> \<not> ch_healthy h \<longrightarrow> snd s - ch_last h > hc_timeout (fst s))"

lemma hc_inv_later: "hc_inv (c, t) \<Longrightarrow> t \<le> now \<Longrightarrow> hc_inv (c, now)"
  by (fastforce simp: hc_inv_def)

lemma hc_inv_beat: "hc_inv (c, now) \<Longrightarrow> hc_inv (fst (process_heartbeat now hb c), now)"
  by (auto simp: hc_inv_def process_heartbeat_def Let_def update_conv' umap_wf_def distinct_update)

lemma check_entry_late:
  assumes "\<not> ch_healthy (check_entry_at to m now a h)" "\<not> ch_healthy h \<longrightarrow> now - ch_last h > to"
  shows "now - ch_last (check_entry_at to m now a h) > to"
  using assms by (cases "now - ch_last h > to"; cases "ch_healthy h") (simp_all add: check_entry_at_def)

lemma hc_inv_check:
  assumes "hc_inv (c, now)"
  shows "hc_inv (fst (check_server_health now zk md c), now)"
proof -
  have wf: "umap_wf (hc_servers c)"
    and old: "map_of (hc_servers c) sid = Some h \<longrightarrow> \<not> ch_healthy h \<longrightarrow> now - ch_last h > hc_timeout c" for sid h
    using assms unfolding hc_inv_def fst_conv snd_conv by blast+
  have "now - ch_last h > hc_timeout c"
    if "map_of (hc_servers (fst (check_server_health now zk md c))) sid = Some h" "\<not> ch_healthy h" for sid h
    using that check_entry [OF wf, of now zk md sid] check_entry_late old by auto
  then show ?thesis
    using check_wf [OF wf] by (simp add: hc_inv_def)
qed

lemma check_one_no_recovery:
  assumes "hc_inv (c, now)"
  shows "Recovered_at_check r \<notin> set (snd (check_one now zk md sid c))" "hc_inv (fst (check_one now zk md sid c), now)"
proof -
  have wf: "umap_wf (hc_servers c)"
    and old: "map_of (hc_servers c) sid = Some h \<longrightarrow> \<not> ch_healthy h \<longrightarrow> now - ch_last h > hc_timeout c" for sid h
    using assms unfolding hc_inv_def fst_conv snd_conv by blast+
  show "Recovered_at_check r \<notin> set (snd (check_one now zk md sid c))"
    using old [of sid] by (cases "map_of (hc_servers c) sid") (auto simp: check_one_def Let_def trigger_replication_def)
  have "now - ch_last h > hc_timeout c"
    if "map_of (hc_servers (fst (check_one now zk md sid c))) s = Some h" "\<not> ch_healthy h" for s h
    using that check_entry_late old by (auto simp: check_one_entry split: if_splits)
  then show "hc_inv (fst (check_one now zk md sid c), now)"
    using check_one_wf [OF wf] by (simp add: hc_inv_def)
qed

lemma check_ids_no_recovery:
  "hc_inv (c, now) \<Longrightarrow> Recovered_at_check r \<notin> set (snd (check_ids now zk md sids c))"
  by (induction sids arbitrary: c) (auto simp: case_prod_beta check_one_no_recovery)

interpretation hc: inductive_invariant "\<lambda>s. \<exists>getenv cfg t. s = (new_health_checker getenv cfg, t)" hc_step hc_inv
proof
  fix s :: "health_checker \<times> int"
  assume "\<exists>getenv cfg t. s = (new_health_checker getenv cfg, t)"
  then show "hc_inv s"
    by (auto simp: hc_inv_def new_health_checker_def umap_wf_def)
next
  fix s s'
  assume "hc_inv s" "hc_step s s'"
  from this(2,1) show "hc_inv s'"
    by (induction rule: hc_step.induct) (auto intro: hc_inv_beat hc_inv_check hc_inv_later)
qed

text \<open>In every reachable state of the checker, every server marked unhealthy has been silent for longer than
  the timeout, so a check never finds a server to recover: that branch and its counter are dead code, and only a
  heartbeat brings a server back.\<close>

theorem recovery_only_by_heartbeat:
  assumes "reach (\<lambda>s. \<exists>getenv cfg t. s = (new_health_checker getenv cfg, t)) hc_step (c, t)" "t \<le> now"
  shows "Recovered_at_check sid \<notin> set (snd (check_server_health now zk md c)) \<and>
    (map_of (hc_servers c) sid = Some h \<and> \<not> ch_healthy h \<longrightarrow> t - ch_last h > hc_timeout c)"
proof -
  have inv: "hc_inv (c, t)"
    using hc.reach_inv [OF assms(1)] .
  have "map_of (hc_servers c) sid = Some h \<and> \<not> ch_healthy h \<longrightarrow> t - ch_last h > hc_timeout c"
    using inv unfolding hc_inv_def fst_conv snd_conv by blast
  then show ?thesis
    using check_ids_no_recovery [OF hc_inv_later [OF inv assms(2)]] unfolding check_server_health_def by blast
qed

theorem recovery_only_by_heartbeat_witness:
  "\<exists>c. reach (\<lambda>s. \<exists>getenv cfg t. s = (new_health_checker getenv cfg, t)) hc_step (c, 500) \<and> hc_servers c \<noteq> [] \<and>
     Recovered_at_check 1 \<notin> set (snd (check_server_health 600 zk_init sample_store c))"
proof -
  let ?start = "new_health_checker (\<lambda>_. None) new_config"
  let ?c = "fst (process_heartbeat 500 (new_heartbeat 1 []) ?start)"
  have "reach (\<lambda>s. \<exists>getenv cfg t. s = (new_health_checker getenv cfg, t)) hc_step (?start, 100)"
    by (rule reach_init) blast
  then have r: "reach (\<lambda>s. \<exists>getenv cfg t. s = (new_health_checker getenv cfg, t)) hc_step (?c, 500)"
    by (rule reach_step) (rule hc_beat, simp)
  have "hc_servers ?c \<noteq> []"
    by (simp add: process_heartbeat_def Let_def new_health_checker_def)
  then show ?thesis
    using recovery_only_by_heartbeat [OF r, of 600 1 zk_init sample_store] r by auto
qed

end
