(* ===== verification/Cluster_Server.thy ===== *)
theory Cluster_Server
  imports Failover Control_API Config_Loader
begin

text \<open>
  The cluster server process around the chunk service, \<^verbatim>\<open>src/cluster_server/cluster_server.cpp\<close>: the choice of
  an address, the arguments, the registration with the head server and the liveness monitor, which keeps the node of
  the server in ZooKeeper and repeats the registration.  The connection to the head server is the parameter \<open>http\<close>;
  \<open>head_http\<close> is the head server's own control interface.
\<close>

section \<open>Registration\<close>

text \<open>A request sent to a host and port: the reply, or \<open>None\<close> when connecting, sending or waiting fails
  (\<^verbatim>\<open>recv\<close> takes what has arrived, here the whole of it).\<close>

type_synonym 'w http = "string \<Rightarrow> int \<Rightarrow> string \<Rightarrow> 'w \<Rightarrow> string option \<times> 'w"

definition register_body :: "int \<Rightarrow> string \<Rightarrow> int \<Rightarrow> int \<Rightarrow> int \<Rightarrow> string" where
  "register_body sid ip port tport pport =
     ''{'' @ quoted ''server_id'' @ '':'' @ show_int sid @ '','' @ quoted ''host'' @ '':'' @ quoted ip @ '','' @
     quoted ''port'' @ '':'' @ show_int port @ '','' @ quoted ''transfer_port'' @ '':'' @ show_int tport @ '','' @
     quoted ''public_port'' @ '':'' @ show_int pport @ ''}''"

definition register_request :: "string \<Rightarrow> string \<Rightarrow> string" where
  "register_request head_host body =
     ''POST /api/v1/servers/cluster/register HTTP/1.1'' @ [cr, nl] @
     ''Host: '' @ head_host @ [cr, nl] @
     ''Content-Type: application/json'' @ [cr, nl] @
     ''Content-Length: '' @ show_nat (length body) @ [cr, nl] @
     ''Connection: close'' @ [cr, nl, cr, nl] @ body"

definition self_register_with_head ::
  "'w http \<Rightarrow> string \<Rightarrow> int \<Rightarrow> int \<Rightarrow> string \<Rightarrow> int \<Rightarrow> int \<Rightarrow> int \<Rightarrow> 'w \<Rightarrow> bool \<times> 'w" where
  "self_register_with_head http head_host head_port sid ip port tport pport w =
     (let (reply, w1) = http head_host head_port (register_request head_host (register_body sid ip port tport pport)) w in
      case reply of
        None \<Rightarrow> (False, w1)
      | Some r \<Rightarrow> (let response = take 1023 r in (contains ''200'' response \<or> contains ''201'' response, w1)))"

text \<open>The attempts of the registration thread.\<close>

fun register_attempts :: "('w \<Rightarrow> bool \<times> 'w) \<Rightarrow> nat \<Rightarrow> 'w \<Rightarrow> bool \<times> 'w" where
  "register_attempts reg 0 w = (False, w)"
| "register_attempts reg (Suc n) w = (let (ok, w1) = reg w in if ok then (True, w1) else register_attempts reg n w1)"

section \<open>Liveness\<close>

definition liveness_znode :: "int \<Rightarrow> string" where
  "liveness_znode sid = ''/dfg/cluster_servers/server_'' @ show_int sid"

definition make_zk_data :: "string \<Rightarrow> int \<Rightarrow> int \<Rightarrow> string" where
  "make_zk_data ip port now = ip @ '':'' @ show_int port @ ''|timestamp:'' @ show_int now"

text \<open>The part before the loop, at time \<open>now\<close> in seconds.\<close>

definition liveness_start :: "string \<Rightarrow> int \<Rightarrow> string \<Rightarrow> int \<Rightarrow> int \<Rightarrow> zk_store \<Rightarrow> zk_client \<times> zk_store" where
  "liveness_start hosts sid ip port now st =
     (let (zk, ok, _) = zk_connect (new_client hosts) in
      if ok then
        (let st1 = (if node_exists ''/dfg/cluster_servers'' st then st
                    else fst (create_node zk ''/dfg/cluster_servers'' [] False False st));
             st2 = fst (create_node zk (liveness_znode sid) (make_zk_data ip port now) True False st1)
         in (zk, st2))
      else (zk, st))"

text \<open>One turn of the loop: the ZooKeeper part, and the count of consecutive failures.\<close>

definition liveness_zk :: "int \<Rightarrow> string \<Rightarrow> int \<Rightarrow> int \<Rightarrow> zk_client \<times> zk_store \<Rightarrow> bool \<times> zk_client \<times> zk_store" where
  "liveness_zk sid ip port now s =
     (let (zk, st) = s in
      if zk_connected zk \<and> node_exists (liveness_znode sid) st
      then (True, zk, fst (set_node_data zk (liveness_znode sid) (make_zk_data ip port now) st))
      else
        (let (zk1, ok, _) = zk_connect zk in
         if ok then
           (let st1 = fst (create_node zk1 (liveness_znode sid) (make_zk_data ip port now) True False st)
            in (zk_connected zk1 \<and> node_exists (liveness_znode sid) st1, zk1, st1))
         else (False, zk1, st)))"

definition liveness_round ::
  "('w \<Rightarrow> bool \<times> 'w) \<Rightarrow> int \<Rightarrow> string \<Rightarrow> int \<Rightarrow> int \<Rightarrow> (zk_client \<times> zk_store) \<times> int \<times> 'w \<Rightarrow> (zk_client \<times> zk_store) \<times> int \<times> 'w" where
  "liveness_round reg sid ip port now s =
     (case s of (zs, failures, w) \<Rightarrow>
        (let (zk_ok, zs1) = liveness_zk sid ip port now zs; (head_ok, w1) = reg w
         in (zs1, if \<not> zk_ok \<and> \<not> head_ok then failures + 1 else 0, w1)))"

definition liveness_stop :: "int \<Rightarrow> zk_client \<times> zk_store \<Rightarrow> zk_store" where
  "liveness_stop sid s = (if zk_connected (fst s) then fst (delete_node (fst s) (liveness_znode sid) (snd s)) else snd s)"

text \<open>The thread: the turns at the times \<open>ts\<close> until the process is told to end.\<close>

fun liveness_loop ::
  "('w \<Rightarrow> bool \<times> 'w) \<Rightarrow> int \<Rightarrow> string \<Rightarrow> int \<Rightarrow> int list \<Rightarrow> (zk_client \<times> zk_store) \<times> int \<times> 'w \<Rightarrow> (zk_client \<times> zk_store) \<times> int \<times> 'w" where
  "liveness_loop reg sid ip port [] s = s"
| "liveness_loop reg sid ip port (now # ts) s = liveness_loop reg sid ip port ts (liveness_round reg sid ip port now s)"

definition liveness_monitor ::
  "('w \<Rightarrow> bool \<times> 'w) \<Rightarrow> string \<Rightarrow> int \<Rightarrow> string \<Rightarrow> int \<Rightarrow> int \<Rightarrow> int list \<Rightarrow> zk_store \<times> 'w \<Rightarrow> zk_store \<times> 'w" where
  "liveness_monitor reg hosts sid ip port now ts s =
     (let (zs, _, w) = liveness_loop reg sid ip port ts (liveness_start hosts sid ip port now (fst s), 0, snd s)
      in (liveness_stop sid zs, w))"

section \<open>The address and the arguments\<close>

text \<open>The interfaces the kernel lists: the name, whether it has an IPv4 address, and what \<^verbatim>\<open>getnameinfo\<close> gives for
  it; \<open>None\<close> for a failing \<^verbatim>\<open>getifaddrs\<close>.\<close>

definition lan_interfaces :: "(string \<times> bool \<times> string option) list \<Rightarrow> (string \<times> string) list" where
  "lan_interfaces ifs = fold (\<lambda>(name, inet, host) m.
     case host of None \<Rightarrow> m | Some h \<Rightarrow> if inet \<and> name \<noteq> ''lo'' then omap_upd name h m else m) ifs []"

definition chooseLanAddress :: "(string \<times> bool \<times> string option) list option \<Rightarrow> bool \<Rightarrow> nat \<Rightarrow> string" where
  "chooseLanAddress ifaddrs tty choice =
     (case ifaddrs of
        None \<Rightarrow> []
      | Some ifs \<Rightarrow>
          (let interfaces = lan_interfaces ifs in
           if interfaces = [] then []
           else if \<not> tty then snd (hd interfaces)
           else if choice < 1 \<or> choice > length interfaces then []
           else snd (interfaces ! (choice - 1))))"

record server_args =
  sa_id :: int
  sa_ip :: string
  sa_port :: int
  sa_transfer :: int
  sa_public :: int
  sa_register :: bool
  sa_zk :: string

definition config_args :: "getenv \<Rightarrow> config \<Rightarrow> server_args" where
  "config_args getenv cfg = \<lparr>sa_id = get_int getenv cfg ''server.id'' 1, sa_ip = get_string getenv cfg ''server.host'' [],
     sa_port = get_int getenv cfg ''server.port'' 8080, sa_transfer = get_int getenv cfg ''server.transfer_port'' 8180,
     sa_public = get_int getenv cfg ''server.public_port'' 8280, sa_register = True, sa_zk = []\<rparr>"

text \<open>The value of an option, when there is one; a number that cannot be read ends the process.\<close>

definition set_option :: "string \<Rightarrow> string \<Rightarrow> server_args \<Rightarrow> (cxx_exn + server_args) option" where
  "set_option opt val a =
     (if opt = ''--server-id'' then Some (map_sum id (\<lambda>n. a\<lparr>sa_id := n\<rparr>) (stoi val))
      else if opt = ''--port'' then Some (map_sum id (\<lambda>n. a\<lparr>sa_port := n\<rparr>) (stoi val))
      else if opt = ''--transfer-port'' then Some (map_sum id (\<lambda>n. a\<lparr>sa_transfer := n\<rparr>) (stoi val))
      else if opt = ''--public-port'' then Some (map_sum id (\<lambda>n. a\<lparr>sa_public := n\<rparr>) (stoi val))
      else if opt = ''--ip'' then Some (Inr (a\<lparr>sa_ip := val\<rparr>))
      else if opt = ''--zk-hosts'' then Some (Inr (a\<lparr>sa_zk := val\<rparr>))
      else None)"

definition set_flag :: "string \<Rightarrow> server_args \<Rightarrow> server_args" where
  "set_flag opt a = (if opt = ''--no-register'' then a\<lparr>sa_register := False\<rparr> else a)"

fun parse_args :: "string list \<Rightarrow> server_args \<Rightarrow> cxx_exn + server_args" where
  "parse_args [] a = Inr a"
| "parse_args [opt] a = Inr (set_flag opt a)"
| "parse_args (opt # val # rest) a =
     (case set_option opt val a of
        None \<Rightarrow> parse_args (val # rest) (set_flag opt a)
      | Some (Inl e) \<Rightarrow> Inl e
      | Some (Inr a') \<Rightarrow> parse_args rest a')"

text \<open>What the process starts with, or \<open>None\<close> when it only prints help or its version.\<close>

definition run_cluster_server ::
  "getenv \<Rightarrow> config \<Rightarrow> string list \<Rightarrow> (string \<times> bool \<times> string option) list option \<Rightarrow> bool \<Rightarrow> nat \<Rightarrow>
   (cxx_exn + server_args \<times> string \<times> int \<times> string) option" where
  "run_cluster_server getenv cfg args ifaddrs tty choice =
     (if args \<noteq> [] \<and> hd args \<in> {''-h'', ''--help'', ''-v'', ''-V'', ''--version''} then None
      else Some
        (case parse_args args (config_args getenv cfg) of
           Inl e \<Rightarrow> Inl e
         | Inr a \<Rightarrow>
             (let a1 = (if sa_ip a = [] \<or> sa_ip a = ''0.0.0.0'' then a\<lparr>sa_ip := chooseLanAddress ifaddrs tty choice\<rparr> else a)
              in Inr (a1, get_string getenv cfg ''head_server.host'' ''127.0.0.1'', get_int getenv cfg ''head_server.control_port'' 9670,
                   if sa_zk a1 = [] then get_string getenv cfg ''zookeeper.hosts'' ''127.0.0.1:2181'' else sa_zk a1))))"

section \<open>The node of the server\<close>

lemma liveness_paths:
  "''/dfg/cluster_servers'' = path_of [''dfg'', ''cluster_servers'']"
  "liveness_znode sid = path_of [''dfg'', ''cluster_servers'', ''server_'' @ show_int sid]"
  "comps_ok [''dfg'', ''cluster_servers'']" "comps_ok [''dfg'', ''cluster_servers'', ''server_'' @ show_int sid]"
proof -
  have "CHR ''/'' \<notin> set (show_int sid)"
    using show_int_chars [of "CHR ''/''" sid] by (auto simp: is_digit_def)
  then show "''/dfg/cluster_servers'' = path_of [''dfg'', ''cluster_servers'']"
    "liveness_znode sid = path_of [''dfg'', ''cluster_servers'', ''server_'' @ show_int sid]"
    "comps_ok [''dfg'', ''cluster_servers'']" "comps_ok [''dfg'', ''cluster_servers'', ''server_'' @ show_int sid]"
    by (simp_all add: path_of_def liveness_znode_def comps_ok_def comp_ok_def)
qed

lemma dfg_path: "''/dfg'' = path_of [''dfg'']"
  by (simp add: path_of_def)

lemma liveness_loop_snoc:
  "liveness_loop reg sid ip port (ts @ [t]) s = liveness_round reg sid ip port t (liveness_loop reg sid ip port ts s)"
  by (induction ts arbitrary: s) simp_all

lemma fst_liveness_round: "fst (liveness_round reg sid ip port t s) = snd (liveness_zk sid ip port t (fst s))"
  by (simp add: liveness_round_def case_prod_unfold Let_def)

lemma normalize_liveness_znode [simp]: "normalize_path (liveness_znode sid) = liveness_znode sid"
  using normalize_path_of [OF liveness_paths(4)] unfolding liveness_paths(2) .

text \<open>Without the directory of the servers a turn does nothing.\<close>

lemma liveness_zk_orphan:
  assumes "map_of (nodes st) ''/dfg/cluster_servers'' = None" "map_of (nodes st) (liveness_znode sid) = None"
  shows "\<not> fst (liveness_zk sid ip port t (zk, st)) \<and> snd (snd (liveness_zk sid ip port t (zk, st))) = st"
proof -
  have "fst (create_node zk' (liveness_znode sid) d e False st) = st" for zk' d e
    using orphan_create [of "[''dfg'', ''cluster_servers'']" "''server_'' @ show_int sid" st zk' d e] assms(1)
      liveness_paths(4) [of sid]
    by (simp add: liveness_paths(2) liveness_paths(1) [symmetric])
  moreover have "\<not> node_exists (liveness_znode sid) st"
    using assms(2) by (simp add: node_exists_def)
  ultimately show ?thesis
    by (simp add: liveness_zk_def Let_def case_prod_unfold)
qed

lemma liveness_start_orphan:
  assumes "map_of (nodes st) ''/dfg'' = None" "map_of (nodes st) ''/dfg/cluster_servers'' = None"
  shows "snd (liveness_start hosts sid ip port t st) = st"
proof -
  have "fst (create_node zk' (liveness_znode sid) d e False st) = st" for zk' d e
    using orphan_create [of "[''dfg'', ''cluster_servers'']" "''server_'' @ show_int sid" st zk' d e] assms(2)
      liveness_paths(4) [of sid]
    by (simp add: liveness_paths(2) liveness_paths(1) [symmetric])
  moreover have "fst (create_node zk' ''/dfg/cluster_servers'' d e False st) = st" for zk' d e
    using orphan_create [of "[''dfg'']" "''cluster_servers''" st zk' d e] assms(1) liveness_paths(3)
    by (simp add: liveness_paths(1) dfg_path)
  ultimately show ?thesis
    by (simp add: liveness_start_def Let_def case_prod_unfold)
qed

lemma orphan_below:
  assumes "zk_inv st" "\<not> node_exists ''/dfg'' st"
  shows "map_of (nodes st) ''/dfg'' = None" "map_of (nodes st) ''/dfg/cluster_servers'' = None"
    "map_of (nodes st) (liveness_znode sid) = None"
proof -
  have inv: "tree_inv (nabs (nodes st))"
    using assms(1) by (simp add: zk_inv_def)
  have ok: "comps_ok [''dfg'']"
    by (simp add: comps_ok_def comp_ok_def)
  show d: "map_of (nodes st) ''/dfg'' = None"
    using assms(2) normalize_path_of [OF ok] by (simp add: node_exists_def dfg_path)
  have n: "nabs (nodes st) [''dfg''] = None"
    using d ok by (simp add: nabs_def dfg_path)
  have "nabs (nodes st) ([''dfg''] @ ds) = None" for ds
    using tree_inv_up [OF inv, of "[''dfg'']" ds] n by blast
  from this [of "[''cluster_servers'']"] this [of "[''cluster_servers'', ''server_'' @ show_int sid]"]
  show "map_of (nodes st) ''/dfg/cluster_servers'' = None" "map_of (nodes st) (liveness_znode sid) = None"
    using liveness_paths(3) liveness_paths(4) [of sid] by (simp_all add: nabs_def liveness_paths(1,2))
qed

text \<open>C24. The liveness thread never gets a node of its own: it creates the directory of the cluster servers
  without the node above it, which fails, and ignores the failure.  From every well-formed store without that node,
  such as the one every process starts with, the store is unchanged after the start and every number of turns, so
  that no turn counts ZooKeeper as reached and the head server's ZooKeeper check never speaks for the server.\<close>

theorem liveness_node_never_created:
  assumes "zk_inv st" "\<not> node_exists ''/dfg'' st"
  shows "snd (fst (liveness_loop reg sid ip port ts (liveness_start hosts sid ip port t0 st, n, w))) = st \<and>
    \<not> fst (liveness_zk sid ip port t (zk, st)) \<and> \<not> zk_alive now sid st"
proof -
  note absent = orphan_below [OF assms]
  have "snd (fst (liveness_loop reg sid ip port ts (liveness_start hosts sid ip port t0 st, n, w))) = st"
  proof (induction ts rule: rev_induct)
    case Nil
    then show ?case
      using liveness_start_orphan [OF absent(1,2)] by simp
  next
    case (snoc u ts)
    then show ?case
      using liveness_zk_orphan [OF absent(2) absent(3), of sid ip port u
          "fst (fst (liveness_loop reg sid ip port ts (liveness_start hosts sid ip port t0 st, n, w)))"]
      by (metis fst_liveness_round liveness_loop_snoc prod.collapse)
  qed
  moreover have "\<not> zk_alive now sid st"
    unfolding zk_alive_def Let_def liveness_znode_def [symmetric]
    using absent(3) [of sid] by (simp add: node_exists_def del: not_None_eq)
  ultimately show ?thesis
    using liveness_zk_orphan [OF absent(2) absent(3)] by simp
qed

theorem liveness_node_never_created_witness:
  "snd (fst (liveness_loop (\<lambda>w. (False, w)) 1 ''h'' 80 [5, 10] (liveness_start ''z'' 1 ''h'' 80 0 zk_init, 0, ()))) = zk_init \<and>
   \<not> fst (liveness_zk 1 ''h'' 80 15 (new_client ''z'', zk_init)) \<and> \<not> zk_alive 15 1 zk_init"
  by (rule liveness_node_never_created) (rule nodes_inv_init, code_simp)

section \<open>Registration through the head server\<close>

text \<open>The head server's control interface as the other end of the connection.\<close>

definition head_http :: "api_env \<Rightarrow> api_state http" where
  "head_http env = (\<lambda>host port req s. let (s', resp, _) = handle_request env req s in (Some resp, s'))"

text \<open>The addresses \<^verbatim>\<open>getnameinfo\<close> gives with \<^verbatim>\<open>NI_NUMERICHOST\<close>.\<close>

definition numeric_host :: "string \<Rightarrow> bool" where
  "numeric_host ip \<longleftrightarrow> ip \<noteq> [] \<and> (\<forall>c \<in> set ip. is_digit c \<or> c = CHR ''.'')"

lemma numeric_host_chars: "numeric_host ip \<Longrightarrow> c \<in> set ip \<Longrightarrow> is_digit c \<or> c = CHR ''.''"
  by (auto simp: numeric_host_def)

lemma no_quote: "dquote \<notin> set (show_int i)" "numeric_host ip \<Longrightarrow> dquote \<notin> set ip"
  using show_int_chars [of dquote i] numeric_host_chars [of ip dquote] by (auto simp: is_digit_def dquote_def)

text \<open>What the control interface reads from the body of a registration.\<close>

lemma find_skip:
  "CHR 0x22 \<notin> set a \<Longrightarrow> find_str (CHR 0x22 # p) (a @ b) = map_option ((+) (length a)) (find_str (CHR 0x22 # p) b)"
  by (rule find_str_skip) simp_all

lemma body_fields:
  assumes "numeric_host ip" "in_int sid" "in_int port" "in_int tport" "in_int pport"
  shows "extract_json_int (register_body sid ip port tport pport) ''server_id'' = sid"
    "extract_json_string (register_body sid ip port tport pport) ''host'' = ip"
    "extract_json_int (register_body sid ip port tport pport) ''port'' = port"
    "extract_json_int (register_body sid ip port tport pport) ''transfer_port'' = tport"
    "extract_json_int (register_body sid ip port tport pport) ''public_port'' = pport"
proof -
  let ?a = "''{''" and ?b = "''{'' @ quoted ''server_id'' @ '':'' @ show_int sid @ '',''"
  let ?c = "?b @ quoted ''host'' @ '':'' @ quoted ip @ '',''"
  let ?d = "?c @ quoted ''port'' @ '':'' @ show_int port @ '',''"
  let ?e = "?d @ quoted ''transfer_port'' @ '':'' @ show_int tport @ '',''"
  obtain x xs where ip: "ip = x # xs" and x: "is_digit x \<or> x = CHR ''.''"
    using assms(1) by (cases ip) (auto simp: numeric_host_def)
  have x': "x \<noteq> CHR ''s''" "x \<noteq> CHR ''h''" "x \<noteq> CHR ''p''" "x \<noteq> CHR ''t''" "x \<noteq> CHR 0x22" "CHR 0x22 \<notin> set xs"
    using x no_quote(2) [OF assms(1)] by (auto simp: is_digit_def dquote_def ip)
  note find = register_body_def quoted_def dquote_def ip find_skip no_quote(1) [unfolded dquote_def] starts_with_def x' x'(5) [symmetric]
  show "extract_json_int (register_body sid ip port tport pport) ''server_id'' = sid"
    by (rule json_int_at [where a = ?a and c = "CHR '',''"])
      (simp_all add: find assms is_digit_def)
  show "extract_json_string (register_body sid ip port tport pport) ''host'' = ip"
    by (rule json_string_at [where a = ?b])
      (simp_all add: find)
  show "extract_json_int (register_body sid ip port tport pport) ''port'' = port"
    by (rule json_int_at [where a = ?c and c = "CHR '',''"])
      (simp_all add: find assms is_digit_def)
  show "extract_json_int (register_body sid ip port tport pport) ''transfer_port'' = tport"
    by (rule json_int_at [where a = ?d and c = "CHR '',''"])
      (simp_all add: find assms is_digit_def)
  show "extract_json_int (register_body sid ip port tport pport) ''public_port'' = pport"
    by (rule json_int_at [where a = ?e and c = "CHR ''}''"])
      (simp_all add: find assms is_digit_def)
qed

lemma request_parts_register:
  assumes "cr \<notin> set host"
  shows "request_parts (register_request host body) = (''POST'', cluster_path @ ''/register'', body)"
proof (rule request_parts_at)
  let ?h = "''POST /api/v1/servers/cluster/register HTTP/1.1'' @ [cr, nl] @ ''Host: '' @ host @ [cr, nl] @
     ''Content-Type: application/json'' @ [cr, nl] @ ''Content-Length: '' @ show_nat (length body) @ [cr, nl] @
     ''Connection: close''"
  show "register_request host body = ''POST'' @ '' '' @ (cluster_path @ ''/register'') @ '' '' @ drop 38 (register_request host body)"
    by (simp add: register_request_def cluster_path_def)
  show "register_request host body = ?h @ crlf2 @ body"
    by (simp add: register_request_def crlf2_def)
  show "find_str crlf2 (register_request host body) = Some (length ?h)"
    using assms by (simp add: register_request_def crlf2_search)
qed (simp_all add: word_ok_def is_space_def cluster_path_def)

lemma contains_status: "contains ''200'' (take 1023 (make_response 200 body))"
proof -
  have "show_int 200 = ''200''"
    by code_simp
  then have "\<exists>t. take 1023 (make_response 200 body) = ''HTTP/1.1 '' @ ''200'' @ t"
    by (simp add: make_response_def)
  then show ?thesis
    by (auto simp only: contains_middle)
qed

text \<open>The state the registration leaves.\<close>

definition registered_entry :: "api_env \<Rightarrow> int \<Rightarrow> string \<Rightarrow> int \<Rightarrow> int \<Rightarrow> int \<Rightarrow> server_entry" where
  "registered_entry env i ip port tport pport = \<lparr>se_id = i, se_host = ip, se_port = port, se_transfer_port = tport,
     se_public_port = pport, se_status = ''active'', se_registered_at = ae_now env\<rparr>"

definition registered_id :: "int \<Rightarrow> api_state \<Rightarrow> int" where
  "registered_id sid s = max (sid + 1) (int (length (servers (fst s))) + 1)"

definition registration_ok :: "string \<Rightarrow> string \<Rightarrow> int \<Rightarrow> int \<Rightarrow> int \<Rightarrow> int \<Rightarrow> api_state \<Rightarrow> bool" where
  "registration_ok head_host ip sid port tport pport s \<longleftrightarrow> numeric_host ip \<and> cr \<notin> set head_host \<and> 0 < sid \<and> sid < int_max \<and>
     0 < port \<and> in_int port \<and> in_int tport \<and> in_int pport \<and>
     int (length (servers (fst s))) < int_max"

definition registered_state :: "api_env \<Rightarrow> int \<Rightarrow> string \<Rightarrow> int \<Rightarrow> int \<Rightarrow> int \<Rightarrow> api_state \<Rightarrow> api_state" where
  "registered_state env i ip port tport pport s =
     ((fst s)\<lparr>servers := omap_upd i (registered_entry env i ip port tport pport) (servers (fst s)), next_id := wrap_int (i + 1)\<rparr>,
      register_server (ae_now env) i (ip @ '':'' @ show_int port) (snd s))"

lemma registered_id_ne: "registered_id sid s \<noteq> sid"
  by (simp add: registered_id_def max_def)

lemma register_handled:
  assumes "registration_ok head_host ip sid port tport pport s"
  shows "handle_self_register env (register_body sid ip port tport pport) s =
    (let (reg, i, _) = add_server (ae_now env) ip port tport pport ((fst s)\<lparr>next_id := registered_id sid s\<rparr>)
     in ((reg, register_server (ae_now env) i (ip @ '':'' @ show_int port) (snd s)),
         make_response 200 (''{'' @ member ''id'' (show_int i) @ '','' @ member ''registered'' ''true'' @ ''}'')))"
proof -
  note ok = assms [unfolded registration_ok_def]
  have w: "wrap_int (sid + 1) = sid + 1" "count_servers (fst s) = int (length (servers (fst s)))"
    "wrap_int (int (length (servers (fst s))) + 1) = int (length (servers (fst s))) + 1" "in_int sid"
    using ok by (simp_all add: count_servers_def in_int_def int_min_def int_max_def)
  have id: "max (wrap_int (sid + 1)) (wrap_int (count_servers (fst s) + 1)) = registered_id sid s"
    unfolding w(1,2,3) registered_id_def ..
  have body: "extract_json_int (register_body sid ip port tport pport) ''server_id'' = sid"
    "extract_json_string (register_body sid ip port tport pport) ''host'' = ip"
    "extract_json_int (register_body sid ip port tport pport) ''port'' = port"
    "extract_json_int (register_body sid ip port tport pport) ''transfer_port'' = tport"
    "extract_json_int (register_body sid ip port tport pport) ''public_port'' = pport"
    using body_fields ok w(4) by auto
  have "ip \<noteq> []" "\<not> port \<le> 0" "sid > 0"
    using ok by (auto simp: numeric_host_def)
  then show ?thesis
    unfolding handle_self_register_def body id Let_def by (simp add: set_next_id_def case_prod_unfold)
qed

lemma self_register_handled:
  assumes "registration_ok head_host ip sid port tport pport s"
  shows "self_register_with_head (head_http env) head_host hport sid ip port tport pport s =
    (True, fst (handle_self_register env (register_body sid ip port tport pport) s))"
proof -
  have path: "cluster_path @ ''/register'' \<noteq> cluster_path" "\<not> contains ''/restart'' (cluster_path @ ''/register'')"
    "cluster_path @ ''/register'' \<noteq> ''/api/v1/system/restart_all''" "cluster_path @ ''/register'' \<noteq> ''/api/v1/system/restart_head''"
    by (simp_all add: cluster_path_def contains_def starts_with_def)
  have "cr \<notin> set head_host"
    using assms by (simp add: registration_ok_def)
  note parts = request_parts_register [OF this]
  have "handle_request env (register_request head_host (register_body sid ip port tport pport)) s =
    (let (s', r) = handle_self_register env (register_body sid ip port tport pport) s in (s', r, []))"
    unfolding handle_request_def parts Let_def prod.case using path by simp
  then show ?thesis
    unfolding self_register_with_head_def head_http_def register_handled [OF assms] by (simp add: contains_status case_prod_unfold Let_def)
qed

lemma self_register_state:
  assumes "registration_ok head_host ip sid port tport pport s" "\<not> has_address ip port (fst s)"
  shows "self_register_with_head (head_http env) head_host hport sid ip port tport pport s =
    (True, registered_state env (registered_id sid s) ip port tport pport s)"
proof -
  have "\<not> has_address ip port ((fst s)\<lparr>next_id := i\<rparr>)" for i
    using assms(2) by (simp add: has_address_def)
  then show ?thesis
    unfolding self_register_handled [OF assms(1)] register_handled [OF assms(1)]
    by (simp add: add_server_new registered_entry_def registered_state_def Let_def)
qed

lemma self_register_known:
  assumes "registration_ok head_host ip sid port tport pport s" "has_address ip port (fst s)"
  obtains i e where "(i, e) \<in> set (servers (fst s))" "se_host e = ip" "se_port e = port"
    "self_register_with_head (head_http env) head_host hport sid ip port tport pport s =
      (True, (fst s)\<lparr>next_id := registered_id sid s\<rparr>, register_server (ae_now env) i (ip @ '':'' @ show_int port) (snd s))"
proof -
  have "has_address ip port ((fst s)\<lparr>next_id := registered_id sid s\<rparr>)"
    using assms(2) by (simp add: has_address_def)
  then obtain i e where "add_server (ae_now env) ip port tport pport ((fst s)\<lparr>next_id := registered_id sid s\<rparr>) =
      ((fst s)\<lparr>next_id := registered_id sid s\<rparr>, i, [])" "(i, e) \<in> set (servers (fst s))" "se_host e = ip" "se_port e = port"
    by (rule add_server_dup [of _ _ _ "ae_now env" tport pport]) simp
  then show ?thesis
    using that unfolding self_register_handled [OF assms(1)] register_handled [OF assms(1)] by simp
qed

text \<open>C17. A cluster server registers itself through the control interface of the head server: the request is understood
  and the call reports success.  If its address is not registered yet, the registry holds the address and the ports as
  they were sent, next to what it held before but for an entry under the same identifier; the identifier is the larger
  of the server's own plus one and the number of servers plus one, so it is never the one the server knows itself by.
  If its address is registered, as for a server listed in the configuration, the entries stay as they are, with the
  ports they had: those that were sent are lost, and only the counter of the identifiers is moved.  Either way the
  health monitor has an entry for the identifier the address is registered under.\<close>

theorem self_registration:
  assumes "registration_ok head_host ip sid port tport pport s"
  shows "let (ok, s') = self_register_with_head (head_http env) head_host hport sid ip port tport pport s;
             i = max (sid + 1) (int (length (servers (fst s))) + 1)
         in ok \<and> i \<noteq> sid \<and>
            (if has_address ip port (fst s)
             then servers (fst s') = servers (fst s) \<and> next_id (fst s') = i \<and>
               (\<exists>(j, e) \<in> set (servers (fst s)). se_host e = ip \<and> se_port e = port \<and> map_of (tracked (snd s')) j \<noteq> None)
             else map_of (servers (fst s')) = (map_of (servers (fst s)))(i \<mapsto>
                 \<lparr>se_id = i, se_host = ip, se_port = port, se_transfer_port = tport, se_public_port = pport,
                  se_status = ''active'', se_registered_at = ae_now env\<rparr>) \<and>
               map_of (tracked (snd s')) i \<noteq> None)"
proof (cases "has_address ip port (fst s)")
  case False
  then show ?thesis
    using registered_id_ne [of sid s]
    by (simp add: self_register_state [OF assms] registered_state_def registered_id_def registered_entry_def register_server_def Let_def)
next
  case True
  obtain j e where j: "(j, e) \<in> set (servers (fst s))" "se_host e = ip" "se_port e = port"
    "self_register_with_head (head_http env) head_host hport sid ip port tport pport s =
      (True, (fst s)\<lparr>next_id := registered_id sid s\<rparr>, register_server (ae_now env) j (ip @ '':'' @ show_int port) (snd s))"
    by (rule self_register_known [OF assms True])
  have "map_of (tracked (register_server (ae_now env) j (ip @ '':'' @ show_int port) (snd s))) j \<noteq> None"
    by (simp add: register_server_def Let_def)
  then show ?thesis
    using True j(1-3) registered_id_ne [of sid s] unfolding j(4) by (auto simp: registered_id_def Let_def)
qed

theorem self_registration_witness:
  "(let s = (new_registry, new_monitor 60 10);
        r = self_register_with_head (head_http sample_api) ''h'' 9670 1 ''10.0.0.7'' 80 81 82 s
    in fst r \<and> map_option se_host (map_of (servers (fst (snd r))) 2) = Some ''10.0.0.7'')"
proof -
  have "registration_ok ''h'' ''10.0.0.7'' 1 80 81 82 (new_registry, new_monitor 60 10)"
    by (simp add: registration_ok_def numeric_host_def is_digit_def cr_def new_registry_def
        in_int_def int_min_def int_max_def)
  from self_registration [OF this, of sample_api 9670] show ?thesis
    by (simp add: Let_def case_prod_unfold new_registry_def has_address_def)
qed

text \<open>The heartbeats of the server go to another entry of the monitor, so the checks count as if there were none.\<close>

fun own_cmd :: "int \<Rightarrow> monitor_cmd \<Rightarrow> bool" where
  "own_cmd sid (Heartbeat _ k _) = (k = sid)"
| "own_cmd sid (Check _) = True"
| "own_cmd sid _ = False"

fun check_times :: "monitor_cmd list \<Rightarrow> int list" where
  "check_times [] = []"
| "check_times (Check t # cs) = t # check_times cs"
| "check_times (_ # cs) = check_times cs"

lemma own_cmds_counted:
  assumes "counted i hb k m" "hb \<noteq> 0" "i \<noteq> sid" "list_all (own_cmd sid) cs"
  shows "counted i hb (k + stale_count (heartbeat_timeout m) hb (check_times cs)) (fst (monitor_run cs m))"
  using assms(1,4)
proof (induction cs arbitrary: m k)
  case Nil
  then show ?case
    by (simp add: stale_count_def)
next
  case (Cons c cs)
  have cfg: "heartbeat_timeout (fst (monitor_exec c m)) = heartbeat_timeout m"
    by simp
  have run: "fst (monitor_run (c # cs) m) = fst (monitor_run cs (fst (monitor_exec c m)))"
    by (simp add: split_beta)
  show ?case
  proof (cases c)
    case (Heartbeat t j h)
    then have "counted i hb k (fst (monitor_exec c m))"
      using Cons.prems assms(3) by (simp add: counted_def record_heartbeat_def Let_def)
    from Cons.IH [OF this] show ?thesis
      using Cons.prems(2) unfolding run cfg by (simp add: Heartbeat)
  next
    case (Check t)
    have "counted i hb (k + stale_count (heartbeat_timeout m) hb [t]) (fst (monitor_exec c m))"
      using check_counted [OF Cons.prems(1) assms(2) refl, of t] by (simp add: Check)
    from Cons.IH [OF this] show ?thesis
      using Cons.prems(2) unfolding run cfg by (simp add: Check stale_count_def split: if_splits)
  qed (use Cons.prems(2) in simp_all)
qed

text \<open>C16. A server that registers itself while its address is not registered yet, as one that is not listed in the
  configuration does, is reported dead however often it sends heartbeats: its registration makes an entry
  in the health monitor under the new identifier, and its heartbeats, which carry its own, never reach that entry.
  Whatever heartbeats of the server arrive between the checks, the entry turns unhealthy as soon as
  \<^verbatim>\<open>max_missed_heartbeats_\<close> checks came more than the timeout after the registration.\<close>

theorem registered_server_reported_dead:
  assumes "registration_ok head_host ip sid port tport pport s" "\<not> has_address ip port (fst s)"
    and "omap_wf (tracked (snd s))" "unhealthy_cb (snd s)" "ae_now env \<noteq> 0"
    and "i = max (sid + 1) (int (length (servers (fst s))) + 1)" "map_of (tracked (snd s)) i = None"
    and "s' = snd (self_register_with_head (head_http env) head_host hport sid ip port tport pport s)"
    and "list_all (own_cmd sid) cs" "n = stale_count (heartbeat_timeout (snd s)) (ae_now env) (check_times cs)"
  shows "\<exists>h. map_of (tracked (fst (monitor_run cs (snd s')))) i = Some h \<and>
    (\<not> sh_healthy h \<longleftrightarrow> 1 \<le> n \<and> max_missed (snd s) \<le> int n)"
proof -
  have i: "registered_id sid s = i"
    using assms(6) by (simp add: registered_id_def)
  have s': "snd s' = register_server (ae_now env) i (ip @ '':'' @ show_int port) (snd s)"
    unfolding assms(8) by (simp add: self_register_state [OF assms(1,2)] registered_state_def i)
  have cfg: "heartbeat_timeout (snd s') = heartbeat_timeout (snd s)" "max_missed (snd s') = max_missed (snd s)"
    by (simp_all add: s' register_server_def)
  have "counted i (ae_now env) 0 (snd s')"
    using assms(3,4,7) by (simp add: s' counted_def register_server_def tolerated_def default_health_def)
  from own_cmds_counted [OF this assms(5) registered_id_ne [of sid s, unfolded i] assms(9)]
  have "counted i (ae_now env) n (fst (monitor_run cs (snd s')))"
    by (simp add: cfg assms(10))
  then show ?thesis
    by (auto simp: counted_def tolerated_def monitor_run_config cfg)
qed

theorem registered_server_reported_dead_witness:
  "\<exists>h. map_of (tracked (fst (monitor_run [Heartbeat (10 ^ 11) 1 default_health, Check (10 ^ 11 + 1)]
     (snd (snd (self_register_with_head (head_http (sample_api\<lparr>ae_now := 1\<rparr>)) ''h'' 9670 1 ''10.0.0.7'' 80 81 82
        (new_registry, set_unhealthy_callback True (new_monitor 60 1)))))))) 2 = Some h \<and> \<not> sh_healthy h"
proof -
  have "registration_ok ''h'' ''10.0.0.7'' 1 80 81 82 (new_registry, set_unhealthy_callback True (new_monitor 60 1))"
    by (simp add: registration_ok_def numeric_host_def is_digit_def cr_def new_registry_def
        in_int_def int_min_def int_max_def)
  from registered_server_reported_dead [OF this, of "sample_api\<lparr>ae_now := 1\<rparr>" 2 _ 9670
      "[Heartbeat (10 ^ 11) 1 default_health, Check (10 ^ 11 + 1)]" 1, OF _ _ _ _ _ _ refl]
  show ?thesis
    by (auto simp: has_address_def set_unhealthy_callback_def new_monitor_def new_registry_def stale_count_def to_seconds_def)
qed

end
