(* ===== verification/Dfg_Cli.thy ===== *)
theory Dfg_Cli
  imports Cluster_Server
begin

text \<open>
  The entry point \<^verbatim>\<open>dfg\<close> of the servers, \<^verbatim>\<open>src/cli/dfg_cli.cpp\<close>: the dispatch to a service and the three
  commands that talk to the control interface of a running head server.  A command is its exit status and what it
  prints of the reply; the connection is a parameter as in \<^verbatim>\<open>Cluster_Server\<close>, where \<open>None\<close> means that there is no
  connection and an empty reply that nothing was received.
\<close>

section \<open>The commands\<close>

definition control_target :: "getenv \<Rightarrow> config \<Rightarrow> string \<times> int" where
  "control_target getenv cfg =
     (get_string getenv cfg ''head_server.host'' ''127.0.0.1'', get_int getenv cfg ''head_server.control_port'' 9670)"

text \<open>The buffer is a C string of at most \<open>n\<close> characters; its part after the headers is printed.\<close>

definition response_body :: "nat \<Rightarrow> string \<Rightarrow> string list" where
  "response_body n reply =
     (let response = takeWhile (\<lambda>c. c \<noteq> CHR 0x00) (take n reply) in
      case find_str crlf2 response of None \<Rightarrow> [] | Some p \<Rightarrow> [drop (p + 4) response])"

definition control_command ::
  "'w http \<Rightarrow> getenv \<Rightarrow> config \<Rightarrow> nat \<Rightarrow> (string \<Rightarrow> string) \<Rightarrow> 'w \<Rightarrow> int \<times> string list \<times> 'w" where
  "control_command http getenv cfg n request w =
     (let (head_host, control_port) = control_target getenv cfg;
          (reply, w1) = http head_host control_port (request head_host) w in
      case reply of None \<Rightarrow> (1, [], w1) | Some r \<Rightarrow> (0, response_body n r, w1))"

definition add_server_body :: "string \<Rightarrow> int \<Rightarrow> string" where
  "add_server_body host port =
     ''{'' @ quoted ''host'' @ '':'' @ quoted host @ '','' @ quoted ''port'' @ '':'' @ show_int port @ ''}''"

definition add_server_request :: "string \<Rightarrow> int \<Rightarrow> string \<Rightarrow> string" where
  "add_server_request host port head_host =
     (let body = add_server_body host port in
      ''POST /api/v1/servers/cluster HTTP/1.1'' @ [cr, nl] @
      ''Host: '' @ head_host @ [cr, nl] @
      ''Content-Type: application/json'' @ [cr, nl] @
      ''Content-Length: '' @ show_nat (length body) @ [cr, nl] @
      ''Connection: close'' @ [cr, nl, cr, nl] @ body)"

definition remove_server_request :: "int \<Rightarrow> string \<Rightarrow> string" where
  "remove_server_request i head_host =
     ''DELETE /api/v1/servers/cluster/'' @ show_int i @ '' HTTP/1.1'' @ [cr, nl] @
     ''Host: '' @ head_host @ [cr, nl] @ ''Connection: close'' @ [cr, nl, cr, nl]"

definition list_servers_request :: "string \<Rightarrow> string" where
  "list_servers_request head_host =
     ''GET /api/v1/servers/cluster HTTP/1.1'' @ [cr, nl] @
     ''Host: '' @ head_host @ [cr, nl] @ ''Connection: close'' @ [cr, nl, cr, nl]"

definition cmd_add_server :: "'w http \<Rightarrow> getenv \<Rightarrow> config \<Rightarrow> string \<Rightarrow> int \<Rightarrow> 'w \<Rightarrow> int \<times> string list \<times> 'w" where
  "cmd_add_server http getenv cfg host port = control_command http getenv cfg 2047 (add_server_request host port)"

definition cmd_remove_server :: "'w http \<Rightarrow> getenv \<Rightarrow> config \<Rightarrow> int \<Rightarrow> 'w \<Rightarrow> int \<times> string list \<times> 'w" where
  "cmd_remove_server http getenv cfg i = control_command http getenv cfg 2047 (remove_server_request i)"

definition cmd_list_servers :: "'w http \<Rightarrow> getenv \<Rightarrow> config \<Rightarrow> 'w \<Rightarrow> int \<times> string list \<times> 'w" where
  "cmd_list_servers http getenv cfg = control_command http getenv cfg 8191 list_servers_request"

section \<open>The dispatch\<close>

datatype service = Head_service | Cluster_service | Health_service | Zk_service

text \<open>The end of the process: an exit status with what a command printed, or a service that runs on with its
  arguments.\<close>

datatype cli_end = Exit int "string list" | Serve service "string list"

record cli_opts =
  co_host :: string
  co_id :: int
  co_port :: int

fun parse_opts :: "string list \<Rightarrow> cli_opts \<Rightarrow> cxx_exn + cli_opts" where
  "parse_opts (opt # val # rest) o' =
     (if opt = ''--host'' then parse_opts rest (o'\<lparr>co_host := val\<rparr>)
      else if opt = ''--id'' then (case stoi val of Inl e \<Rightarrow> Inl e | Inr n \<Rightarrow> parse_opts rest (o'\<lparr>co_id := n\<rparr>))
      else if opt = ''--port'' then (case stoi val of Inl e \<Rightarrow> Inl e | Inr n \<Rightarrow> parse_opts rest (o'\<lparr>co_port := n\<rparr>))
      else parse_opts (val # rest) o')"
| "parse_opts _ o' = Inr o'"

definition service_of :: "string \<Rightarrow> service option" where
  "service_of command =
     (if command = ''head-server'' \<or> command = ''head'' then Some Head_service
      else if command = ''cluster-server'' \<or> command = ''cluster'' then Some Cluster_service
      else if command = ''health-checker'' \<or> command = ''health'' then Some Health_service
      else if command = ''zk-monitor'' \<or> command = ''zk'' then Some Zk_service
      else None)"

definition exit_with :: "int \<times> string list \<times> 'w \<Rightarrow> cli_end \<times> 'w" where
  "exit_with r = (Exit (fst r) (fst (snd r)), snd (snd r))"

text \<open>\<open>Inl\<close> is an exception of the option parser, which is outside the handler and ends the process.\<close>

definition dfg_main :: "'w http \<Rightarrow> getenv \<Rightarrow> config \<Rightarrow> string list \<Rightarrow> 'w \<Rightarrow> cxx_exn + cli_end \<times> 'w" where
  "dfg_main http getenv cfg args w =
     (case args of
        [] \<Rightarrow> Inr (Exit 1 [], w)
      | command # rest \<Rightarrow>
          if command \<in> {''-h'', ''--help'', ''-v'', ''--version''} then Inr (Exit 0 [], w)
          else
            (case parse_opts rest \<lparr>co_host = [], co_id = -1, co_port = 8080\<rparr> of
               Inl e \<Rightarrow> Inl e
             | Inr opts \<Rightarrow> Inr
                 (case service_of command of
                    Some srv \<Rightarrow> (Serve srv rest, w)
                  | None \<Rightarrow>
                      if command = ''add-server'' then
                        (if co_host opts = [] then (Exit 1 [], w)
                         else exit_with (cmd_add_server http getenv cfg (co_host opts) (co_port opts) w))
                      else if command = ''remove-server'' then
                        (if co_id opts < 0 then (Exit 1 [], w)
                         else exit_with (cmd_remove_server http getenv cfg (co_id opts) w))
                      else if command = ''list-servers'' then exit_with (cmd_list_servers http getenv cfg w)
                      else (Exit 1 [], w))))"

section \<open>The requests at the control interface\<close>

lemma request_parts_add:
  assumes "cr \<notin> set head_host"
  shows "request_parts (add_server_request host port head_host) = (''POST'', cluster_path, add_server_body host port)"
proof (rule request_parts_at)
  let ?h = "''POST /api/v1/servers/cluster HTTP/1.1'' @ [cr, nl] @ ''Host: '' @ head_host @ [cr, nl] @
     ''Content-Type: application/json'' @ [cr, nl] @ ''Content-Length: '' @ show_nat (length (add_server_body host port)) @
     [cr, nl] @ ''Connection: close''"
  show "add_server_request host port head_host = ''POST'' @ '' '' @ cluster_path @ '' '' @ drop 29 (add_server_request host port head_host)"
    by (simp add: add_server_request_def cluster_path_def Let_def)
  show "add_server_request host port head_host = ?h @ crlf2 @ add_server_body host port"
    by (simp add: add_server_request_def crlf2_def Let_def)
  show "find_str crlf2 (add_server_request host port head_host) = Some (length ?h)"
    using assms by (simp add: add_server_request_def crlf2_search Let_def)
qed (simp_all add: word_ok_def is_space_def cluster_path_def)

lemma request_parts_remove:
  assumes "cr \<notin> set head_host"
  shows "request_parts (remove_server_request i head_host) = (''DELETE'', cluster_path @ ''/'' @ show_int i, [])"
proof (rule request_parts_at)
  let ?h = "''DELETE /api/v1/servers/cluster/'' @ show_int i @ '' HTTP/1.1'' @ [cr, nl] @
     ''Host: '' @ head_host @ [cr, nl] @ ''Connection: close''"
  show "remove_server_request i head_host =
      ''DELETE'' @ '' '' @ (cluster_path @ ''/'' @ show_int i) @ '' '' @ ''HTTP/1.1'' @ [cr, nl] @ ''Host: '' @ head_host @ [cr, nl] @
      ''Connection: close'' @ [cr, nl, cr, nl]"
    by (simp add: remove_server_request_def cluster_path_def)
  show "remove_server_request i head_host = ?h @ crlf2 @ []"
    by (simp add: remove_server_request_def crlf2_def)
  show "find_str crlf2 (remove_server_request i head_host) = Some (length ?h)"
    using assms by (simp add: remove_server_request_def crlf2_search)
  show "word_ok (cluster_path @ ''/'' @ show_int i)"
    using word_ok_show_int [of i] by (simp add: word_ok_def is_space_def cluster_path_def)
qed (simp_all add: word_ok_def is_space_def)

lemma add_body_fields:
  assumes "numeric_host host" "in_int port"
  shows "extract_json_string (add_server_body host port) ''host'' = host"
    "extract_json_int (add_server_body host port) ''port'' = port"
    "extract_json_int (add_server_body host port) ''transfer_port'' = 0"
    "extract_json_int (add_server_body host port) ''public_port'' = 0"
proof -
  obtain x xs where ip: "host = x # xs" and x: "is_digit x \<or> x = CHR ''.''"
    using assms(1) by (cases host) (auto simp: numeric_host_def)
  have x': "x \<noteq> CHR ''s''" "x \<noteq> CHR ''h''" "x \<noteq> CHR ''p''" "x \<noteq> CHR ''t''" "x \<noteq> CHR 0x22" "CHR 0x22 \<notin> set xs"
    using x no_quote(2) [OF assms(1)] by (auto simp: is_digit_def dquote_def ip)
  note find = add_server_body_def quoted_def dquote_def ip find_skip no_quote(1) [unfolded dquote_def] starts_with_def x' x'(5) [symmetric]
  show "extract_json_string (add_server_body host port) ''host'' = host"
    by (rule json_string_at [where a = "''{''"]) (simp_all add: find)
  show "extract_json_int (add_server_body host port) ''port'' = port"
    by (rule json_int_at [where a = "''{'' @ quoted ''host'' @ '':'' @ quoted host @ '',''" and c = "CHR ''}''"])
      (simp_all add: find assms is_digit_def)
  show "extract_json_int (add_server_body host port) ''transfer_port'' = 0"
    "extract_json_int (add_server_body host port) ''public_port'' = 0"
    unfolding extract_json_int_def by (simp_all add: find)
qed

section \<open>Adding and removing a server\<close>

lemma handle_add_request:
  assumes "numeric_host host" "in_int port" "0 < port" "cr \<notin> set head_host"
    and "add_server (ae_now env) host port 0 0 (fst s) = (reg, i, ev)"
  shows "\<exists>r. handle_request env (add_server_request host port head_host) s =
    ((reg, register_server (ae_now env) i (host @ '':'' @ show_int port) (snd s)), r, [])"
proof -
  have "host \<noteq> []" "\<not> port \<le> 0"
    using assms(1,3) by (auto simp: numeric_host_def)
  then have "\<exists>r. handle_add_server env (add_server_body host port) s =
      ((reg, register_server (ae_now env) i (host @ '':'' @ show_int port) (snd s)), r)"
    unfolding handle_add_server_def add_body_fields [OF assms(1,2)] Let_def assms(5) prod.case by simp
  moreover have "\<not> starts_with (cluster_path @ ''/'') cluster_path"
    by (simp add: starts_with_def cluster_path_def)
  ultimately show ?thesis
    unfolding handle_request_def request_parts_add [OF assms(4)] Let_def prod.case by auto
qed

lemma handle_remove_request:
  assumes "cr \<notin> set head_host"
  shows "handle_request env (remove_server_request i head_host) s =
    (s, make_response 400 (error_body ''Invalid server ID''), [])"
  by (rule path_id_rejected [OF request_parts_remove [OF assms]]) (simp_all add: starts_with_def)

lemma printed_rejection:
  "response_body 2047 (make_response 400 (error_body ''Invalid server ID'')) = [error_body ''Invalid server ID'']"
  by code_simp

lemma add_server_has_address: "has_address host port (fst (add_server now host port tp pp r))"
proof (cases "has_address host port r")
  case True
  then show ?thesis
    by (metis add_server_dup fst_conv)
next
  case False
  then show ?thesis
    using set_omap_upd [of "next_id r"]
    by (auto simp: add_server_new [OF False] Let_def has_address_def intro!: bexI [OF _ map_of_SomeD])
qed

text \<open>C19. \<^verbatim>\<open>dfg add-server\<close> against a running head server registers the address and exits with status 0.
  \<^verbatim>\<open>dfg remove-server\<close> removes nothing: whatever the identifier (a number of type \<^verbatim>\<open>int\<close> that is not negative), the head server rejects the request, its state stays as it
  was, with the address still registered, and the command prints the rejection and exits with status 0 as well.\<close>

theorem cli_add_remove:
  assumes "numeric_host host" "in_int port" "0 < port" "cr \<notin> set (fst (control_target getenv cfg))" "0 \<le> k" "in_int k"
    and "s' = (fst (add_server (ae_now env) host port 0 0 (fst s)),
           register_server (ae_now env) (fst (snd (add_server (ae_now env) host port 0 0 (fst s)))) (host @ '':'' @ show_int port) (snd s))"
  shows "(\<exists>out. dfg_main (head_http env) getenv cfg [''add-server'', ''--host'', host, ''--port'', show_int port] s = Inr (Exit 0 out, s')) \<and>
    has_address host port (fst s') \<and>
    dfg_main (head_http env) getenv cfg [''remove-server'', ''--id'', show_int k] s' = Inr (Exit 0 [error_body ''Invalid server ID''], s')"
proof (intro conjI)
  obtain reg i ev where a: "add_server (ae_now env) host port 0 0 (fst s) = (reg, i, ev)"
    by (metis prod.exhaust)
  have ne: "host \<noteq> []"
    using assms(1) by (auto simp: numeric_host_def)
  obtain r where "handle_request env (add_server_request host port (fst (control_target getenv cfg))) s = (s', r, [])"
    using handle_add_request [OF assms(1-4) a] by (auto simp: assms(7) a)
  then show "\<exists>out. dfg_main (head_http env) getenv cfg [''add-server'', ''--host'', host, ''--port'', show_int port] s = Inr (Exit 0 out, s')"
    using ne by (simp add: dfg_main_def stoi_show_int [OF assms(2)] service_of_def cmd_add_server_def control_command_def
        head_http_def exit_with_def case_prod_unfold Let_def)
  show "has_address host port (fst s')"
    using add_server_has_address by (simp add: assms(7))
  show "dfg_main (head_http env) getenv cfg [''remove-server'', ''--id'', show_int k] s' = Inr (Exit 0 [error_body ''Invalid server ID''], s')"
    using assms(5) handle_remove_request [OF assms(4), of env k s'] printed_rejection
    by (simp add: dfg_main_def stoi_show_int [OF assms(6)] service_of_def cmd_remove_server_def control_command_def
        head_http_def exit_with_def case_prod_unfold Let_def)
qed

lemma default_target: "fst (control_target (\<lambda>_. None) new_config) = ''127.0.0.1''"
  by (simp add: control_target_def get_string_def env_set_def env_alias_def new_config_def)

theorem cli_add_remove_witness:
  "\<exists>out s'. dfg_main (head_http sample_api) (\<lambda>_. None) new_config [''add-server'', ''--host'', ''10.0.0.7'', ''--port'', show_int 80]
      (new_registry, new_monitor 60 10) = Inr (Exit 0 out, s') \<and> has_address ''10.0.0.7'' 80 (fst s') \<and>
    dfg_main (head_http sample_api) (\<lambda>_. None) new_config [''remove-server'', ''--id'', show_int 1] s' =
      Inr (Exit 0 [error_body ''Invalid server ID''], s')"
proof -
  have ok: "numeric_host ''10.0.0.7''" "in_int 80" "cr \<notin> set (fst (control_target (\<lambda>_. None) new_config))" "in_int 1"
    by (simp_all add: numeric_host_def is_digit_def in_int_def int_min_def int_max_def default_target cr_def)
  show ?thesis
    using cli_add_remove [OF ok(1,2) zero_less_numeral ok(3) zero_le_one ok(4) refl, of sample_api "(new_registry, new_monitor 60 10)"]
    by blast
qed

end
