(* ===== verification/Redis_Store.thy ===== *)
theory Redis_Store
  imports Metadata_Store
begin

text \<open>
  The file metadata of the head server, Redis backend (\<^verbatim>\<open>src/head_server/redis_handler.hpp\<close> with
  \<^verbatim>\<open>WITH_REDIS\<close>).  The Redis server behind its client library is a parameter: the record \<open>redis\<close> holds the commands
  the code sends over a state \<open>'db\<close> of the server, each with whether it returned or threw.  The predicate \<open>redis_ok\<close>
  states what the commands are documented to do, in terms of the hash every key holds; \<open>hash_redis\<close> is a
  server that satisfies it.  A file is one hash, with a field per chunk and server.
\<close>

section \<open>The server\<close>

datatype redis_cmd = Hset string string string | Hdel string string

record 'db redis =
  rd_hset :: "string \<Rightarrow> (string \<times> string) list \<Rightarrow> 'db \<Rightarrow> bool \<times> 'db"
  rd_hgetall :: "string \<Rightarrow> 'db \<Rightarrow> (string \<times> string) list option"
  rd_hdel :: "string \<Rightarrow> string \<Rightarrow> 'db \<Rightarrow> nat option \<times> 'db"
  rd_del :: "string \<Rightarrow> 'db \<Rightarrow> nat option \<times> 'db"
  rd_expire :: "string \<Rightarrow> int \<Rightarrow> 'db \<Rightarrow> bool \<times> 'db"
  rd_scan :: "int \<Rightarrow> string \<Rightarrow> nat \<Rightarrow> 'db \<Rightarrow> (int \<times> string list) option"
  rd_exec :: "redis_cmd list \<Rightarrow> 'db \<Rightarrow> bool \<times> 'db"
  rd_replicaof :: "string \<Rightarrow> int \<Rightarrow> 'db \<Rightarrow> bool \<times> 'db"

type_synonym hashes = "string \<Rightarrow> string \<Rightarrow> string option"

fun apply_cmd :: "redis_cmd \<Rightarrow> hashes \<Rightarrow> hashes" where
  "apply_cmd (Hset k f v) m = m(k := (m k)(f \<mapsto> v))"
| "apply_cmd (Hdel k f) m = m(k := (m k)(f := None))"

definition redis_ok :: "'db redis \<Rightarrow> ('db \<Rightarrow> hashes) \<Rightarrow> bool" where
  "redis_ok R view \<longleftrightarrow>
     (\<forall>k fs db. fs \<noteq> [] \<and> fst (rd_hset R k fs db) \<longrightarrow> view (snd (rd_hset R k fs db)) = (view db)(k := view db k ++ map_of (rev fs))) \<and>
     (\<forall>k l db. rd_hgetall R k db = Some l \<longrightarrow> distinct (map fst l) \<and> map_of l = view db k) \<and>
     (\<forall>k f db. fst (rd_hdel R k f db) \<noteq> None \<longrightarrow> view (snd (rd_hdel R k f db)) = (view db)(k := (view db k)(f := None))) \<and>
     (\<forall>k db. fst (rd_del R k db) \<noteq> None \<longrightarrow> view (snd (rd_del R k db)) = (view db)(k := Map.empty)) \<and>
     (\<forall>k t db. 0 < t \<and> fst (rd_expire R k t db) \<longrightarrow> view (snd (rd_expire R k t db)) = view db) \<and>
     (\<forall>cmds db. fst (rd_exec R cmds db) \<longrightarrow> view (snd (rd_exec R cmds db)) = fold apply_cmd cmds (view db))"

text \<open>A server that answers every command that is well formed: a set of at least one field, a positive time to live.\<close>

definition redis_up :: "'db redis \<Rightarrow> bool" where
  "redis_up R \<longleftrightarrow> (\<forall>k fs db. fs \<noteq> [] \<longrightarrow> fst (rd_hset R k fs db)) \<and> (\<forall>k db. rd_hgetall R k db \<noteq> None) \<and>
     (\<forall>k f db. fst (rd_hdel R k f db) \<noteq> None) \<and> (\<forall>k db. fst (rd_del R k db) \<noteq> None) \<and>
     (\<forall>k t db. 0 < t \<longrightarrow> fst (rd_expire R k t db)) \<and> (\<forall>cmds db. fst (rd_exec R cmds db))"

section \<open>The operations\<close>

definition get_redis_connection_string :: "(string \<Rightarrow> string option) \<Rightarrow> string" where
  "get_redis_connection_string getenv =
     ''tcp://'' @ (case getenv ''REDIS_HOST'' of None \<Rightarrow> ''127.0.0.1'' | Some h \<Rightarrow> h) @ '':'' @
     (case getenv ''REDIS_PORT'' of None \<Rightarrow> ''6379'' | Some p \<Rightarrow> p)"

definition file_key :: "string \<Rightarrow> string" where
  "file_key i = ''file:'' @ i"

text \<open>The scan goes on until the server returns the cursor 0, so it may not end (\<open>None\<close>); \<open>Some None\<close> is an
  exception.\<close>

definition file_names :: "string list \<Rightarrow> string list" where
  "file_names batch = map (drop 5) (filter (starts_with ''file:'') batch)"

partial_function (option) scan_files :: "'db redis \<Rightarrow> int \<Rightarrow> 'db \<Rightarrow> string list \<Rightarrow> string list option option" where
  "scan_files R cursor db files' =
     (case rd_scan R cursor ''file:*'' 100 db of
        None \<Rightarrow> Some None
      | Some (next, batch) \<Rightarrow>
          (let files1 = files' @ file_names batch in
           if next = 0 then Some (Some files1) else scan_files R next db files1))"

definition redis_list_all_files :: "'db redis \<Rightarrow> 'db \<Rightarrow> string list option" where
  "redis_list_all_files R db =
     map_option (\<lambda>r. case r of None \<Rightarrow> [] | Some files' \<Rightarrow> remdups_adj (sort files')) (scan_files R 0 db [])"

text \<open>The header lines in any order, and the lines from the first other line on; a malformed \<^verbatim>\<open>TTL\<close> throws.\<close>

record entry_header =
  eh_ttl :: int
  eh_hash :: string
  eh_replicas :: int

fun entry_headers :: "string list \<Rightarrow> entry_header \<Rightarrow> cxx_exn + entry_header \<times> string list" where
  "entry_headers [] h = Inr (h, [])"
| "entry_headers (l # ls) h =
     (if starts_with ''TTL='' l then (case stoll (drop 4 l) of Inl e \<Rightarrow> Inl e | Inr t \<Rightarrow> entry_headers ls (h\<lparr>eh_ttl := t\<rparr>))
      else if starts_with ''HASH='' l then entry_headers ls (h\<lparr>eh_hash := drop 5 l\<rparr>)
      else if starts_with ''REPLICAS='' l
      then entry_headers ls (case stoi (drop 9 l) of Inl _ \<Rightarrow> h | Inr n \<Rightarrow> h\<lparr>eh_replicas := n\<rparr>)
      else Inr (h, l # ls))"

definition chunk_field :: "int \<Rightarrow> string \<Rightarrow> string" where
  "chunk_field cid server = ''chunk:'' @ show_int cid @ '':'' @ server"

definition replicas_field :: "int \<Rightarrow> string" where
  "replicas_field cid = ''chunk_replicas:'' @ show_int cid"

definition chunk_value :: "string \<Rightarrow> chunk_record \<Rightarrow> string" where
  "chunk_value server c = encode_loc server (cr_path c) @ ''|'' @ cr_checksum c @ ''|'' @ show_int (cr_replicas c)"

definition chunk_fields :: "chunk_record \<Rightarrow> (string \<times> string) list" where
  "chunk_fields c = [(chunk_field (cr_id c) (cr_server c), chunk_value (cr_server c) c),
     (replicas_field (cr_id c), show_int (cr_replicas c))]"

text \<open>The next command, unless the last one threw.\<close>

definition and_then :: "bool \<times> 'db \<Rightarrow> ('db \<Rightarrow> bool \<times> 'db) \<Rightarrow> bool \<times> 'db" where
  "and_then r g = (if fst r then g (snd r) else r)"

definition redis_create_entry :: "'db redis \<Rightarrow> string \<Rightarrow> 'db \<Rightarrow> 'db" where
  "redis_create_entry R request db =
     (let ls = getlines request; key = file_key (case ls of [] \<Rightarrow> [] | l # _ \<Rightarrow> l) in
      case entry_headers (tl ls) \<lparr>eh_ttl = 0, eh_hash = [], eh_replicas = 0\<rparr> of
        Inl _ \<Rightarrow> db
      | Inr (h, rest) \<Rightarrow>
          (let parsed = List.map_filter parse_entry_line (filter (\<lambda>l. l \<noteq> []) rest);
               counts = cid_counts parsed;
               cs = map (\<lambda>c. if cr_replicas c \<le> 0 then c\<lparr>cr_replicas := count_at counts (cr_id c)\<rparr> else c) parsed;
               fields = concat (map chunk_fields cs);
               n = (if eh_replicas h \<le> 0 \<and> counts \<noteq> [] then snd (hd counts) else eh_replicas h);
               r1 = (if fields \<noteq> [] then rd_hset R key fields db else (True, db));
               r2 = and_then r1 (\<lambda>d. if eh_hash h \<noteq> [] then rd_hset R key [(''file_hash'', eh_hash h)] d else (True, d));
               r3 = and_then r2 (\<lambda>d. if n > 0 then rd_hset R key [(''replica_count'', show_int n)] d else (True, d));
               r4 = and_then r3 (\<lambda>d. if eh_ttl h > 0 then rd_expire R key (eh_ttl h) d else (True, d))
           in snd r4))"

definition chunk_counts :: "(string \<times> string) list \<Rightarrow> int \<Rightarrow> int" where
  "chunk_counts l = fold (\<lambda>(k, v) m.
     if starts_with ''chunk_replicas:'' k
     then (case stoll (drop 15 k) of Inl _ \<Rightarrow> m | Inr cid \<Rightarrow> (case stoi v of Inl _ \<Rightarrow> m | Inr n \<Rightarrow> m(cid := n)))
     else m) l (\<lambda>_. 0)"

text \<open>One field of the hash as a chunk; \<open>None\<close> for other fields and malformed identifiers.\<close>

definition chunk_of_field :: "(int \<Rightarrow> int) \<Rightarrow> string \<times> string \<Rightarrow> chunk_record option" where
  "chunk_of_field reps kv =
     (let (k, v) = kv in
      if \<not> starts_with ''chunk:'' k then None
      else
        (let rest = drop 6 k in
         case stoll (case find_char (CHR '':'') rest of None \<Rightarrow> rest | Some p \<Rightarrow> take p rest) of
           Inl _ \<Rightarrow> None
         | Inr cid \<Rightarrow> Some
             (case find_char (CHR ''|'') v of
                None \<Rightarrow> \<lparr>cr_id = cid, cr_server = v, cr_path = [], cr_checksum = [], cr_replicas = 1\<rparr>
              | Some p1 \<Rightarrow>
                  (case find_char_from (CHR ''|'') (p1 + 1) v of
                     None \<Rightarrow> \<lparr>cr_id = cid, cr_server = take p1 v, cr_path = drop (p1 + 1) v, cr_checksum = [], cr_replicas = 1\<rparr>
                   | Some p2 \<Rightarrow>
                       (case find_char_from (CHR ''|'') (p2 + 1) v of
                          None \<Rightarrow> \<lparr>cr_id = cid, cr_server = take p1 v, cr_path = take (p2 - p1 - 1) (drop (p1 + 1) v),
                             cr_checksum = drop (p2 + 1) v, cr_replicas = if reps cid > 0 then reps cid else 1\<rparr>
                        | Some p3 \<Rightarrow> \<lparr>cr_id = cid, cr_server = take p1 v, cr_path = take (p2 - p1 - 1) (drop (p1 + 1) v),
                             cr_checksum = take (p3 - p2 - 1) (drop (p2 + 1) v),
                             cr_replicas = (case stoi (drop (p3 + 1) v) of Inl _ \<Rightarrow> 1 | Inr n \<Rightarrow> n)\<rparr>)))))"

definition record_of_hash :: "(string \<times> string) list \<Rightarrow> file_record" where
  "record_of_hash l =
     (let hash = (case map_of l ''file_hash'' of None \<Rightarrow> [] | Some h \<Rightarrow> h);
          n = (case map_of l ''replica_count'' of None \<Rightarrow> 0 | Some s \<Rightarrow> (case stoi s of Inl _ \<Rightarrow> 0 | Inr n \<Rightarrow> n));
          cs = List.map_filter (chunk_of_field (chunk_counts l)) l;
          counts = cid_counts cs
      in \<lparr>fr_hash = hash, fr_replicas = if n \<le> 0 \<and> counts \<noteq> [] then snd (hd counts) else n,
          fr_chunks = map (\<lambda>c. if cr_replicas c \<le> 0 then c\<lparr>cr_replicas := count_at counts (cr_id c)\<rparr> else c) cs\<rparr>)"

definition redis_query_metadata :: "'db redis \<Rightarrow> string \<Rightarrow> 'db \<Rightarrow> file_record" where
  "redis_query_metadata R f db =
     (if f = [] then empty_record
      else (case rd_hgetall R (file_key f) db of
              None \<Rightarrow> empty_record
            | Some l \<Rightarrow> if l = [] then empty_record else record_of_hash l))"

definition redis_read_entry :: "'db redis \<Rightarrow> string \<Rightarrow> 'db \<Rightarrow> string list" where
  "redis_read_entry R request db =
     (case read_word request of
        None \<Rightarrow> [''read_entry: file_name required'']
      | Some (f, s) \<Rightarrow>
          (let r = redis_query_metadata R f db in
           if fr_chunks r = [] then [''No chunks or file not found'']
           else (if fr_hash r \<noteq> [] then [''file_hash='' @ fr_hash r] else []) @
                [''replica_count='' @ show_int (fr_replicas r)] @
                (case read_llong s of
                   Some (cid, _) \<Rightarrow>
                     (case find (\<lambda>c. cr_id c = cid) (fr_chunks r) of
                        Some c \<Rightarrow> [print_chunk False c]
                      | None \<Rightarrow> [''Chunk not found''])
                 | None \<Rightarrow> map (print_chunk False) (fr_chunks r))))"

definition replace_cmds :: "string \<Rightarrow> string \<Rightarrow> string \<Rightarrow> chunk_record \<Rightarrow> redis_cmd list" where
  "replace_cmds dead new key c =
     (let target = (if cr_server c \<noteq> [] then cr_server c else new)
      in [Hdel key (chunk_field (cr_id c) dead), Hset key (chunk_field (cr_id c) target) (chunk_value target c),
          Hset key (replicas_field (cr_id c)) (show_int (cr_replicas c))])"

definition redis_atomic_replace_server_chunks ::
  "'db redis \<Rightarrow> string \<Rightarrow> string \<Rightarrow> (string \<times> chunk_record list) list \<Rightarrow> 'db \<Rightarrow> bool \<times> 'db" where
  "redis_atomic_replace_server_chunks R dead new upd db =
     rd_exec R (concat (map (\<lambda>(f, cs). concat (map (replace_cmds dead new (file_key f)) cs)) upd)) db"

definition redis_delete_server_metadata :: "'db redis \<Rightarrow> string \<Rightarrow> 'db \<Rightarrow> 'db option" where
  "redis_delete_server_metadata R server db =
     map_option (\<lambda>files'. snd (rd_exec R
       (concat (map (\<lambda>f. [Hdel (file_key f) (chunk_field (cr_id c) server).
          c \<leftarrow> fr_chunks (redis_query_metadata R f db), cr_server c = server]) files')) db)) (redis_list_all_files R db)"

definition redis_delete_entry :: "'db redis \<Rightarrow> string \<Rightarrow> 'db \<Rightarrow> nat option \<times> 'db" where
  "redis_delete_entry R f db =
     (case find_str ''#chunk:'' f of
        None \<Rightarrow> rd_del R (file_key f) db
      | Some p \<Rightarrow> rd_hdel R (file_key (take p f)) (drop (p + 1) f) db)"

definition redis_create_replication :: "'db redis \<Rightarrow> string \<Rightarrow> 'db \<Rightarrow> int \<times> 'db" where
  "redis_create_replication R ip db =
     (let pos = find_char (CHR '':'') ip; host = (case pos of None \<Rightarrow> ip | Some p \<Rightarrow> take p ip) in
      case (case pos of None \<Rightarrow> Inr 6379 | Some p \<Rightarrow> stoi (drop (p + 1) ip)) of
        Inl _ \<Rightarrow> (-1, db)
      | Inr port \<Rightarrow> (let (ok, db') = rd_replicaof R host port db in (if ok then 0 else -1, db')))"

section \<open>Chunks in a hash\<close>

definition redis_chunk_ok :: "chunk_record \<Rightarrow> bool" where
  "redis_chunk_ok c \<longleftrightarrow> chunk_ok c \<and> CHR ''|'' \<notin> set (cr_server c) \<and> CHR ''|'' \<notin> set (cr_path c) \<and>
     CHR ''|'' \<notin> set (cr_checksum c) \<and> 0 < cr_replicas c \<and> in_int (cr_replicas c)"

definition chunk_key :: "chunk_record \<Rightarrow> int \<times> string" where
  "chunk_key c = (cr_id c, cr_server c)"

definition chunk_entry :: "chunk_record \<Rightarrow> string \<times> string" where
  "chunk_entry c = (chunk_field (cr_id c) (cr_server c), chunk_value (cr_server c) c)"

text \<open>What the hash of a file says of its chunks.\<close>

definition hash_holds :: "(string \<Rightarrow> string option) \<Rightarrow> chunk_record list \<Rightarrow> bool" where
  "hash_holds m cs \<longleftrightarrow>
     (\<forall>k v. starts_with ''chunk:'' k \<longrightarrow> (m k = Some v \<longleftrightarrow> (k, v) \<in> chunk_entry ` set cs)) \<and>
     distinct (map chunk_key cs) \<and> (\<forall>c \<in> set cs. redis_chunk_ok c)"

lemma colon_not_in_number: "CHR '':'' \<notin> set (show_int i)"
  using show_int_chars [of "CHR '':''" i] by (auto simp: is_digit_def)

lemma chunk_field_inj: "chunk_field i s = chunk_field j t \<longleftrightarrow> i = j \<and> s = t"
proof
  assume "chunk_field i s = chunk_field j t"
  then have e: "show_int i @ CHR '':'' # s = show_int j @ CHR '':'' # t"
    by (simp add: chunk_field_def)
  have "takeWhile (\<lambda>c. c \<noteq> CHR '':'') (show_int k @ CHR '':'' # u) = show_int k" for k u
    using colon_not_in_number [of k] by (intro takeWhile_break) auto
  from arg_cong [OF e, of "takeWhile (\<lambda>c. c \<noteq> CHR '':'')", unfolded this] have "show_int i = show_int j" .
  then show "i = j \<and> s = t"
    using e by simp
qed simp

lemma chunk_field_prefix [simp]: "starts_with ''chunk:'' (chunk_field i s)" "\<not> starts_with ''chunk:'' (replicas_field i)"
  "\<not> starts_with ''chunk:'' ''file_hash''" "\<not> starts_with ''chunk:'' ''replica_count''"
  by (simp_all add: chunk_field_def replicas_field_def starts_with_def)

lemma find_bar: "CHR ''|'' \<notin> set a \<Longrightarrow> find_char_from (CHR ''|'') (length p) (p @ a @ CHR ''|'' # b) = Some (length p + length a)"
  by (simp add: find_char_from_def find_char_append)

lemma chunk_of_field_entry:
  assumes "redis_chunk_ok c"
  shows "chunk_of_field reps (chunk_entry c) = Some c"
proof -
  note ok = assms [unfolded redis_chunk_ok_def chunk_ok_def]
  let ?s = "cr_server c" and ?p = "cr_path c" and ?h = "cr_checksum c"
  define v where "v = chunk_value ?s c"
  have v: "v = ?s @ CHR ''|'' # ?p @ CHR ''|'' # ?h @ CHR ''|'' # show_int (cr_replicas c)"
    by (simp add: v_def chunk_value_def encode_loc_def)
  have k: "starts_with ''chunk:'' (fst (chunk_entry c))" "drop 6 (fst (chunk_entry c)) = show_int (cr_id c) @ CHR '':'' # ?s"
    by (simp_all add: chunk_entry_def) (simp add: chunk_field_def)
  have i: "find_char (CHR '':'') (show_int (cr_id c) @ CHR '':'' # ?s) = Some (length (show_int (cr_id c)))"
    using colon_not_in_number by (simp add: find_char_append)
  have p1: "find_char (CHR ''|'') v = Some (length ?s)"
    using ok by (simp add: v find_char_append)
  have p2: "find_char_from (CHR ''|'') (length ?s + 1) v = Some (length ?s + 1 + length ?p)"
    using find_bar [of ?p "?s @ ''|''"] ok by (simp add: v)
  have p3: "find_char_from (CHR ''|'') (length ?s + 1 + length ?p + 1) v = Some (length ?s + 1 + length ?p + 1 + length ?h)"
    using find_bar [of ?h "?s @ ''|'' @ ?p @ ''|''"] ok by (simp add: v)
  have parts: "take (length ?s) v = ?s" "take (length ?s + 1 + length ?p - length ?s - 1) (drop (length ?s + 1) v) = ?p"
    "take (length ?s + 1 + length ?p + 1 + length ?h - (length ?s + 1 + length ?p) - 1) (drop (length ?s + 1 + length ?p + 1) v) = ?h"
    by (simp_all add: v)
  have rest: "drop (length ?s + 1 + length ?p + 1 + length ?h + 1) v = show_int (cr_replicas c)"
    using drop_middle [of 1 "''|''" "?s @ ''|'' @ ?p @ ''|'' @ ?h" "show_int (cr_replicas c)"] by (simp add: v add.assoc del: drop_append)
  have e: "chunk_entry c = (fst (chunk_entry c), v)"
    by (simp add: chunk_entry_def v_def)
  show ?thesis
    unfolding chunk_of_field_def Let_def
    apply (subst e)
    unfolding prod.case k(2) i option.case
    using k(1) ok
    by (simp add: stoll_show_int p1 p2 [simplified] p3 [simplified] parts [simplified] rest [simplified] stoi_show_int)
qed

lemma mset_map_filter: "mset (List.map_filter g xs) = image_mset (the \<circ> g) (filter_mset (\<lambda>x. g x \<noteq> None) (mset xs))"
  by (induction xs) (auto simp: map_filter_simps split: option.split)

lemma map_filter_entries: "\<forall>c \<in> set cs. redis_chunk_ok c \<Longrightarrow> List.map_filter (chunk_of_field reps) (map chunk_entry cs) = cs"
  by (induction cs) (simp_all add: map_filter_simps chunk_of_field_entry)

lemma hash_chunks:
  assumes "distinct (map fst l)" "hash_holds (map_of l) cs"
  shows "mset (List.map_filter (chunk_of_field reps) l) = mset cs"
proof -
  let ?l = "filter (\<lambda>kv. starts_with ''chunk:'' (fst kv)) l"
  have none: "chunk_of_field reps kv = None" if "\<not> starts_with ''chunk:'' (fst kv)" for kv
    using that by (simp add: chunk_of_field_def case_prod_unfold)
  have "List.map_filter (chunk_of_field reps) l = List.map_filter (chunk_of_field reps) ?l"
    using none by (induction l) (auto simp: map_filter_simps split: option.split)
  moreover have "mset ?l = mset (map chunk_entry cs)"
  proof (subst set_eq_iff_mset_eq_distinct [symmetric])
    show "distinct ?l"
      using assms(1) by (intro distinct_filter) (simp add: distinct_map)
    have "distinct (map (\<lambda>c. chunk_field (cr_id c) (cr_server c)) cs)"
      using assms(2) unfolding hash_holds_def distinct_map inj_on_def by (simp add: chunk_field_inj chunk_key_def)
    then show "distinct (map chunk_entry cs)"
      by (auto simp: distinct_map inj_on_def chunk_entry_def)
    show "set ?l = set (map chunk_entry cs)"
      using assms(2) map_of_eq_Some_iff [OF assms(1)]
      by (auto simp: hash_holds_def chunk_entry_def)
  qed
  ultimately have "mset (List.map_filter (chunk_of_field reps) l) = mset (List.map_filter (chunk_of_field reps) (map chunk_entry cs))"
    by (simp only: mset_map_filter)
  then show ?thesis
    using assms(2) by (simp add: map_filter_entries hash_holds_def)
qed

lemma hash_record_chunks:
  assumes "distinct (map fst l)" "hash_holds (map_of l) cs"
  shows "mset (fr_chunks (record_of_hash l)) = mset cs"
proof -
  note m = hash_chunks [OF assms, of "chunk_counts l"]
  have "\<forall>c \<in> set (List.map_filter (chunk_of_field (chunk_counts l)) l). \<not> cr_replicas c \<le> 0"
    using assms(2) mset_eq_setD [OF m] by (auto simp: hash_holds_def redis_chunk_ok_def)
  then show ?thesis
    using m by (simp add: record_of_hash_def Let_def map_idI)
qed

lemma hash_record:
  assumes "distinct (map fst l)" "hash_holds (map_of l) cs" "map_of l ''file_hash'' = Some hash"
    and "map_of l ''replica_count'' = Some (show_int n)" "in_int n" "0 < n"
  shows "fr_hash (record_of_hash l) = hash" "fr_replicas (record_of_hash l) = n" "mset (fr_chunks (record_of_hash l)) = mset cs"
  using assms(3-6) hash_record_chunks [OF assms(1,2)] by (simp_all add: record_of_hash_def Let_def stoi_show_int)

text \<open>Writing a chunk replaces the record with the same chunk and server, if there is one, and no other.\<close>

definition put_chunk :: "chunk_record \<Rightarrow> chunk_record list \<Rightarrow> chunk_record list" where
  "put_chunk c cs = filter (\<lambda>d. chunk_key d \<noteq> chunk_key c) cs @ [c]"

definition drop_chunk :: "int \<times> string \<Rightarrow> chunk_record list \<Rightarrow> chunk_record list" where
  "drop_chunk k cs = filter (\<lambda>d. chunk_key d \<noteq> k) cs"

lemma hash_holds_cong:
  assumes "\<And>k. starts_with ''chunk:'' k \<Longrightarrow> m' k = m k"
  shows "hash_holds m' cs \<longleftrightarrow> hash_holds m cs"
  using assms by (simp add: hash_holds_def)

lemma hash_holds_other: "hash_holds m cs \<Longrightarrow> \<not> starts_with ''chunk:'' k \<Longrightarrow> hash_holds (m(k := v)) cs"
  by (subst hash_holds_cong [where m = m]) auto

lemma entries_drop:
  "(k, v) \<in> chunk_entry ` set (drop_chunk (i, s) cs) \<longleftrightarrow> k \<noteq> chunk_field i s \<and> (k, v) \<in> chunk_entry ` set cs"
proof
  assume "(k, v) \<in> chunk_entry ` set (drop_chunk (i, s) cs)"
  then show "k \<noteq> chunk_field i s \<and> (k, v) \<in> chunk_entry ` set cs"
    by (auto simp: drop_chunk_def chunk_entry_def chunk_field_inj chunk_key_def)
next
  assume "k \<noteq> chunk_field i s \<and> (k, v) \<in> chunk_entry ` set cs"
  then obtain d where "d \<in> set cs" "(k, v) = chunk_entry d" "chunk_key d \<noteq> (i, s)"
    by (auto simp: chunk_entry_def chunk_key_def)
  then show "(k, v) \<in> chunk_entry ` set (drop_chunk (i, s) cs)"
    by (auto simp: drop_chunk_def)
qed

lemma drop_chunk_ok:
  "distinct (map chunk_key cs) \<Longrightarrow> distinct (map chunk_key (drop_chunk k cs))" "k \<notin> chunk_key ` set (drop_chunk k cs)"
  by (auto simp: drop_chunk_def distinct_map inj_on_def)

lemma hash_holds_drop:
  assumes "hash_holds m cs"
  shows "hash_holds (m(chunk_field i s := None)) (drop_chunk (i, s) cs)"
  using assms drop_chunk_ok(1) [of cs "(i, s)"] unfolding hash_holds_def entries_drop
  by (simp add: drop_chunk_def)

lemma put_chunk_drop: "put_chunk c cs = drop_chunk (chunk_key c) cs @ [c]"
  by (simp add: put_chunk_def drop_chunk_def)

lemma hash_holds_put:
  assumes "hash_holds m cs" "redis_chunk_ok c"
  shows "hash_holds (m(chunk_field (cr_id c) (cr_server c) \<mapsto> chunk_value (cr_server c) c)) (put_chunk c cs)"
proof -
  let ?k = "chunk_field (cr_id c) (cr_server c)"
  have key: "chunk_key c = (cr_id c, cr_server c)"
    by (rule chunk_key_def)
  note d = hash_holds_drop [OF assms(1), of "cr_id c" "cr_server c", unfolded hash_holds_def]
  have new: "(k, v) \<in> chunk_entry ` set (put_chunk c cs) \<longleftrightarrow>
      (k, v) = chunk_entry c \<or> (k, v) \<in> chunk_entry ` set (drop_chunk (chunk_key c) cs)" for k v
    by (auto simp: put_chunk_drop)
  have "(m(?k \<mapsto> chunk_value (cr_server c) c)) k = Some v \<longleftrightarrow> (k, v) \<in> chunk_entry ` set (put_chunk c cs)"
    if "starts_with ''chunk:'' k" for k v
  proof -
    have old: "m k = Some v \<longleftrightarrow> (k, v) \<in> chunk_entry ` set cs"
      using assms(1) that unfolding hash_holds_def by blast
    have e: "chunk_entry c = (?k, chunk_value (cr_server c) c)"
      by (simp add: chunk_entry_def)
    show ?thesis
      unfolding new key entries_drop e by (cases "k = ?k") (auto simp: old)
  qed
  moreover have "distinct (map chunk_key (put_chunk c cs))"
    using d drop_chunk_ok(2) [of "chunk_key c" cs] by (simp add: put_chunk_drop key)
  ultimately show ?thesis
    using d assms(2) by (simp add: hash_holds_def put_chunk_drop key)
qed

section \<open>Creating an entry\<close>

definition put_field :: "string \<times> string \<Rightarrow> (string \<Rightarrow> string option) \<Rightarrow> string \<Rightarrow> string option" where
  "put_field kv m = m(fst kv \<mapsto> snd kv)"

lemma map_add_fold: "m ++ map_of (rev xs) = fold put_field xs m"
proof (induction xs arbitrary: m)
  case (Cons x xs)
  have "m ++ map_of (rev (x # xs)) = put_field x m ++ map_of (rev xs)"
    by (rule ext) (simp add: put_field_def map_add_def split: option.split)
  then show ?case
    by (simp add: Cons.IH)
qed simp

lemma write_chunks:
  assumes "hash_holds m cs0" "\<forall>c \<in> set cs. redis_chunk_ok c"
  shows "hash_holds (m ++ map_of (rev (concat (map chunk_fields cs)))) (fold put_chunk cs cs0)"
  using assms unfolding map_add_fold
proof (induction cs arbitrary: m cs0)
  case (Cons c cs)
  have "hash_holds (fold put_field (chunk_fields c) m) (put_chunk c cs0)"
    using hash_holds_put [OF Cons.prems(1)] Cons.prems(2) by (simp add: chunk_fields_def put_field_def hash_holds_other)
  then show ?case
    using Cons.IH Cons.prems(2) by simp
qed simp

lemma fold_put:
  "distinct (map chunk_key cs) \<Longrightarrow> fold put_chunk cs cs0 = filter (\<lambda>d. chunk_key d \<notin> chunk_key ` set cs) cs0 @ cs"
proof (induction cs rule: rev_induct)
  case (snoc c cs)
  have "chunk_key c \<notin> chunk_key ` set cs"
    using snoc.prems by simp
  then have "filter (\<lambda>d. chunk_key d \<noteq> chunk_key c) cs = cs"
    by (intro filter_True ballI) (rule notI, blast dest: sym)
  moreover have "(\<lambda>d. chunk_key d \<notin> chunk_key ` set cs \<and> chunk_key d \<noteq> chunk_key c) = (\<lambda>d. chunk_key d \<notin> chunk_key ` set (cs @ [c]))"
    by auto
  ultimately show ?case
    using snoc by (simp add: put_chunk_def conj_commute)
qed simp

text \<open>What an upload stores: at least one chunk, at most one record per chunk and server, right counts, and no bar in
  the names.\<close>

definition upload_ok :: "chunk_record list \<Rightarrow> bool" where
  "upload_ok cs \<longleftrightarrow> cs \<noteq> [] \<and> distinct (map chunk_key cs) \<and> counted_chunks cs \<and> int (length cs) \<le> int_max \<and>
     (\<forall>c \<in> set cs. chunk_ok c \<and> CHR ''|'' \<notin> set (cr_server c) \<and> CHR ''|'' \<notin> set (cr_path c) \<and> CHR ''|'' \<notin> set (cr_checksum c))"

lemma upload_counts:
  assumes "upload_ok cs" "c \<in> set cs"
  shows "0 < cr_replicas c" "in_int (cr_replicas c)" "redis_chunk_ok c"
proof -
  note ok = assms(1) [unfolded upload_ok_def]
  show p: "0 < cr_replicas c" "in_int (cr_replicas c)"
    using assms(2) ok count_at_pos [OF assms(2)] count_at_le [of cs "cr_id c"]
    by (auto simp: counted_chunks_def in_int_def int_min_def)
  then show "redis_chunk_ok c"
    using ok assms(2) by (simp add: redis_chunk_ok_def)
qed

lemma not_header: "\<not> starts_with ''TTL='' (entry_line c)" "\<not> starts_with ''HASH='' (entry_line c)" "\<not> starts_with ''REPLICAS='' (entry_line c)"
proof -
  obtain x xs where x: "show_int (cr_id c) = x # xs" "is_digit x \<or> x = CHR ''-''"
    using show_int_nonempty [of "cr_id c"] show_int_chars [of _ "cr_id c"] by (cases "show_int (cr_id c)") auto
  then have "x \<noteq> CHR ''T''" "x \<noteq> CHR ''H''" "x \<noteq> CHR ''R''"
    by (auto simp: is_digit_def)
  then show "\<not> starts_with ''TTL='' (entry_line c)" "\<not> starts_with ''HASH='' (entry_line c)" "\<not> starts_with ''REPLICAS='' (entry_line c)"
    by (simp_all add: entry_line_def x(1) starts_with_def)
qed

lemma headers_of_request:
  assumes "in_int n"
  shows "entry_headers ([''TTL=3600'', ''HASH='' @ hash, ''REPLICAS='' @ show_int n] @ map entry_line cs) h =
    Inr (\<lparr>eh_ttl = 3600, eh_hash = hash, eh_replicas = n\<rparr>, map entry_line cs)"
proof -
  have rest: "entry_headers (map entry_line cs) h' = Inr (h', map entry_line cs)" for h'
    by (cases cs) (simp_all add: not_header)
  have "stoll ''3600'' = Inr 3600"
    by code_simp
  then show ?thesis
    using assms by (simp add: rest starts_with_def stoi_show_int)
qed

lemma stored_count_ok: "in_int n \<Longrightarrow> upload_ok cs \<Longrightarrow> 0 < stored_count n cs \<and> in_int (stored_count n cs)"
  using hd_counts [of cs] by (auto simp: stored_count_def upload_ok_def in_int_def int_min_def)

lemma redis_hset: "redis_ok R view \<Longrightarrow> redis_up R \<Longrightarrow> fs \<noteq> [] \<Longrightarrow> fst (rd_hset R k fs db) \<and>
    view (snd (rd_hset R k fs db)) = (view db)(k := fold put_field fs (view db k))"
  by (simp add: redis_ok_def redis_up_def map_add_fold)

lemma redis_hgetall:
  assumes "redis_ok R view" "redis_up R"
  obtains l where "rd_hgetall R k db = Some l" "distinct (map fst l)" "map_of l = view db k"
proof -
  obtain l where "rd_hgetall R k db = Some l"
    using assms(2) unfolding redis_up_def by blast
  moreover from this have "distinct (map fst l) \<and> map_of l = view db k"
    using assms(1) unfolding redis_ok_def by blast
  ultimately show ?thesis
    using that by blast
qed

lemma redis_expire: "redis_ok R view \<Longrightarrow> redis_up R \<Longrightarrow> 0 < t \<Longrightarrow> view (snd (rd_expire R k t db)) = view db"
  by (simp add: redis_ok_def redis_up_def)

lemma request_lines:
  assumes "word_ok f" "word_ok hash" "upload_ok cs"
  shows "getlines (entry_request f hash n cs) = f # [''TTL=3600'', ''HASH='' @ hash, ''REPLICAS='' @ show_int n] @ map entry_line cs"
proof -
  have "\<forall>l \<in> set (f # [''TTL=3600'', ''HASH='' @ hash, ''REPLICAS='' @ show_int n] @ map entry_line cs). CHR 0x0A \<notin> set l"
    using assms entry_line_chars word_ok_nl [OF word_ok_show_int] word_ok_nl by (auto simp: upload_ok_def)
  from getlines_unlines [OF this] show ?thesis
    by (simp add: entry_request_def)
qed

lemma view_create_entry:
  assumes "redis_ok R view" "redis_up R" "word_ok f" "word_ok hash" "in_int n" "upload_ok cs"
  shows "view (redis_create_entry R (entry_request f hash n cs) db) = (view db)(file_key f :=
    put_field (''replica_count'', show_int (stored_count n cs)) (put_field (''file_hash'', hash)
      (fold put_field (concat (map chunk_fields cs)) (view db (file_key f)))))"
proof -
  note hset = redis_hset [OF assms(1,2)] and expire = redis_expire [OF assms(1,2)]
  have ids: "map (\<lambda>c. if cr_replicas c \<le> 0 then c\<lparr>cr_replicas := count_at (cid_counts cs) (cr_id c)\<rparr> else c) cs = cs"
    using upload_counts(1) [OF assms(6)] by (intro map_idI) fastforce
  have lines: "filter (\<lambda>l. l \<noteq> []) (map entry_line cs) = map entry_line cs"
    using assms(6) entry_line_chars by (auto simp: upload_ok_def intro!: filter_True)
  have parsed: "List.map_filter parse_entry_line (map entry_line cs) = cs"
    using assms(6) upload_counts(2) [OF assms(6)] by (intro map_filter_parse) (auto simp: upload_ok_def)
  have ne: "concat (map chunk_fields cs) \<noteq> []" "hash \<noteq> []" "cs \<noteq> []"
    using assms(4,6) by (auto simp: upload_ok_def chunk_fields_def word_ok_def)
  have n: "(if n \<le> 0 \<and> cid_counts cs \<noteq> [] then snd (hd (cid_counts cs)) else n) = stored_count n cs"
    using ne by (simp add: stored_count_def)
  show ?thesis
    unfolding redis_create_entry_def request_lines [OF assms(3,4,6)] Let_def list.case list.sel headers_of_request [OF assms(5)]
      sum.case prod.case lines parsed ids entry_header.select_convs n
    using ne stored_count_ok [OF assms(5,6)] hset
    by (simp add: and_then_def expire)
qed

lemma create_entry_holds:
  assumes "redis_ok R view" "redis_up R" "hash_holds (view db (file_key f)) old"
    and "word_ok f" "word_ok hash" "in_int n" "upload_ok cs"
  shows "hash_holds (view (redis_create_entry R (entry_request f hash n cs) db) (file_key f))
    (filter (\<lambda>c. chunk_key c \<notin> chunk_key ` set cs) old @ cs)"
proof -
  have "hash_holds (fold put_field (concat (map chunk_fields cs)) (view db (file_key f))) (fold put_chunk cs old)"
    using write_chunks [OF assms(3)] upload_counts(3) [OF assms(7)] unfolding map_add_fold by blast
  then show ?thesis
    unfolding view_create_entry [OF assms(1,2,4-7)]
    using assms(7) by (simp add: put_field_def hash_holds_other fold_put upload_ok_def)
qed

text \<open>C18. Both backends give back the upload they are asked to store, with the same file hash and replica count and the
  same chunk records up to order.  The Redis backend adds to them every record the file had before for another chunk or
  another server, because \<^verbatim>\<open>create_entry\<close> writes into the hash of the file without clearing it; on a fresh file the
  two agree.\<close>

theorem redis_create_query:
  assumes "redis_ok R view" "redis_up R" "hash_holds (view db (file_key f)) old"
    and "word_ok f" "word_ok hash" "in_int n" "upload_ok cs"
    and "r = redis_query_metadata R f (redis_create_entry R (entry_request f hash n cs) db)"
    and "d = query_metadata f (create_entry (entry_request f hash n cs) st)"
  shows "fr_hash r = fr_hash d \<and> fr_replicas r = fr_replicas d \<and>
    mset (fr_chunks r) = mset (filter (\<lambda>c. chunk_key c \<notin> chunk_key ` set cs) old) + mset (fr_chunks d)"
proof -
  let ?db = "redis_create_entry R (entry_request f hash n cs) db" and ?k = "stored_count n cs"
  have f: "f \<noteq> []"
    using assms(4) by (simp add: word_ok_def)
  have d: "d = \<lparr>fr_hash = hash, fr_replicas = ?k, fr_chunks = cs\<rparr>"
    using create_entry_request [of f hash n cs st] assms(4-7) f
    by (simp add: assms(9) query_metadata_def get_chunks_def at_file_def upload_ok_def update_conv')
  obtain l where l: "rd_hgetall R (file_key f) ?db = Some l" "distinct (map fst l)" "map_of l = view ?db (file_key f)"
    by (rule redis_hgetall [OF assms(1,2)])
  note holds = create_entry_holds [OF assms(1-7), folded l(3)]
  have fields: "map_of l ''file_hash'' = Some hash" "map_of l ''replica_count'' = Some (show_int ?k)"
    unfolding l(3) view_create_entry [OF assms(1,2,4-7)] by (simp_all add: put_field_def)
  then have "r = record_of_hash l"
    using f by (auto simp: assms(8) redis_query_metadata_def l(1))
  then show ?thesis
    using hash_record [OF l(2) holds fields] stored_count_ok [OF assms(6,7)] by (simp add: d)
qed

section \<open>Failover\<close>

lemma query_chunks:
  assumes "redis_ok R view" "redis_up R" "f \<noteq> []" "hash_holds (view db (file_key f)) cs"
  shows "mset (fr_chunks (redis_query_metadata R f db)) = mset cs"
proof -
  obtain l where l: "rd_hgetall R (file_key f) db = Some l" "distinct (map fst l)" "map_of l = view db (file_key f)"
    by (rule redis_hgetall [OF assms(1,2)])
  note c = hash_record_chunks [OF l(2) assms(4) [folded l(3)]]
  have "record_of_hash [] = empty_record"
    by (simp add: record_of_hash_def Let_def map_filter_simps cid_counts_def count_keys_def empty_record_def)
  then show ?thesis
    using c assms(3) by (cases l) (auto simp: redis_query_metadata_def l(1))
qed

definition move_chunk :: "string \<Rightarrow> chunk_record \<Rightarrow> chunk_record list \<Rightarrow> chunk_record list" where
  "move_chunk dead c cs = put_chunk c (drop_chunk (cr_id c, dead) cs)"

lemma fold_move:
  assumes "distinct (map chunk_key new)" "\<forall>c \<in> set new. cr_server c \<noteq> dead"
  shows "fold (move_chunk dead) new cs =
    filter (\<lambda>d. chunk_key d \<notin> (\<lambda>c. (cr_id c, dead)) ` set new \<and> chunk_key d \<notin> chunk_key ` set new) cs @ new"
  using assms
proof (induction new rule: rev_induct)
  case (snoc c new)
  have "chunk_key c \<notin> chunk_key ` set new"
    using snoc.prems by simp
  then have own: "chunk_key d \<noteq> chunk_key c" if "d \<in> set new" for d
    using that by (metis image_eqI)
  have dead: "chunk_key d \<noteq> (cr_id c, dead)" if "d \<in> set new" for d
    using snoc.prems(2) that by (auto simp: chunk_key_def)
  have keep: "filter (\<lambda>d. chunk_key d \<noteq> chunk_key c \<and> chunk_key d \<noteq> (cr_id c, dead)) new = new"
    using own dead by (intro filter_True) blast
  have "(\<lambda>d. ((chunk_key d \<notin> (\<lambda>c. (cr_id c, dead)) ` set new \<and> chunk_key d \<notin> chunk_key ` set new) \<and>
        chunk_key d \<noteq> (cr_id c, dead)) \<and> chunk_key d \<noteq> chunk_key c) =
      (\<lambda>d. chunk_key d \<notin> (\<lambda>c. (cr_id c, dead)) ` set (new @ [c]) \<and> chunk_key d \<notin> chunk_key ` set (new @ [c]))"
    by auto
  then show ?case
    using snoc keep by (simp add: move_chunk_def put_chunk_def drop_chunk_def conj_ac)
qed simp

lemma replace_one:
  assumes "hash_holds (m (file_key f)) cs" "redis_chunk_ok c"
  shows "hash_holds (fold apply_cmd (replace_cmds dead new (file_key f) c) m (file_key f)) (move_chunk dead c cs)"
proof -
  have "cr_server c \<noteq> []"
    using assms(2) by (simp add: redis_chunk_ok_def chunk_ok_def word_ok_def)
  then show ?thesis
    using hash_holds_put [OF hash_holds_drop [OF assms(1)] assms(2)]
    by (simp add: replace_cmds_def move_chunk_def hash_holds_other Let_def)
qed

lemma replace_other: "k \<noteq> key \<Longrightarrow> fold apply_cmd (concat (map (replace_cmds dead new key) cs)) m k = m k"
  by (induction cs arbitrary: m) (simp_all add: replace_cmds_def Let_def)

lemma replace_file:
  assumes "hash_holds (m (file_key f)) cs" "\<forall>c \<in> set new. redis_chunk_ok c"
  shows "hash_holds (fold apply_cmd (concat (map (replace_cmds dead srv (file_key f)) new)) m (file_key f))
    (fold (move_chunk dead) new cs)"
  using assms
proof (induction new arbitrary: m cs)
  case (Cons c new)
  then show ?case
    using replace_one [of m f cs c dead srv] by simp
qed simp

lemma replace_files:
  assumes "distinct (map fst upd)" "(f, new) \<in> set upd" "hash_holds (m (file_key f)) cs" "\<forall>c \<in> set new. redis_chunk_ok c"
  shows "hash_holds (fold apply_cmd (concat (map (\<lambda>(f, cs). concat (map (replace_cmds dead srv (file_key f)) cs)) upd)) m (file_key f))
    (fold (move_chunk dead) new cs)"
  using assms(1-3)
proof (induction upd arbitrary: m)
  case (Cons u upd)
  obtain g ds where u: "u = (g, ds)"
    by fastforce
  let ?rest = "concat (map (\<lambda>(f, cs). concat (map (replace_cmds dead srv (file_key f)) cs)) upd)"
  have others: "fold apply_cmd (concat (map (\<lambda>(f, cs). concat (map (replace_cmds dead srv (file_key f)) cs)) us)) m' (file_key f) = m' (file_key f)"
    if "f \<notin> fst ` set us" for us m'
    using that by (induction us arbitrary: m') (auto simp: replace_other file_key_def)
  show ?case
  proof (cases "g = f")
    case True
    then have "f \<notin> fst ` set upd" "ds = new"
      using Cons.prems(1,2) by (force simp: u)+
    then show ?thesis
      using replace_file [where m = m, OF Cons.prems(3) assms(4)] others [of upd] by (simp add: u True)
  next
    case False
    have "hash_holds (fold apply_cmd (concat (map (replace_cmds dead srv (file_key g)) ds)) m (file_key f)) cs"
      using Cons.prems(3) False by (simp add: replace_other file_key_def)
    then show ?thesis
      using Cons.IH Cons.prems(1,2) False by (auto simp: u)
  qed
qed simp

text \<open>C27. A failover on the Redis backend: for every file of the update, the records of the listed chunks on the dead server
  are gone, each new record is there, in place of an older one for the same chunk and server, and all other records
  stay, among them those of the dead server for chunks that are not listed, which the on-disk backend removes.\<close>

theorem redis_failover:
  assumes "redis_ok R view" "redis_up R" "distinct (map fst upd)" "(f, new) \<in> set upd" "f \<noteq> []"
    and "hash_holds (view db (file_key f)) cs" "\<forall>c \<in> set new. redis_chunk_ok c \<and> cr_server c \<noteq> dead" "distinct (map chunk_key new)"
    and "res = redis_atomic_replace_server_chunks R dead srv upd db"
  shows "fst res \<and> mset (fr_chunks (redis_query_metadata R f (snd res))) =
    mset (filter (\<lambda>d. \<not> (cr_server d = dead \<and> cr_id d \<in> cr_id ` set new) \<and> chunk_key d \<notin> chunk_key ` set new) cs) + mset new"
proof -
  have ok: "fst res" "view (snd res) = fold apply_cmd (concat (map (\<lambda>(f, cs). concat (map (replace_cmds dead srv (file_key f)) cs)) upd)) (view db)"
    using assms(1,2) by (simp_all add: assms(9) redis_atomic_replace_server_chunks_def redis_ok_def redis_up_def)
  have "hash_holds (view (snd res) (file_key f)) (fold (move_chunk dead) new cs)"
    unfolding ok(2) using replace_files [where m = "view db", OF assms(3,4,6)] assms(7) by blast
  from query_chunks [OF assms(1,2,5) this]
  have "mset (fr_chunks (redis_query_metadata R f (snd res))) = mset (fold (move_chunk dead) new cs)" .
  moreover have "chunk_key d \<notin> (\<lambda>c. (cr_id c, dead)) ` set new \<longleftrightarrow> \<not> (cr_server d = dead \<and> cr_id d \<in> cr_id ` set new)" for d
    by (auto simp: chunk_key_def)
  ultimately show ?thesis
    using ok(1) fold_move [OF assms(8), of dead cs] assms(7) by simp
qed

section \<open>Listing and deleting\<close>

text \<open>A complete scan: the batches from a cursor until the server returns 0.\<close>

fun scan_chain :: "'db redis \<Rightarrow> 'db \<Rightarrow> int \<Rightarrow> string list list \<Rightarrow> bool" where
  "scan_chain R db cursor [] = False"
| "scan_chain R db cursor (b # bs) =
     (case rd_scan R cursor ''file:*'' 100 db of
        None \<Rightarrow> False
      | Some (next, batch) \<Rightarrow> batch = b \<and> (if next = 0 then bs = [] else scan_chain R db next bs))"

lemma scan_files_chain:
  "scan_chain R db cursor bs \<Longrightarrow> scan_files R cursor db fs = Some (Some (fs @ file_names (concat bs)))"
proof (induction bs arbitrary: cursor fs)
  case (Cons b bs)
  then show ?case
    by (subst scan_files.simps) (auto simp: file_names_def split: option.splits if_splits)
qed simp

lemma set_file_names: "g \<in> set (file_names ks) \<longleftrightarrow> file_key g \<in> set ks"
proof
  assume "g \<in> set (file_names ks)"
  then show "file_key g \<in> set ks"
    by (auto simp: file_names_def file_key_def dest!: starts_withE)
next
  assume "file_key g \<in> set ks"
  moreover have "starts_with ''file:'' (file_key g)" "drop 5 (file_key g) = g"
    by (simp_all add: file_key_def starts_with_def)
  ultimately show "g \<in> set (file_names ks)"
    by (force simp: file_names_def)
qed

lemma remdups_adj_sorted: "sorted xs \<Longrightarrow> distinct (remdups_adj xs)" for xs :: "'a::linorder list"
  by (induction xs rule: remdups_adj.induct) auto

text \<open>Listing returns whenever the scan does, with the names of the files in order and without duplicates, however often
  the server repeated a key; a deleted file has no chunks.\<close>

theorem redis_list_delete:
  assumes "redis_ok R view" "redis_up R" "scan_chain R db 0 bs" "f \<noteq> []" "\<not> contains ''#chunk:'' f"
  shows "redis_list_all_files R db = Some (sorted_list_of_set {g. file_key g \<in> set (concat bs)}) \<and>
    fr_chunks (redis_query_metadata R f (snd (redis_delete_entry R f db))) = []"
proof
  have s: "set (file_names (concat bs)) = {g. file_key g \<in> set (concat bs)}"
    using set_file_names by blast
  have "remdups_adj (sort xs) = sorted_list_of_set (set xs)" for xs :: "string list"
    by (rule sorted_distinct_set_unique) (simp_all add: sorted_remdups_adj remdups_adj_sorted)
  then show "redis_list_all_files R db = Some (sorted_list_of_set {g. file_key g \<in> set (concat bs)})"
    unfolding redis_list_all_files_def scan_files_chain [OF assms(3)] s [symmetric] by simp
  have "find_str ''#chunk:'' f = None"
    using assms(5) by (simp add: contains_def)
  then have "view (snd (redis_delete_entry R f db)) (file_key f) = Map.empty"
    using assms(1,2) by (simp add: redis_delete_entry_def redis_ok_def redis_up_def)
  then have "hash_holds (view (snd (redis_delete_entry R f db)) (file_key f)) []"
    by (simp add: hash_holds_def)
  from query_chunks [OF assms(1,2,4) this]
  show "fr_chunks (redis_query_metadata R f (snd (redis_delete_entry R f db))) = []"
    by simp
qed

section \<open>A server\<close>

type_synonym hash_db = "(string \<times> (string \<times> string) list) list"

definition hash_at :: "string \<Rightarrow> hash_db \<Rightarrow> (string \<times> string) list" where
  "hash_at k db = (case map_of db k of None \<Rightarrow> [] | Some h \<Rightarrow> h)"

definition hash_view :: "hash_db \<Rightarrow> hashes" where
  "hash_view db = (\<lambda>k. map_of (hash_at k db))"

definition put_all :: "(string \<times> string) list \<Rightarrow> (string \<times> string) list \<Rightarrow> (string \<times> string) list" where
  "put_all fs h = fold (\<lambda>kv. AList.update (fst kv) (snd kv)) fs h"

fun run_cmd :: "redis_cmd \<Rightarrow> hash_db \<Rightarrow> hash_db" where
  "run_cmd (Hset k f v) db = AList.update k (AList.update f v (hash_at k db)) db"
| "run_cmd (Hdel k f) db = AList.update k (AList.delete f (hash_at k db)) db"

definition hash_redis :: "hash_db redis" where
  "hash_redis = \<lparr>rd_hset = (\<lambda>k fs db. (True, AList.update k (put_all fs (hash_at k db)) db)),
     rd_hgetall = (\<lambda>k db. Some (AList.clearjunk (hash_at k db))),
     rd_hdel = (\<lambda>k f db. (Some (if map_of (hash_at k db) f = None then 0 else 1), run_cmd (Hdel k f) db)),
     rd_del = (\<lambda>k db. (Some (if map_of db k = None then 0 else 1), AList.delete k db)),
     rd_expire = (\<lambda>k t db. (True, db)),
     rd_scan = (\<lambda>cursor pat n db. Some (0, map fst db)),
     rd_exec = (\<lambda>cmds db. (True, fold run_cmd cmds db)),
     rd_replicaof = (\<lambda>h p db. (True, db))\<rparr>"

lemma map_of_put_all: "map_of (put_all fs h) = fold put_field fs (map_of h)"
  by (induction fs arbitrary: h) (simp_all add: put_all_def put_field_def update_conv')

lemma hash_view_update: "hash_view (AList.update k h db) = (hash_view db)(k := map_of h)"
  by (rule ext) (simp add: hash_view_def hash_at_def update_conv')

lemma view_run_cmd: "hash_view (run_cmd c db) = apply_cmd c (hash_view db)"
  by (cases c) (simp_all add: hash_view_update update_conv' delete_conv', simp_all add: hash_view_def)

lemma view_run_cmds: "hash_view (fold run_cmd cmds db) = fold apply_cmd cmds (hash_view db)"
  by (induction cmds arbitrary: db) (simp_all add: view_run_cmd)

lemma hash_redis_ok: "redis_ok hash_redis hash_view" "redis_up hash_redis"
proof -
  have "hash_view (AList.delete k db) = (hash_view db)(k := Map.empty)" for k db
    by (rule ext) (simp add: hash_view_def hash_at_def delete_conv')
  moreover have "hash_view (AList.update k (AList.delete f (hash_at k db)) db) = (hash_view db)(k := (hash_view db k)(f := None))" for k f db
    using view_run_cmd [of "Hdel k f" db] by simp
  moreover have "hash_view (AList.update k (put_all fs (hash_at k db)) db) = (hash_view db)(k := hash_view db k ++ map_of (rev fs))" for k fs db
    unfolding hash_view_update map_of_put_all map_add_fold by (simp add: hash_view_def)
  ultimately show "redis_ok hash_redis hash_view"
    unfolding redis_ok_def hash_redis_def
    by (simp add: view_run_cmds distinct_clearjunk map_of_clearjunk) (simp add: hash_view_def)
qed (simp add: redis_up_def hash_redis_def)

text \<open>The samples: a file with one chunk on one server, then on another.\<close>

definition sample_on :: "string \<Rightarrow> chunk_record" where
  "sample_on server = sample_chunk server 1"

lemma sample_upload: "upload_ok [sample_on ''s1'']" "upload_ok [sample_on ''s2'']" "redis_chunk_ok (sample_on ''s2'')"
proof -
  have c: "count_at (cid_counts [sample_on s]) 0 = 1" for s
    by (simp add: count_at_counts sample_on_def sample_chunk_def)
  show u: "upload_ok [sample_on ''s1'']" "upload_ok [sample_on ''s2'']"
    using c by (simp_all add: upload_ok_def counted_chunks_def chunk_ok_def word_ok_def is_space_def in_llong_def llong_min_def
        llong_max_def int_max_def sample_on_def sample_chunk_def)
  from upload_counts(3) [OF u(2)] show "redis_chunk_ok (sample_on ''s2'')"
    by simp
qed

definition sample_db :: hash_db where
  "sample_db = redis_create_entry hash_redis (entry_request ''a'' ''cd'' 1 [sample_on ''s1'']) []"

lemma sample_words: "word_ok ''a''" "word_ok ''cd''" "in_int 1"
  by (simp_all add: word_ok_def is_space_def in_int_def int_min_def int_max_def)

lemma sample_db_holds: "hash_holds (hash_view sample_db (file_key ''a'')) [sample_on ''s1'']"
proof -
  have "hash_holds (hash_view [] (file_key ''a'')) []"
    by (simp add: hash_holds_def hash_view_def hash_at_def)
  from create_entry_holds [OF hash_redis_ok this sample_words sample_upload(1)] show ?thesis
    by (simp add: sample_db_def)
qed

theorem redis_create_query_witness:
  "mset (fr_chunks (redis_query_metadata hash_redis ''a''
     (redis_create_entry hash_redis (entry_request ''a'' ''cd'' 1 [sample_on ''s2'']) sample_db))) = {#sample_on ''s1'', sample_on ''s2''#}"
proof -
  have "query_metadata ''a'' (create_entry (entry_request ''a'' ''cd'' 1 [sample_on ''s2'']) (open_store None True)) =
      \<lparr>fr_hash = ''cd'', fr_replicas = 1, fr_chunks = [sample_on ''s2'']\<rparr>"
    using create_entry_request [of "''a''" "''cd''" 1 "[sample_on ''s2'']" "open_store None True"] sample_words sample_upload(2)
    by (simp add: query_metadata_def get_chunks_def at_file_def upload_ok_def update_conv' stored_count_def)
  then show ?thesis
    using redis_create_query [OF hash_redis_ok sample_db_holds sample_words sample_upload(2) refl refl, of "open_store None True"]
    by (simp add: chunk_key_def sample_on_def sample_chunk_def)
qed

theorem redis_failover_witness:
  "mset (fr_chunks (redis_query_metadata hash_redis ''a''
     (snd (redis_atomic_replace_server_chunks hash_redis ''s1'' [] [(''a'', [sample_on ''s2''])] sample_db)))) = {#sample_on ''s2''#}"
  using redis_failover [OF hash_redis_ok, of "[(''a'', [sample_on ''s2''])]" "''a''" "[sample_on ''s2'']" sample_db
      "[sample_on ''s1'']" "''s1''" _ "[]"] sample_db_holds sample_upload(3)
  by (simp add: sample_on_def sample_chunk_def)

theorem redis_list_delete_witness:
  "redis_list_all_files hash_redis [(''file:a'', [])] = Some [''a''] \<and>
   fr_chunks (redis_query_metadata hash_redis ''a'' (snd (redis_delete_entry hash_redis ''a'' [(''file:a'', [])]))) = []"
proof -
  have "scan_chain hash_redis [(''file:a'', [])] 0 [[''file:a'']]"
    by (simp add: hash_redis_def)
  from redis_list_delete [OF hash_redis_ok this, of "''a''"] show ?thesis
    by (simp add: contains_def starts_with_def file_key_def)
qed

end
