(* ===== verification/System_Info.thy ===== *)
theory System_Info
  imports Heartbeat
begin

text \<open>
  The load figures of a server, \<^verbatim>\<open>src/common/include/dfg/system_info.hpp\<close>: the readers of \<^verbatim>\<open>/proc\<close>, the
  percentages and the cached monitor whose samples the heartbeats carry.  The files are their contents, \<open>None\<close> when they
  cannot be opened, and \<^verbatim>\<open>statvfs\<close> is its result.  Counters are 64-bit words and wrap; percentages, which are
  \<^verbatim>\<open>float\<close>s, are rationals, and how a \<^verbatim>\<open>double\<close> is printed with a number of decimals is the parameter \<open>fixed\<close>.
  The fields \<^verbatim>\<open>total_ram\<close> and \<^verbatim>\<open>memory_usage\<close> of a sample, which nothing reads, are left out.
\<close>

section \<open>The readers\<close>

record cpu_stats =
  cs_user :: "64 word"
  cs_nice :: "64 word"
  cs_system :: "64 word"
  cs_idle :: "64 word"
  cs_iowait :: "64 word"
  cs_irq :: "64 word"
  cs_softirq :: "64 word"
  cs_steal :: "64 word"

definition getTotalIdle :: "cpu_stats \<Rightarrow> 64 word" where
  "getTotalIdle s = cs_idle s + cs_iowait s"

definition getTotalNonIdle :: "cpu_stats \<Rightarrow> 64 word" where
  "getTotalNonIdle s = cs_user s + cs_nice s + cs_system s + cs_irq s + cs_softirq s + cs_steal s"

definition getTotal :: "cpu_stats \<Rightarrow> 64 word" where
  "getTotal s = getTotalIdle s + getTotalNonIdle s"

record network_stats =
  ns_rx :: "64 word"
  ns_tx :: "64 word"

text \<open>Up to \<open>n\<close> extractions of an unsigned number; the first that fails ends them.\<close>

fun read_numbers :: "nat \<Rightarrow> string \<Rightarrow> 64 word list" where
  "read_numbers 0 s = []"
| "read_numbers (Suc n) s = (case read_size s of None \<Rightarrow> [] | Some (v, r) \<Rightarrow> of_nat v # read_numbers n r)"

definition number_at :: "64 word list \<Rightarrow> nat \<Rightarrow> 64 word" where
  "number_at ns i = (if i < length ns then ns ! i else 0)"

definition readCpuStats :: "string option \<Rightarrow> cpu_stats" where
  "readCpuStats proc_stat =
     (let line = (case proc_stat of None \<Rightarrow> [] | Some t \<Rightarrow> (case getlines t of [] \<Rightarrow> [] | l # _ \<Rightarrow> l));
          ns = (case read_word line of None \<Rightarrow> [] | Some (_, r) \<Rightarrow> read_numbers 8 r)
      in \<lparr>cs_user = number_at ns 0, cs_nice = number_at ns 1, cs_system = number_at ns 2, cs_idle = number_at ns 3,
          cs_iowait = number_at ns 4, cs_irq = number_at ns 5, cs_softirq = number_at ns 6, cs_steal = number_at ns 7\<rparr>)"

text \<open>One interface.  A failed extraction stores 0 and the ones after it nothing, so the bytes sent of a line that breaks
  off early are the indeterminate \<open>junk\<close>.\<close>

definition net_line :: "64 word \<Rightarrow> string \<Rightarrow> network_stats \<Rightarrow> network_stats" where
  "net_line junk line s =
     (let (iface0, rest) = (case read_word line of None \<Rightarrow> ([], []) | Some p \<Rightarrow> p);
          iface = (if iface0 \<noteq> [] \<and> last iface0 = CHR '':'' then butlast iface0 else iface0);
          ns = read_numbers 16 rest;
          t_bytes = (if length ns < 8 then junk else number_at ns 8)
      in if iface \<noteq> ''lo'' then s\<lparr>ns_rx := ns_rx s + number_at ns 0, ns_tx := ns_tx s + t_bytes\<rparr> else s)"

definition readNetworkStats :: "64 word \<Rightarrow> string option \<Rightarrow> network_stats" where
  "readNetworkStats junk net_dev =
     fold (net_line junk) (drop 2 (case net_dev of None \<Rightarrow> [] | Some t \<Rightarrow> getlines t)) \<lparr>ns_rx = 0, ns_tx = 0\<rparr>"

record mem_info =
  mi_total :: int
  mi_free :: int

text \<open>\<^verbatim>\<open>sscanf(line, "Key: %ld kB", &x)\<close> after the key has been found at the start.\<close>

definition scan_kb :: "nat \<Rightarrow> string \<Rightarrow> int \<Rightarrow> int" where
  "scan_kb n line old = (case read_llong (drop n line) of None \<Rightarrow> old | Some (v, _) \<Rightarrow> v)"

fun mem_lines :: "string list \<Rightarrow> mem_info \<Rightarrow> mem_info" where
  "mem_lines [] m = m"
| "mem_lines (line # ls) m =
     (if starts_with ''MemTotal:'' line then mem_lines ls (m\<lparr>mi_total := scan_kb 9 line (mi_total m)\<rparr>)
      else if starts_with ''MemAvailable:'' line then mem_lines ls (m\<lparr>mi_free := scan_kb 13 line (mi_free m)\<rparr>)
      else if starts_with ''Cached:'' line then m
      else mem_lines ls m)"

text \<open>The memory in use, in gigabytes and per cent.\<close>

definition getRamUsageGBPercent :: "string option \<Rightarrow> rat \<times> rat" where
  "getRamUsageGBPercent meminfo =
     (let m = mem_lines (case meminfo of None \<Rightarrow> [] | Some t \<Rightarrow> getlines t) \<lparr>mi_total = 0, mi_free = 0\<rparr>;
          total_gb = of_int (mi_total m) / (1024 * 1024);
          used_gb = of_int (mi_total m - mi_free m) / (1024 * 1024)
      in (used_gb, if total_gb > 0 then used_gb / total_gb * 100 else 0))"

text \<open>Blocks, free blocks and the fragment size of the file system; the total in gigabytes, and the used part in per
  cent.\<close>

definition getDiskUsageGBPercent :: "(64 word \<times> 64 word \<times> 64 word) option \<Rightarrow> rat \<times> rat" where
  "getDiskUsageGBPercent statvfs =
     (case statvfs of
        None \<Rightarrow> (0, 0)
      | Some (blocks, bfree, frsize) \<Rightarrow>
          (let total_bytes = blocks * frsize; free_bytes = bfree * frsize; used_bytes = total_bytes - free_bytes
           in (of_nat (unat total_bytes) / (1024 * 1024 * 1024),
               if total_bytes > 0 then of_nat (unat used_bytes) / of_nat (unat total_bytes) * 100 else 0)))"

section \<open>Rates\<close>

function scale_speed :: "rat \<Rightarrow> nat \<Rightarrow> rat \<times> nat" where
  "scale_speed speed unit_index =
     (if speed \<ge> 1000 \<and> unit_index < 3 then scale_speed (speed / 1000) (unit_index + 1) else (speed, unit_index))"
  by auto
termination
  by (relation "measure (\<lambda>(_, i). 3 - i)") auto

declare scale_speed.simps [simp del]

definition bandwidth_units :: "string list" where
  "bandwidth_units = [''bps'', ''Kbps'', ''Mbps'', ''Gbps'']"

definition formatBandwidth :: "(nat \<Rightarrow> rat \<Rightarrow> string) \<Rightarrow> 64 word \<Rightarrow> string" where
  "formatBandwidth fixed bytes_per_second =
     (let (speed, i) = scale_speed (of_nat (unat bytes_per_second) * 8) 0;
          precision = (if speed < 10 then 2 else if speed < 100 then 1 else 0)
      in fixed precision speed @ '' '' @ bandwidth_units ! i)"

text \<open>The busy part between two readings, in per cent.\<close>

definition cpu_percent :: "cpu_stats \<Rightarrow> cpu_stats \<Rightarrow> rat" where
  "cpu_percent prv cur =
     (let total_diff = getTotal cur - getTotal prv; idle_diff = getTotalIdle cur - getTotalIdle prv
      in if total_diff = 0 then 0 else of_nat (unat (total_diff - idle_diff)) / of_nat (unat total_diff) * 100)"

definition getCpuUsagePercent :: "string option \<Rightarrow> string option \<Rightarrow> rat" where
  "getCpuUsagePercent before after = cpu_percent (readCpuStats before) (readCpuStats after)"

definition getNetworkBandwidthFormatted ::
  "(nat \<Rightarrow> rat \<Rightarrow> string) \<Rightarrow> 64 word \<Rightarrow> string option \<Rightarrow> string option \<Rightarrow> string \<times> string" where
  "getNetworkBandwidthFormatted fixed junk before after =
     (let p = readNetworkStats junk before; c = readNetworkStats junk after
      in (formatBandwidth fixed (ns_rx c - ns_rx p), formatBandwidth fixed (ns_tx c - ns_tx p)))"

section \<open>The monitors\<close>

text \<open>What one sample reads: the time in nanoseconds, the files and the file system.\<close>

record probe =
  pr_now :: int
  pr_stat :: "string option"
  pr_net :: "string option"
  pr_mem :: "string option"
  pr_fs :: "(64 word \<times> 64 word \<times> 64 word) option"

record cached_monitor =
  cached :: usage
  has_sample :: bool
  last_cpu :: cpu_stats
  last_net :: network_stats
  last_time :: int

definition new_cached_monitor :: cached_monitor where
  "new_cached_monitor = \<lparr>cached = \<lparr>us_cpu = 0, us_ram = 0, us_disk = 0, us_net_in = [], us_net_out = [], us_in_bps = 0, us_out_bps = 0\<rparr>,
     has_sample = False, last_cpu = readCpuStats None, last_net = \<lparr>ns_rx = 0, ns_tx = 0\<rparr>, last_time = 0\<rparr>"

definition to_milliseconds :: "int \<Rightarrow> int" where
  "to_milliseconds ns = (if 0 \<le> ns then ns div 10 ^ 6 else - ((- ns) div 10 ^ 6))"

text \<open>Bytes per second over a duration in milliseconds; a counter that went back counts as 0.\<close>

definition rate :: "64 word \<Rightarrow> 64 word \<Rightarrow> int \<Rightarrow> 64 word" where
  "rate cur prv duration =
     (if cur \<ge> prv then of_int \<lfloor>of_nat (unat (cur - prv)) / (of_int duration / 1000 :: rat)\<rfloor> else 0)"

definition sample_cached :: "(nat \<Rightarrow> rat \<Rightarrow> string) \<Rightarrow> 64 word \<Rightarrow> probe \<Rightarrow> cached_monitor \<Rightarrow> cached_monitor" where
  "sample_cached fixed junk p m =
     (let curr_cpu = readCpuStats (pr_stat p); curr_net = readNetworkStats junk (pr_net p);
          ram = snd (getRamUsageGBPercent (pr_mem p)); dsk = snd (getDiskUsageGBPercent (pr_fs p));
          c0 = cached m;
          c1 = (if has_sample m then
                  (let duration = to_milliseconds (pr_now p - last_time m) in
                   if duration > 0 then
                     (let in_bps = rate (ns_rx curr_net) (ns_rx (last_net m)) duration;
                          out_bps = rate (ns_tx curr_net) (ns_tx (last_net m)) duration
                      in c0\<lparr>us_cpu := cpu_percent (last_cpu m) curr_cpu, us_net_in := formatBandwidth fixed in_bps,
                            us_net_out := formatBandwidth fixed out_bps, us_in_bps := in_bps, us_out_bps := out_bps\<rparr>)
                   else c0)
                else c0\<lparr>us_cpu := 0, us_net_in := formatBandwidth fixed 0, us_net_out := formatBandwidth fixed 0,
                        us_in_bps := 0, us_out_bps := 0\<rparr>)
      in \<lparr>cached = c1\<lparr>us_ram := ram, us_disk := dsk\<rparr>, has_sample = True, last_cpu = curr_cpu, last_net = curr_net,
          last_time = pr_now p\<rparr>)"

text \<open>The blocking monitor: the readings before and after its first pause, the memory and disk after it, and the network
  before and after the second.\<close>

definition system_monitor :: "(nat \<Rightarrow> rat \<Rightarrow> string) \<Rightarrow> 64 word \<Rightarrow> probe \<Rightarrow> probe \<Rightarrow> probe \<Rightarrow> usage" where
  "system_monitor fixed junk p1 p2 p3 =
     (let (net_in, net_out) = getNetworkBandwidthFormatted fixed junk (pr_net p2) (pr_net p3)
      in \<lparr>us_cpu = getCpuUsagePercent (pr_stat p1) (pr_stat p2), us_ram = snd (getRamUsageGBPercent (pr_mem p2)),
          us_disk = snd (getDiskUsageGBPercent (pr_fs p2)), us_net_in = net_in, us_net_out = net_out,
          us_in_bps = 0, us_out_bps = 0\<rparr>)"

section \<open>Properties\<close>

text \<open>C38. The processor load between two readings.  Where the counters of a reading fit 64 bits together, their sum grows
  and the busy counters do not go back, the figure is at most 100 per cent exactly when the idle time did not go back either; the
  kernel documents that \<^verbatim>\<open>iowait\<close> can, and then the figure exceeds 100.\<close>

theorem cpu_percent_range:
  assumes "unat (getTotalIdle p) + unat (getTotalNonIdle p) < 2 ^ 64" "unat (getTotalIdle c) + unat (getTotalNonIdle c) < 2 ^ 64"
    and "getTotalNonIdle p \<le> getTotalNonIdle c" "getTotal p < getTotal c"
  shows "0 \<le> cpu_percent p c \<and> (cpu_percent p c \<le> 100 \<longleftrightarrow> getTotalIdle p \<le> getTotalIdle c)"
proof -
  define ip ic np nc where "ip = unat (getTotalIdle p)" and "ic = unat (getTotalIdle c)"
    and "np = unat (getTotalNonIdle p)" and "nc = unat (getTotalNonIdle c)"
  have t: "unat (getTotal p) = ip + np" "unat (getTotal c) = ic + nc"
    using assms(1,2) by (simp_all add: getTotal_def ip_def ic_def np_def nc_def unat_word_ariths)
  have busy: "(getTotal c - getTotal p) - (getTotalIdle c - getTotalIdle p) = getTotalNonIdle c - getTotalNonIdle p"
    by (simp add: getTotal_def)
  have n: "np \<le> nc" "ip + np < ic + nc" and i: "getTotalIdle p \<le> getTotalIdle c \<longleftrightarrow> ip \<le> ic"
    using assms(3,4) t by (simp_all add: word_le_nat_alt word_less_nat_alt np_def nc_def ip_def ic_def)
  have "unat (getTotal c - getTotal p) = ic + nc - (ip + np)" "unat (getTotalNonIdle c - getTotalNonIdle p) = nc - np"
    using assms(3,4) t by (simp_all add: unat_sub np_def nc_def)
  moreover have "getTotal c - getTotal p \<noteq> 0"
    using assms(4) by auto
  ultimately have pct: "cpu_percent p c = of_nat (nc - np) / of_nat (ic + nc - (ip + np)) * 100"
    unfolding cpu_percent_def Let_def busy by simp
  have "nc - np \<le> ic + nc - (ip + np) \<longleftrightarrow> ip \<le> ic"
    using n by arith
  then have "(of_nat (nc - np) / of_nat (ic + nc - (ip + np)) * 100 \<le> (100::rat)) \<longleftrightarrow> ip \<le> ic"
    using n by (simp add: divide_le_eq)
  then show ?thesis
    by (simp add: pct i)
qed

lemma scale_speed_spec:
  "scale_speed s i = (v, j) \<Longrightarrow> i \<le> 3 \<Longrightarrow> i \<le> j \<and> j \<le> 3 \<and> v * 1000 ^ (j - i) = s \<and> (v < 1000 \<or> j = 3) \<and> (i < j \<longrightarrow> 1 \<le> v)"
proof (induction s i rule: scale_speed.induct)
  case (1 s i)
  show ?case
  proof (cases "s \<ge> 1000 \<and> i < 3")
    case True
    then have rec: "scale_speed (s / 1000) (i + 1) = (v, j)"
      using "1.prems"(1) by (simp add: scale_speed.simps [of s i])
    have ih: "i + 1 \<le> j" "j \<le> 3" "v * 1000 ^ (j - (i + 1)) = s / 1000" "v < 1000 \<or> j = 3" "i + 1 < j \<longrightarrow> 1 \<le> v"
      using "1.IH" [OF True rec] True by auto
    have "v * 1000 ^ (j - i) = s"
      using ih(1,3) by (simp add: Suc_diff_Suc [symmetric] field_simps)
    moreover have "1 \<le> v"
      using ih True by (cases "j = i + 1") auto
    ultimately show ?thesis
      using ih by auto
  next
    case False
    then show ?thesis
      using 1(2,3) by (auto simp: scale_speed.simps [of s i])
  qed
qed

text \<open>The text of a bandwidth shows the rate in bits in the unit in which it is below 1000, up to gigabits.\<close>

theorem bandwidth_unit:
  "\<exists>v j. formatBandwidth fixed b = fixed (if v < 10 then 2 else if v < 100 then 1 else 0) v @ '' '' @ bandwidth_units ! j \<and>
     j \<le> 3 \<and> v * 1000 ^ j = 8 * of_nat (unat b) \<and> (v < 1000 \<or> j = 3) \<and> (0 < j \<longrightarrow> 1 \<le> v)"
proof -
  obtain v j where vj: "scale_speed (of_nat (unat b) * 8) 0 = (v, j)"
    by fastforce
  from scale_speed_spec [OF this] show ?thesis
    unfolding formatBandwidth_def Let_def vj prod.case by (intro exI [of _ v] exI [of _ j]) (auto simp: mult.commute)
qed

text \<open>The rate a heartbeat carries: after a sample that comes at least a millisecond after the one before, the message
  holds the number of received bytes per second, rounded down, wherever the counter did not go back.\<close>

theorem sampled_rate:
  assumes "has_sample m" "d = to_milliseconds (pr_now p - last_time m)" "0 < d"
    and "cur = ns_rx (readNetworkStats junk (pr_net p))" "ns_rx (last_net m) \<le> cur"
    and "n = unat cur - unat (ns_rx (last_net m))" "1000 * n < 2 ^ 64"
    and "r = unat (hb_net_in_bps (fill_metrics t (Cached (cached (sample_cached fixed junk p m))) hb))"
  shows "int r * d \<le> 1000 * int n \<and> 1000 * int n < (int r + 1) * d"
proof -
  have n: "unat (cur - ns_rx (last_net m)) = n"
    using assms(5,6) by (simp add: unat_sub)
  have q: "\<lfloor>of_nat n / (of_int d / 1000 :: rat)\<rfloor> = 1000 * int n div d"
  proof -
    have "of_nat n / (of_int d / 1000 :: rat) = of_int (1000 * int n) / of_int d"
      by simp
    then show ?thesis
      by (simp only: floor_divide_of_int_eq)
  qed
  have "1000 * int n div d \<le> 1000 * int n div 1"
    using assms(3) by (intro zdiv_mono2) auto
  moreover have "int (1000 * n) < int (2 ^ 64)"
    using assms(7) by (simp only: of_nat_less_iff)
  ultimately have b: "0 \<le> 1000 * int n div d" "1000 * int n div d < 2 ^ 64"
    using assms(3) by (simp_all add: pos_imp_zdiv_nonneg_iff)
  have "rate cur (ns_rx (last_net m)) d = of_int (1000 * int n div d)"
    unfolding rate_def n q using assms(5) by simp
  moreover have "unat (of_int (1000 * int n div d) :: 64 word) = nat (1000 * int n div d)"
    using b by (simp add: unat_eq_nat_uint uint_word_of_int)
  ultimately have "r = nat (1000 * int n div d)"
    using assms(1-4,8) by (simp add: fill_metrics_def sample_cached_def Let_def)
  then have "1000 * int n = int r * d + 1000 * int n mod d"
    using b(1) div_mult_mod_eq [of "1000 * int n" d] by simp
  then show ?thesis
    unfolding distrib_right using pos_mod_sign [OF assms(3), of "1000 * int n"] pos_mod_bound [OF assms(3), of "1000 * int n"]
    by linarith
qed

definition sample_probe :: "int \<Rightarrow> string \<Rightarrow> probe" where
  "sample_probe now bytes = \<lparr>pr_now = now, pr_stat = None,
     pr_net = Some (''h'' @ [nl] @ ''h'' @ [nl] @ ''e: '' @ bytes @ '' 0 0 0 0 0 0 0 5'' @ [nl]), pr_mem = None, pr_fs = None\<rparr>"

definition sample_cpu :: "64 word \<Rightarrow> 64 word \<Rightarrow> cpu_stats" where
  "sample_cpu user idle = (readCpuStats None)\<lparr>cs_user := user, cs_idle := idle\<rparr>"

lemma sample_cpu_totals: "getTotalIdle (sample_cpu u i) = i" "getTotalNonIdle (sample_cpu u i) = u" "getTotal (sample_cpu u i) = i + u"
  by (simp_all add: getTotalIdle_def getTotalNonIdle_def getTotal_def sample_cpu_def readCpuStats_def number_at_def Let_def
      getlines_def read_word_Nil)

theorem cpu_percent_range_witness:
  "cpu_percent (sample_cpu 10 10) (sample_cpu 20 15) \<le> 100 \<and> \<not> cpu_percent (sample_cpu 10 10) (sample_cpu 20 9) \<le> 100"
  using cpu_percent_range [of "sample_cpu 10 10" "sample_cpu 20 15"] cpu_percent_range [of "sample_cpu 10 10" "sample_cpu 20 9"]
  by (simp add: sample_cpu_totals)

lemma sample_net: "ns_rx (readNetworkStats 0 (pr_net (sample_probe t ''7''))) = 7" "ns_rx (readNetworkStats 0 (pr_net (sample_probe t ''9''))) = 9"
  by code_simp+

theorem sampled_rate_witness:
  "int (unat (hb_net_in_bps (fill_metrics 1 (Cached (cached (sample_cached (\<lambda>_ _. []) 0 (sample_probe 10000000 ''9'')
     (sample_cached (\<lambda>_ _. []) 0 (sample_probe 0 ''7'') new_cached_monitor)))) (new_heartbeat 1 [])))) * 10 \<le> 2000"
proof -
  let ?m = "sample_cached (\<lambda>_ _. []) 0 (sample_probe 0 ''7'') new_cached_monitor"
  have m: "has_sample ?m" "last_time ?m = 0" "ns_rx (last_net ?m) = 7"
    using sample_net(1) [of 0] by (simp_all add: sample_cached_def Let_def) (simp add: sample_probe_def)
  have d: "10 = to_milliseconds (pr_now (sample_probe 10000000 ''9'') - last_time ?m)"
    unfolding m by (simp add: sample_probe_def to_milliseconds_def)
  have n: "ns_rx (last_net ?m) \<le> 9" "2 = unat (9 :: 64 word) - unat (ns_rx (last_net ?m))" "0 < (10 :: int)" "1000 * 2 < (2 :: nat) ^ 64"
    unfolding m(3) by simp_all
  show ?thesis
    using sampled_rate [OF m(1) d n(3) sample_net(2) [symmetric] n(1,2,4) refl, of 1 "\<lambda>_ _. []" "new_heartbeat 1 []"] by linarith
qed

end
