(* ===== verification/Head_Start.thy ===== *)
theory Head_Start
  imports Head_Server Cluster_Server
begin

text \<open>
  The start of the head server, \<^verbatim>\<open>run_head_server\<close> of \<^verbatim>\<open>src/head_server/head_server.cpp\<close> up to its threads, and the
  health check thread: the arguments, the configuration, the registry and the health monitor it fills, and the entry in
  ZooKeeper by which head servers are meant to find one another.  The arguments are those after the program name.  The
  metrics and the banner are left out.
\<close>

section \<open>Arguments\<close>

text \<open>The loops over the arguments look at every argument that has a successor, without skipping the values.\<close>

definition arg_pairs :: "string list \<Rightarrow> (string \<times> string) list" where
  "arg_pairs args = zip args (tl args)"

fun load_configs :: "files \<Rightarrow> (string \<times> string) list \<Rightarrow> config \<Rightarrow> config option" where
  "load_configs fs [] cfg = Some cfg"
| "load_configs fs ((a, v) # ps) cfg =
     (if a = ''-c'' \<or> a = ''--config''
      then (case load fs v cfg of None \<Rightarrow> None | Some (_, cfg') \<Rightarrow> load_configs fs ps cfg')
      else load_configs fs ps cfg)"

fun override_ports :: "(string \<times> string) list \<Rightarrow> int \<times> int \<Rightarrow> cxx_exn + int \<times> int" where
  "override_ports [] pc = Inr pc"
| "override_ports ((a, v) # ps) (port, control_port) =
     (case (if a = ''-p'' \<or> a = ''--port'' then stoi v else Inr port) of
        Inl e \<Rightarrow> Inl e
      | Inr port' \<Rightarrow>
          (case (if a = ''--control-port'' then stoi v else Inr control_port) of
             Inl e \<Rightarrow> Inl e
           | Inr control_port' \<Rightarrow> override_ports ps (port', control_port')))"

definition zk_hosts_arg :: "(string \<times> string) list \<Rightarrow> string \<Rightarrow> string" where
  "zk_hosts_arg ps dflt = fold (\<lambda>(a, v) hosts. if a = ''--zk-hosts'' then v else hosts) ps dflt"

section \<open>The entry in ZooKeeper\<close>

definition register_head :: "string \<Rightarrow> int \<Rightarrow> zk_store \<Rightarrow> zk_client \<times> zk_store" where
  "register_head hosts control_port st =
     (let (zk, ok, _) = zk_connect (new_client hosts) in
      if ok then
        (let st1 = (if node_exists ''/dfg'' st then st else fst (create_node zk ''/dfg'' [] False False st));
             st2 = (if node_exists ''/dfg/head_servers'' st1 then st1
                    else fst (create_node zk ''/dfg/head_servers'' [] False False st1));
             st3 = fst (create_node zk (''/dfg/head_servers/head_'' @ show_int control_port)
                     (''127.0.0.1:'' @ show_int control_port) True False st2)
         in (zk, st3))
      else (zk, st))"

section \<open>The process\<close>

record head_process =
  hp_port :: int
  hp_control_port :: int
  hp_replication :: int
  hp_chunk_size :: int
  hp_registry :: registry
  hp_monitor :: monitor
  hp_zk_hosts :: string
  hp_zk :: zk_store

datatype head_start = Dumped config | Started head_process

text \<open>\<open>None\<close> is a configuration file on which the loader does not return, \<open>Inl\<close> an exception that ends the process.\<close>

definition run_head_server ::
  "getenv \<Rightarrow> files \<Rightarrow> int \<Rightarrow> string list \<Rightarrow> config \<Rightarrow> zk_store \<Rightarrow> (cxx_exn + head_start) option" where
  "run_head_server getenv fs now args cfg0 zk =
     (let ps = arg_pairs args in
      case load_configs fs ps cfg0 of
        None \<Rightarrow> None
      | Some cfg \<Rightarrow> Some
          (if ''--dump-config'' \<in> set args then Inr (Dumped cfg)
           else
             (case override_ports ps (get_int getenv cfg ''server.port'' 9669, get_int getenv cfg ''control_api.port'' 9670) of
                Inl e \<Rightarrow> Inl e
              | Inr (port, control_port) \<Rightarrow>
                  (let mon0 = new_monitor (get_int getenv cfg ''health_checker.heartbeat_timeout'' 60)
                                (get_int getenv cfg ''health_checker.max_missed_heartbeats'' 10);
                       (reg, mon) = load_config_servers now (get_cluster_servers getenv cfg) (new_registry, mon0);
                       hosts = zk_hosts_arg ps (get_string getenv cfg ''zookeeper.hosts'' ''127.0.0.1:2181'')
                   in Inr (Started \<lparr>hp_port = port, hp_control_port = control_port,
                        hp_replication = get_int getenv cfg ''storage.replication_factor'' 3,
                        hp_chunk_size = get_long getenv cfg ''storage.chunk_size'' (64 * 1024 * 1024),
                        hp_registry = reg, hp_monitor = set_unhealthy_callback True mon, hp_zk_hosts = hosts,
                        hp_zk = snd (register_head hosts control_port zk)\<rparr>)))))"

text \<open>One turn of the health check thread; the callback starts a thread for every server that just became unhealthy, and
  the threads run in that order.\<close>

definition health_check_turn :: "(int \<Rightarrow> server_health \<Rightarrow> 's \<Rightarrow> 's) \<Rightarrow> int \<Rightarrow> monitor \<times> 's \<Rightarrow> monitor \<times> 's" where
  "health_check_turn callback now ms =
     (let (mon, evs) = check_health now (fst ms)
      in (mon, fold (\<lambda>e. case e of Unhealthy sid h \<Rightarrow> callback sid h | Recovered _ _ \<Rightarrow> id) evs (snd ms)))"

section \<open>What the head server finds in ZooKeeper\<close>

lemma head_paths:
  "''/dfg'' = path_of [''dfg'']" "''/dfg/head_servers'' = path_of ([''dfg''] @ [''head_servers''])"
  "''/dfg/head_servers/head_'' @ show_int p = path_of ([''dfg'', ''head_servers''] @ [''head_'' @ show_int p])"
  "''/dfg/head_servers/'' @ ''head_'' @ show_int p = path_of ([''dfg'', ''head_servers''] @ [''head_'' @ show_int p])"
  "comps_ok ([''dfg''] @ [''head_servers''])" "comps_ok ([''dfg'', ''head_servers''] @ [''head_'' @ show_int p])"
proof -
  have "CHR ''/'' \<notin> set (show_int p)"
    using show_int_chars [of "CHR ''/''" p] by (auto simp: is_digit_def)
  then show "''/dfg'' = path_of [''dfg'']" "''/dfg/head_servers'' = path_of ([''dfg''] @ [''head_servers''])"
    "''/dfg/head_servers/head_'' @ show_int p = path_of ([''dfg'', ''head_servers''] @ [''head_'' @ show_int p])"
    "''/dfg/head_servers/'' @ ''head_'' @ show_int p = path_of ([''dfg'', ''head_servers''] @ [''head_'' @ show_int p])"
    "comps_ok ([''dfg''] @ [''head_servers''])" "comps_ok ([''dfg'', ''head_servers''] @ [''head_'' @ show_int p])"
    by (simp_all add: path_of_def comps_ok_def comp_ok_def)
qed

definition head_dirs :: "(string \<times> znode) list" where
  "head_dirs = [(''/'', empty_znode\<lparr>zn_children := [''dfg'']\<rparr>), (''/dfg'', empty_znode\<lparr>zn_children := [''head_servers'']\<rparr>),
     (''/dfg/head_servers'', empty_znode)]"

lemma head_dirs_created:
  "zk_connected zk \<Longrightarrow> fst (create_node zk ''/dfg/head_servers'' [] False False (fst (create_node zk ''/dfg'' [] False False zk_init))) =
    \<lparr>nodes = head_dirs, counters = []\<rparr>"
  by (simp add: create_node_def Let_def actual_path_def ensure_parent_exists_def link_node_def add_child_def zk_init_def head_dirs_def
      empty_znode_def normalize_path_def strip_slashes.simps parent_path_def child_name_def
      insort_insert_key_def)

text \<open>The store after the registration, in a process that has just started.\<close>

lemma registered_head:
  fixes p :: int
  defines "n \<equiv> ''head_'' @ show_int p"
  shows "nodes (snd (register_head hosts p zk_init)) =
    [(''/'', empty_znode\<lparr>zn_children := [''dfg'']\<rparr>), (''/dfg'', empty_znode\<lparr>zn_children := [''head_servers'']\<rparr>),
     (''/dfg/head_servers'', empty_znode\<lparr>zn_children := [n]\<rparr>),
     (''/dfg/head_servers/'' @ n, empty_znode\<lparr>zn_data := ''127.0.0.1:'' @ show_int p, zn_ephemeral := True\<rparr>)]"
proof -
  let ?zk = "(new_client hosts)\<lparr>zk_connected := True\<rparr>" and ?path = "''/dfg/head_servers/head_'' @ show_int p"
  let ?cs = "[''dfg'', ''head_servers'']"
  have c: "zk_connect (new_client hosts) = (?zk, True, zk_watch_events (new_client hosts) (Session_up hosts))"
    by (simp add: zk_connect_def new_client_def)
  have ne: "\<not> node_exists ''/dfg'' zk_init" "\<not> node_exists ''/dfg/head_servers'' (fst (create_node ?zk ''/dfg'' [] False False zk_init))"
    by (simp_all add: node_exists_def create_node_def Let_def actual_path_def ensure_parent_exists_def link_node_def add_child_def zk_init_def
        empty_znode_def normalize_path_def strip_slashes.simps parent_path_def child_name_def)
  have dirs: "fst (create_node ?zk ''/dfg/head_servers'' [] False False (fst (create_node ?zk ''/dfg'' [] False False zk_init))) =
      \<lparr>nodes = head_dirs, counters = []\<rparr>"
    by (rule head_dirs_created) simp
  have path: "normalize_path ?path = ?path" "parent_path ?path = ''/dfg/head_servers''" "child_name ?path = n"
  proof -
    have ok: "comp_ok (''head_'' @ show_int p)"
      using head_paths(6) [of p] by (simp add: comps_ok_def)
    have dir: "path_of ?cs = ''/dfg/head_servers''"
      by (simp add: head_paths(2))
    show "normalize_path ?path = ?path"
      unfolding head_paths(3) by (rule normalize_path_of [OF head_paths(6)])
    show "parent_path ?path = ''/dfg/head_servers''"
      unfolding head_paths(3) dir [symmetric] by (rule parent_path_of [OF ok])
    show "child_name ?path = n"
      unfolding head_paths(3) n_def by (rule child_name_of [OF ok])
  qed
  have "snd (register_head hosts p zk_init) = fst (create_node ?zk ?path (''127.0.0.1:'' @ show_int p) True False \<lparr>nodes = head_dirs, counters = []\<rparr>)"
    unfolding register_head_def c Let_def prod.case by (simp only: ne if_False if_True dirs snd_conv)
  then show ?thesis
    by (simp only:) (simp add: create_node_def actual_path_def path [simplified] Let_def ensure_parent_exists_def head_dirs_def link_node_def
        add_child_def insort_insert_key_def n_def empty_znode_def)
qed

lemma no_peer_found:
  assumes "in_int p"
  shows "zk_peers p (snd (register_head hosts p zk_init)) = []" "\<not> zk_alive now sid (snd (register_head hosts p zk_init))"
proof -
  let ?st = "snd (register_head hosts p zk_init)" and ?d = "''127.0.0.1:'' @ show_int p"
  have dir: "normalize_path ''/dfg/head_servers'' = ''/dfg/head_servers''"
    by (simp add: normalize_path_def strip_slashes.simps)
  have node: "normalize_path (''/dfg/head_servers/'' @ ''head_'' @ show_int p) = ''/dfg/head_servers/'' @ ''head_'' @ show_int p"
    unfolding head_paths(4) by (rule normalize_path_of [OF head_paths(6)])
  have "get_children ''/dfg/head_servers'' ?st = [''head_'' @ show_int p]" "get_node_data (''/dfg/head_servers/'' @ ''head_'' @ show_int p) ?st = ?d"
    unfolding get_children_def get_node_data_def registered_head dir node by simp_all
  moreover have "parse_address 8080 ?d = (''127.0.0.1'', p)"
    by (simp add: parse_address_def stoi_show_int [OF assms])
  ultimately show "zk_peers p ?st = []"
    by (simp add: zk_peers_def)
  have "map_of (nodes ?st) (liveness_znode sid) = None"
    unfolding registered_head by (simp add: liveness_znode_def)
  then show "\<not> zk_alive now sid ?st"
    unfolding zk_alive_def Let_def liveness_znode_def [symmetric] by (simp add: node_exists_def del: not_None_eq)
qed

lemma started_zk:
  assumes "run_head_server getenv fs start args cfg zk = Some (Inr (Started hp))"
  shows "hp_zk hp = snd (register_head (hp_zk_hosts hp) (hp_control_port hp) zk)"
proof -
  let ?ps = "arg_pairs args"
  obtain cfg' where l: "load_configs fs ?ps cfg = Some cfg'"
    using assms by (cases "load_configs fs ?ps cfg") (simp_all add: run_head_server_def Let_def)
  let ?o = "override_ports ?ps (get_int getenv cfg' ''server.port'' 9669, get_int getenv cfg' ''control_api.port'' 9670)"
  note run = assms [unfolded run_head_server_def Let_def l option.case]
  have d: "''--dump-config'' \<notin> set args"
    using run by (cases "''--dump-config'' \<in> set args") simp_all
  obtain pc where o: "?o = Inr pc"
    using run d by (cases ?o) simp_all
  show ?thesis
    using run d by (simp add: o case_prod_unfold) auto
qed

text \<open>C36. ZooKeeper never takes part in the vote on a silent server.  The node store is private to a process, so after the
  start of the head server it holds the server's own entry and nothing else: whatever server is in question and at
  whatever time, the vote is the one of the head servers in the configuration file, asked one after the other.\<close>

theorem vote_without_zookeeper:
  assumes "run_head_server getenv fs start args cfg zk_init = Some (Inr (Started hp))" "in_int (hp_control_port hp)"
  shows "verify_cluster_server_dead_consensus http zk_up (hp_zk hp) cfg_heads (hp_control_port hp) now sid w =
    query_peers http sid (all_peers (hp_control_port hp) cfg_heads []) w"
proof -
  have "hp_zk hp = snd (register_head (hp_zk_hosts hp) (hp_control_port hp) zk_init)"
    by (rule started_zk [OF assms(1)])
  then show ?thesis
    using no_peer_found [OF assms(2)] by (simp add: verify_cluster_server_dead_consensus_def)
qed

theorem vote_without_zookeeper_witness:
  "\<exists>hp. run_head_server (\<lambda>_. None) (\<lambda>_. None) 0 [''-p'', ''7''] new_config zk_init = Some (Inr (Started hp)) \<and> hp_port hp = 7 \<and>
    verify_cluster_server_dead_consensus (\<lambda>_ _ _ w. (None, w)) True (hp_zk hp) [] (hp_control_port hp) 0 1 () =
    query_peers (\<lambda>_ _ _ w. (None, w)) 1 (all_peers (hp_control_port hp) [] []) ()"
proof -
  have port: "get_int (\<lambda>_. None) new_config ''control_api.port'' 9670 = 9670"
    by (simp add: get_int_def get_string_def env_set_def env_alias_def new_config_def)
  have seven: "stoi ''7'' = Inr 7"
    by code_simp
  obtain hp where hp: "run_head_server (\<lambda>_. None) (\<lambda>_. None) 0 [''-p'', ''7''] new_config zk_init = Some (Inr (Started hp))"
    "hp_port hp = 7" "hp_control_port hp = 9670"
    by (simp add: run_head_server_def arg_pairs_def port seven Let_def case_prod_unfold)
  have "in_int (hp_control_port hp)"
    by (simp add: hp(3) in_int_def int_min_def int_max_def)
  note vote = vote_without_zookeeper [OF hp(1) this]
  show ?thesis
    by (intro exI [of _ hp] conjI hp(1,2) vote)
qed

end
