(* ===== verification/Spec2Isabelle.thy ===== *)
theory Spec2Isabelle
  imports Thread_Pool Config_Loader Grid Zk_Monitor Reactor Health_Checker Cluster_Server Dfg_Cli Redis_Store
    System_Info Head_Start
begin

text \<open>
  A verification library for Distributed-File-Grid, a file store of several C++ processes.

  \<^bold>\<open>The program.\<close>  A client (\<^verbatim>\<open>src/client\<close>) splits a file into chunks and sends them to a head server
  (\<^verbatim>\<open>src/head_server\<close>), which places each chunk on several cluster servers (\<^verbatim>\<open>src/cluster_server\<close>) and keeps
  the metadata.  For a download the head server asks the replicas of every chunk for their hash, and sends the client
  the servers of the majority; the client fetches and verifies the chunks itself.  Cluster servers send heartbeats to
  the head server and to the health checker (\<^verbatim>\<open>src/health_checker\<close>); a silent server is declared dead, after a vote
  its chunks are copied to other servers and the metadata is rewritten.  The ZooKeeper monitor
  (\<^verbatim>\<open>src/zk_monitor\<close>) elects a leader among the head servers.  \<^verbatim>\<open>src/common\<close> holds what the processes share.

  \<^bold>\<open>Which theory models what.\<close>
  \<^item> \<open>Cxx_Prelude\<close>: what the sources use of the C++ standard library (strings, streams, \<^verbatim>\<open>stoi\<close>, \<^verbatim>\<open>std::map\<close>,
    \<^verbatim>\<open>std::unordered_map\<close>, \<^verbatim>\<open>std::sort\<close>), with the locale \<open>assoc_container\<close> for the two kinds of map.
    \<open>Transition_System\<close>: reachability, and the locale \<open>inductive_invariant\<close> that every step relation interprets.
  \<^item> \<open>Sha256\<close>: \<^verbatim>\<open>sha256.hpp\<close>.  The incremental hasher on 32-bit words equals FIPS 180-4 on every split of the
    input.
  \<^item> \<open>Server_Registry\<close>, \<open>Health_Monitor\<close>, \<open>Net_Utils\<close>, \<open>Thread_Pool\<close>, \<open>Config_Loader\<close>: the headers of those
    names.  Registry invariants, with and without arbitrary settings of the identifier counter; exact detection and alternating notifications; transport through any segmentation;
    no job is lost; the JSON reader returns what the document says, and where it does not return.
  \<^item> \<open>Zookeeper\<close>: \<^verbatim>\<open>zookeeper_client.cpp\<close>, refined to a tree of nodes.
  \<^item> \<open>Reactor\<close> and \<open>Heartbeat\<close>: \<^verbatim>\<open>async_net.hpp\<close>, the coroutine scheduler over epoll, with calls the kernel refuses, and the heartbeat
    frames, with \<^verbatim>\<open>heartbeat_sender\<close> of \<^verbatim>\<open>chunk_service.cpp\<close>.
  \<^item> \<open>Messages\<close>, \<open>Chunk_Storage\<close>, \<open>Cluster_Node\<close>: the messages of \<^verbatim>\<open>file_transfer.proto\<close>, and classes
    \<^verbatim>\<open>ChunkStorage\<close> and \<^verbatim>\<open>ClusterServerService\<close> of \<^verbatim>\<open>chunk_service.cpp\<close>: storage as a map from chunks to bytes, what
    registrations under a path of the request do to it, and the protocols over it.  \<open>Cluster_Server\<close>: \<^verbatim>\<open>cluster_server.cpp\<close>, registration and the liveness thread.
  \<^item> \<open>Metadata_Store\<close>: \<^verbatim>\<open>redis_handler.hpp\<close> with the on-disk backend; every reachable store is durable.
    \<open>Redis_Store\<close>: the same header with the Redis backend, over any server that satisfies \<open>redis_ok\<close>.
  \<^item> \<open>Head_Transfer\<close>, \<open>Download\<close>, \<open>Failover\<close>, \<open>Head_Server\<close>: \<^verbatim>\<open>head_server.cpp\<close>, the requests to cluster servers,
    downloads and deletions, failure handling, and the client port.  \<open>Head_Start\<close>: its arguments and
    start-up, and what ZooKeeper holds in its process.  \<open>File_Upload\<close>: \<^verbatim>\<open>file_upload.cpp\<close>.
    \<open>Control_API\<close>: \<^verbatim>\<open>control_api.hpp\<close>.
  \<^item> \<open>Client\<close>: \<^verbatim>\<open>client.cpp\<close>.  \<open>Health_Checker\<close>: \<^verbatim>\<open>health_checker.cpp\<close>.  \<open>Zk_Monitor\<close>: \<^verbatim>\<open>zk_monitor.cpp\<close>.
    \<open>Dfg_Cli\<close>: \<^verbatim>\<open>dfg_cli.cpp\<close>, run against the control interface of the head server.  \<open>System_Info\<close>:
    \<^verbatim>\<open>system_info.hpp\<close>, the figures computed from the texts of the kernel.
  \<^item> \<open>Grid\<close>: client, head server and cluster servers connected to one another; an uploaded file is downloaded byte for
    byte, and the client lists exactly the files of the metadata.

  \<^bold>\<open>How the model reads.\<close>  A class is a record and a method a function on it, with the code's name where HOL does not
  use it.  An operation under a mutex is one step; threads are step relations (\<open>Thread_Pool\<close>, \<open>Reactor\<close>), an arbitrary
  order of results (\<open>Client\<close>), or run in submission order where results are consumed in that order (\<open>Download\<close>,
  \<open>File_Upload\<close>).  Exceptions are \<open>Inl\<close>; callbacks and replies are part of the result.  An \<^verbatim>\<open>int\<close> is an
  integer with \<open>in_int\<close> and \<open>wrap_int\<close> written out; hashing and bit masks use machine words; a \<^verbatim>\<open>float\<close>, which the
  program only copies, compares and prints, is a rational.  What is outside the sources is a parameter: the kernel is the list
  of results of successive calls, a connection is a function from request to reply over a state of the world, protobuf is
  a record of serialisers with the documented round trip as a hypothesis (\<open>field_codec\<close> and \<open>sample_hb_codec\<close> satisfy it).

  \<^bold>\<open>Bounds and fuel.\<close>  Loops over kernel calls consume the list of results; \<open>None\<close> is a call that still blocks, and the
  round trips assume only that the kernel lets the bytes through.  The JSON parser is a \<open>partial_function\<close> without
  fuel: that it returns is proved for texts that write a document and for texts without a bracket, and that it does not
  return for a malformed array.  Message lengths are bounded where the code casts them to 32 bits, hash inputs by the
  \<open>2 ^ 61\<close> bytes of the standard, counters by \<^verbatim>\<open>INT_MAX\<close>.

  \<^bold>\<open>Limits of the model.\<close>  Memory does not run out: the only allocation failure is a vector above its maximal size.  A
  reply to a client is sent whole: \<^verbatim>\<open>handle_client_upload\<close> gives up when its \<^verbatim>\<open>READY\<close> cannot be sent, which the
  model has not.  The counters of missed heartbeats and of sequential nodes are unbounded integers; in the code they
  overflow after \<open>2 ^ 31\<close> events.  Serialisers are total functions with a round trip on every message.

  \<^bold>\<open>Not modelled.\<close>  \<^verbatim>\<open>metrics.hpp\<close> and \<^verbatim>\<open>metrics_exporter\<close>, which only hand counters to the Prometheus
  library; banners, tables and web pages as text; signal handlers; the accept loops and the starting of the threads; the
  stand-alone sessions of \<^verbatim>\<open>async_net.hpp\<close>, which no process calls.
\<close>

end
